(* ===== verification/Asio.thy ===== *)
theory Asio
  imports Prelude
begin

section \<open>Error codes and the calls into Boost.Asio\<close>

text \<open>
  Boost.Asio is not part of the repository, so nothing here says what it does. The programs talk to
  it in two ways, and both are data in this model: a handler \<^emph>\<open>returns the list of the calls it
  makes\<close> (type \<open>action\<close>), and what the library answers (error codes, received bytes) is an
  \<^emph>\<open>argument\<close> of the handler. Error codes are compared by the programs with \<^verbatim>\<open>ec.value() != 0\<close> and with
  \<^verbatim>\<open>ec == boost::asio::error::...\<close> (value and category), so both components are kept. The numeric
  values are the documented ones of the Linux build (\<open>ECANCELED\<close> is 125, \<open>misc_errors::eof\<close> is 2 and
  \<open>misc_errors::not_found\<close> is 3).
\<close>

datatype category =
  System_Category | Netdb_Category | Addrinfo_Category | Misc_Category | Ssl_Category
| Http_Errors_Category

record error_code =
  ec_value :: int
  ec_category :: category

definition no_error :: error_code where
  "no_error = \<lparr>ec_value = 0, ec_category = System_Category\<rparr>"

definition operation_aborted :: error_code where
  "operation_aborted = \<lparr>ec_value = 125, ec_category = System_Category\<rparr>"

definition asio_eof :: error_code where
  "asio_eof = \<lparr>ec_value = 2, ec_category = Misc_Category\<rparr>"

definition asio_not_found :: error_code where
  "asio_not_found = \<lparr>ec_value = 3, ec_category = Misc_Category\<rparr>"

definition is_error :: "error_code \<Rightarrow> bool" where
  "is_error ec \<longleftrightarrow> ec_value ec \<noteq> 0"

lemma is_error_simps [simp]:
  "\<not> is_error no_error" "is_error operation_aborted" "is_error asio_eof" "is_error asio_not_found"
  by (simp_all add: is_error_def no_error_def operation_aborted_def asio_eof_def asio_not_found_def)

lemma error_code_distinct [simp]:
  "no_error \<noteq> operation_aborted" "operation_aborted \<noteq> no_error"
  "no_error \<noteq> asio_eof" "asio_eof \<noteq> no_error"
  "no_error \<noteq> asio_not_found" "asio_not_found \<noteq> no_error"
  "asio_eof \<noteq> operation_aborted" "operation_aborted \<noteq> asio_eof"
  "asio_eof \<noteq> asio_not_found" "asio_not_found \<noteq> asio_eof"
  "asio_not_found \<noteq> operation_aborted" "operation_aborted \<noteq> asio_not_found"
  by (simp_all add: no_error_def operation_aborted_def asio_eof_def asio_not_found_def)

subsection \<open>Asynchronous operations, handler actions and faults\<close>

text \<open>
  \<open>Start k op\<close> is the initiation of an asynchronous operation \<open>op\<close> whose completion runs the handler
  \<open>k\<close> (the lambda passed to Asio). \<open>Raise\<close> is an exception that a member function throws to the thread that
  called it; \<open>Throw\<close> is an exception that leaves the handler, hence
  \<^verbatim>\<open>io_context::run\<close> and the thread function, which terminates the process; \<open>Hang\<close> is a handler that
  never returns; \<open>Undefined\<close> marks undefined behaviour. \<open>Callback\<close> is the call of the user's callback.
\<close>

datatype shutdown_type = shutdown_receive | shutdown_send | shutdown_both

datatype async_op =
  Async_Resolve string string
| Async_Connect
| Async_Accept
| Async_Read_Until bytes
| Async_Read
| Async_Read_Some nat
| Async_Write "bytes list"
| Async_Write_Some bytes

datatype fault =
  System_Error error_code | Filesystem_Error | Bad_Alloc | Out_Of_Range_Error | Assertion_Failure
| Bad_Function_Call | Runtime_Error | Std_System_Error error_code

datatype ('k, 'cb) action =
  Start 'k async_op
| Shutdown shutdown_type
| Cancel_Resolver
| Cancel_Socket
| Listen
| New_Service
| Close_Acceptor
| Log error_code
| Callback 'cb
| Delete_This
| Raise fault
| Throw fault
| Hang
| Undefined

text \<open>The handlers that wait after a list of actions, and how often the list ends the chain.\<close>

definition conts :: "('k, 'cb) action list \<Rightarrow> 'k list" where
  "conts as = concat (map (\<lambda>a. case a of Start k _ \<Rightarrow> [k] | _ \<Rightarrow> []) as)"

definition ends_chain :: "('k, 'cb) action \<Rightarrow> bool" where
  "ends_chain a = (case a of Callback _ \<Rightarrow> True | Delete_This \<Rightarrow> True | Close_Acceptor \<Rightarrow> True
                   | Throw _ \<Rightarrow> True | Hang \<Rightarrow> True | Undefined \<Rightarrow> True | _ \<Rightarrow> False)"

definition end_count :: "('k, 'cb) action list \<Rightarrow> nat" where
  "end_count as = length (filter ends_chain as)"

lemma conts_simps [simp]:
  "conts [] = []" "conts (Start k op # as) = k # conts as"
  "conts (Shutdown h # as) = conts as" "conts (Cancel_Resolver # as) = conts as"
  "conts (Cancel_Socket # as) = conts as" "conts (Listen # as) = conts as"
  "conts (New_Service # as) = conts as" "conts (Close_Acceptor # as) = conts as"
  "conts (Log ec # as) = conts as" "conts (Callback cb # as) = conts as"
  "conts (Delete_This # as) = conts as" "conts (Raise f # as) = conts as" "conts (Throw f # as) = conts as"
  "conts (Hang # as) = conts as" "conts (Undefined # as) = conts as"
  "conts (as @ bs) = conts as @ conts bs"
  by (simp_all add: conts_def)

lemma end_count_simps [simp]:
  "end_count [] = 0" "end_count (Start k op # as) = end_count as"
  "end_count (Shutdown h # as) = end_count as" "end_count (Cancel_Resolver # as) = end_count as"
  "end_count (Cancel_Socket # as) = end_count as" "end_count (Listen # as) = end_count as"
  "end_count (New_Service # as) = end_count as" "end_count (Close_Acceptor # as) = Suc (end_count as)"
  "end_count (Log ec # as) = end_count as" "end_count (Callback cb # as) = Suc (end_count as)"
  "end_count (Delete_This # as) = Suc (end_count as)" "end_count (Raise f # as) = end_count as"
  "end_count (Throw f # as) = Suc (end_count as)"
  "end_count (Hang # as) = Suc (end_count as)" "end_count (Undefined # as) = Suc (end_count as)"
  "end_count (as @ bs) = end_count as + end_count bs"
  by (simp_all add: end_count_def ends_chain_def)

text \<open>The bytes that a list of actions hands to composed write operations.\<close>

definition written :: "('k, 'cb) action list \<Rightarrow> bytes" where
  "written as = concat (map (\<lambda>a. case a of Start _ (Async_Write bs) \<Rightarrow> concat bs | _ \<Rightarrow> []) as)"

lemma written_simps [simp]:
  "written [] = []" "written (Start k (Async_Write bufs) # as) = concat bufs @ written as"
  "written (Start k (Async_Resolve host service) # as) = written as"
  "written (Start k Async_Connect # as) = written as"
  "written (Start k (Async_Read_Until d) # as) = written as"
  "written (Start k Async_Read # as) = written as"
  "written (Shutdown h # as) = written as" "written (Log ec # as) = written as"
  "written (Callback cb # as) = written as" "written (Delete_This # as) = written as"
  "written (Throw f # as) = written as" "written (as @ bs) = written as @ written bs"
  by (simp_all add: written_def)

lemma end_count_pos: "a \<in> set as \<Longrightarrow> ends_chain a \<Longrightarrow> 1 \<le> end_count as"
proof -
  assume "a \<in> set as" and "ends_chain a"
  then have "a \<in> set (filter ends_chain as)" by simp
  then have "filter ends_chain as \<noteq> []" by (metis empty_iff empty_set)
  then show ?thesis by (simp add: end_count_def Suc_le_eq)
qed

lemma ends_chain_simps [simp]:
  "ends_chain (Callback cb)" "ends_chain Delete_This" "ends_chain Close_Acceptor"
  "ends_chain (Throw f)" "ends_chain Hang" "ends_chain Undefined"
  by (simp_all add: ends_chain_def)

text \<open>The calls of a user's callback in a list of actions.\<close>

definition is_callback :: "('k, 'cb) action \<Rightarrow> bool" where
  "is_callback a = (case a of Callback _ \<Rightarrow> True | _ \<Rightarrow> False)"

definition callback_count :: "('k, 'cb) action list \<Rightarrow> nat" where
  "callback_count as = length (filter is_callback as)"

lemma callback_count_simps [simp]:
  "callback_count [] = 0" "callback_count (Callback c # as) = Suc (callback_count as)"
  "callback_count (Start k op # as) = callback_count as" "callback_count (Log ec # as) = callback_count as"
  "callback_count (Shutdown h # as) = callback_count as" "callback_count (Throw f # as) = callback_count as"
  "callback_count (Hang # as) = callback_count as" "callback_count (Cancel_Socket # as) = callback_count as"
  "callback_count (Raise f # as) = callback_count as" "callback_count (as @ bs) = callback_count as + callback_count bs"
  by (simp_all add: callback_count_def is_callback_def)

lemma callback_count_le: "callback_count as \<le> end_count as"
proof (induction as)
  case (Cons a as)
  then show ?case
    by (cases a) (simp_all add: callback_count_def end_count_def is_callback_def ends_chain_def)
qed simp

lemma callback_if_ended:
  "end_count as = 1 \<Longrightarrow> list_all (\<lambda>a. ends_chain a \<longrightarrow> is_callback a) as \<Longrightarrow> callback_count as = 1"
proof -
  assume "end_count as = 1" and "list_all (\<lambda>a. ends_chain a \<longrightarrow> is_callback a) as"
  moreover from this(2) have "filter ends_chain as = filter (\<lambda>a. ends_chain a \<and> is_callback a) as"
    by (induction as) auto
  moreover have "filter is_callback as = filter (\<lambda>a. ends_chain a \<and> is_callback a) as"
    by (rule filter_cong) (auto simp: is_callback_def split: action.splits)
  ultimately show ?thesis by (simp add: end_count_def callback_count_def)
qed

end
