(* ===== verification/Async_Chain.thy ===== *)
theory Async_Chain
  imports Asio
begin

section \<open>Chains of completion handlers\<close>

text \<open>
  Every asynchronous class of the repository (the HTTP request, the HTTP service, the TCP session,
  the echo service, the acceptors) has the same shape: a handler runs when an operation completes, and it
  either starts one further operation with another member function as its handler, or ends the
  object's life (the user's callback, \<^verbatim>\<open>delete this\<close>, closing the acceptor). This theory models the
  part of \<^verbatim>\<open>io_context\<close> that the programs rely on, for any such class: the list of operations that
  wait, of which any one may complete next, with any result; the calls other threads make on the
  object in between are \<open>External\<close> events. The two locales state what a class must guarantee and
  prove, once, what follows.
\<close>

datatype ('res, 'ext) event = Completes nat 'res | External 'ext

type_synonym ('k, 'st, 'cb) chain_state = "'k list \<times> 'st \<times> ('k, 'cb) action list"

definition chain_step ::
  "('k \<Rightarrow> 'res \<Rightarrow> 'st \<Rightarrow> 'st \<times> ('k, 'cb) action list) \<Rightarrow>
   ('ext \<Rightarrow> 'st \<Rightarrow> 'st \<times> ('k, 'cb) action list) \<Rightarrow>
   ('res, 'ext) event \<Rightarrow> ('k, 'st, 'cb) chain_state \<Rightarrow> ('k, 'st, 'cb) chain_state" where
  "chain_step handler external ev c =
     (case c of (p, s, tr) \<Rightarrow>
       (case ev of
          Completes i r \<Rightarrow>
            if i < length p
            then (case handler (p ! i) r s of
                    (s', as) \<Rightarrow> (take i p @ drop (Suc i) p @ conts as, s', tr @ as))
            else (p, s, tr)
        | External e \<Rightarrow>
            (case external e s of (s', as) \<Rightarrow> (p @ conts as, s', tr @ as))))"

definition chain_run ::
  "('k \<Rightarrow> 'res \<Rightarrow> 'st \<Rightarrow> 'st \<times> ('k, 'cb) action list) \<Rightarrow>
   ('ext \<Rightarrow> 'st \<Rightarrow> 'st \<times> ('k, 'cb) action list) \<Rightarrow>
   ('res, 'ext) event list \<Rightarrow> ('k, 'st, 'cb) chain_state \<Rightarrow> ('k, 'st, 'cb) chain_state" where
  "chain_run handler external evs c = fold (chain_step handler external) evs c"

definition chain_begin :: "'st \<times> ('k, 'cb) action list \<Rightarrow> ('k, 'st, 'cb) chain_state" where
  "chain_begin x = (case x of (s, as) \<Rightarrow> (conts as, s, as))"

definition next_or_end :: "('k, 'cb) action list \<Rightarrow> bool" where
  "next_or_end as \<longleftrightarrow> length (conts as) + end_count as = 1"

definition quiet :: "('k, 'cb) action list \<Rightarrow> bool" where
  "quiet as \<longleftrightarrow> conts as = [] \<and> end_count as = 0"

lemma chain_run_simps [simp]:
  "chain_run h e [] c = c"
  "chain_run h e (ev # evs) c = chain_run h e evs (chain_step h e ev c)"
  by (simp_all add: chain_run_def)

lemma chain_run_append: "chain_run h e (xs @ ys) c = chain_run h e ys (chain_run h e xs c)"
  by (simp add: chain_run_def)

text \<open>The completions an event list holds, counting those of the first waiting operation.\<close>

definition completions :: "('res, 'ext) event list \<Rightarrow> nat" where
  "completions evs = length (filter (\<lambda>ev. case ev of Completes i _ \<Rightarrow> i = 0 | External _ \<Rightarrow> False) evs)"

lemma completions_simps [simp]:
  "completions [] = 0"
  "completions (Completes 0 r # evs) = Suc (completions evs)"
  "completions (Completes (Suc i) r # evs) = completions evs"
  "completions (External e # evs) = completions evs"
  by (simp_all add: completions_def)

lemma take_drop_middle: "i < length p \<Longrightarrow> length (take i p @ drop (Suc i) p) = length p - 1"
  by simp

text \<open>A class on which no other thread calls anything has no external events.\<close>

definition no_external :: "unit \<Rightarrow> 'st \<Rightarrow> 'st \<times> ('k, 'cb) action list" where
  "no_external e s = (s, [])"

lemma no_external_quiet [simp]: "quiet (snd (no_external e s))"
  by (simp add: no_external_def quiet_def)

subsection \<open>Exactly one waiting operation or one end\<close>

locale async_chain =
  fixes handler :: "'k \<Rightarrow> 'res \<Rightarrow> 'st \<Rightarrow> 'st \<times> ('k, 'cb) action list"
    and external :: "'ext \<Rightarrow> 'st \<Rightarrow> 'st \<times> ('k, 'cb) action list"
  assumes handler_next_or_end: "next_or_end (snd (handler k r s))"
    and external_quiet: "quiet (snd (external e s))"
begin

lemma step_count:
  assumes "chain_step handler external ev (p, s, tr) = (p', s', tr')"
    and "length p + end_count tr = 1"
  shows "length p' + end_count tr' = 1"
proof (cases ev)
  case (Completes i r)
  show ?thesis
  proof (cases "i < length p")
    case True
    obtain t as where h: "handler (p ! i) r s = (t, as)" by (cases "handler (p ! i) r s")
    with handler_next_or_end [of "p ! i" r s] have "length (conts as) + end_count as = 1"
      by (simp add: next_or_end_def)
    with True assms h Completes show ?thesis
      by (auto simp: chain_step_def)
  qed (use assms Completes in \<open>simp add: chain_step_def\<close>)
next
  case (External e)
  obtain t as where h: "external e s = (t, as)" by (cases "external e s")
  with external_quiet [of e s] have "quiet as" by simp
  with assms h External show ?thesis by (auto simp: chain_step_def quiet_def)
qed

lemma run_count:
  assumes "length p + end_count tr = 1"
    and "chain_run handler external evs (p, s, tr) = (p', s', tr')"
  shows "length p' + end_count tr' = 1"
  using assms
proof (induction evs arbitrary: p s tr)
  case Nil
  then show ?case by simp
next
  case (Cons ev evs)
  obtain p1 s1 tr1 where st: "chain_step handler external ev (p, s, tr) = (p1, s1, tr1)"
    by (cases "chain_step handler external ev (p, s, tr)")
  show ?case
    by (rule Cons.IH [OF step_count [OF st Cons.prems(1)]]) (use st Cons.prems(2) in simp)
qed

theorem exactly_one:
  assumes "next_or_end (snd x)"
    and "chain_run handler external evs (chain_begin x) = (p, s, tr)"
  shows "length p + end_count tr = 1"
proof -
  obtain s0 as0 where x: "x = (s0, as0)" by (cases x)
  from assms(1) have "length (conts as0) + end_count as0 = 1" by (simp add: x next_or_end_def)
  then show ?thesis
    by (rule run_count) (use assms(2) in \<open>simp add: x chain_begin_def\<close>)
qed

text \<open>
  A typing \<open>T\<close> of the object by the handler it waits for, and a property \<open>Q\<close> of all actions: it is enough that a
  handler that meets its type hands over the type of the handlers that it makes wait.
\<close>

theorem run_typed:
  assumes handler: "\<And>k r s. T k s \<Longrightarrow>
      (\<forall>k' \<in> set (conts (snd (handler k r s))). T k' (fst (handler k r s))) \<and> list_all Q (snd (handler k r s))"
    and external: "\<And>k e s. T k s \<Longrightarrow> T k (fst (external e s))" "\<And>e s. list_all Q (snd (external e s))"
    and "length p + end_count tr = 1" and "\<forall>k \<in> set p. T k s" and "list_all Q tr"
    and "chain_run handler external evs (p, s, tr) = (p', s', tr')"
  shows "(\<forall>k \<in> set p'. T k s') \<and> list_all Q tr'"
  using assms(4-7)
proof (induction evs arbitrary: p s tr)
  case Nil
  then show ?case by simp
next
  case (Cons ev evs)
  obtain p1 s1 tr1 where st: "chain_step handler external ev (p, s, tr) = (p1, s1, tr1)"
    by (cases "chain_step handler external ev (p, s, tr)")
  from st Cons.prems(1) have count: "length p1 + end_count tr1 = 1" by (rule step_count)
  have "(\<forall>k \<in> set p1. T k s1) \<and> list_all Q tr1"
  proof (cases ev)
    case (Completes i r)
    show ?thesis
    proof (cases "i < length p")
      case True
      with Cons.prems(1) obtain k where p: "p = [k]" and i: "i = 0" by (cases p) auto
      then show ?thesis
        using st Cons.prems(2,3) handler [of k s r] Completes
        by (cases "handler k r s") (auto simp: chain_step_def)
    qed (use st Cons.prems(2,3) Completes in \<open>auto simp: chain_step_def\<close>)
  next
    case (External e)
    then show ?thesis
      using st Cons.prems(2,3) external(1) [of _ s e] external(2) [of e s] external_quiet [of e s]
      by (cases "external e s") (auto simp: chain_step_def quiet_def)
  qed
  then show ?case
    by (intro Cons.IH [OF count]) (use Cons.prems(4) st in simp_all)
qed

text \<open>An invariant \<open>I\<close> of the object while an operation waits is a type that does not depend on the handler.\<close>

theorem run_invariant:
  assumes handler: "\<And>k r s. I s \<Longrightarrow> (conts (snd (handler k r s)) \<noteq> [] \<longrightarrow> I (fst (handler k r s)))
        \<and> list_all Q (snd (handler k r s))"
    and external: "\<And>e s. (I s \<longrightarrow> I (fst (external e s))) \<and> list_all Q (snd (external e s))"
    and "length p + end_count tr = 1" and "p \<noteq> [] \<longrightarrow> I s" and "list_all Q tr"
    and "chain_run handler external evs (p, s, tr) = (p', s', tr')"
  shows "(p' \<noteq> [] \<longrightarrow> I s') \<and> list_all Q tr'"
proof -
  have typed: "(\<forall>k' \<in> set (conts (snd (handler k r s))). I (fst (handler k r s))) \<and> list_all Q (snd (handler k r s))"
    if "I s" for k r s
    using handler [OF that, of k r] by (cases "conts (snd (handler k r s))") auto
  have start: "\<forall>k \<in> set p. I s" using assms(4) by (cases p) auto
  have "(\<forall>k \<in> set p'. I s') \<and> list_all Q tr'"
    by (rule run_typed [where T = "\<lambda>k. I", OF _ _ _ assms(3) start assms(5,6)]) (use typed external in blast)+
  then show ?thesis by (cases p') auto
qed

corollary ended_not_waiting:
  assumes "next_or_end (snd x)"
    and "chain_run handler external evs (chain_begin x) = (p, s, tr)"
    and "a \<in> set tr" and "ends_chain a"
  shows "p = []" and "end_count tr = 1"
proof -
  have "length p + end_count tr = 1" and "1 \<le> end_count tr"
    using exactly_one [OF assms(1,2)] end_count_pos [OF assms(3,4)] by simp_all
  then have "length p = 0 \<and> end_count tr = 1" by linarith
  then show "p = []" and "end_count tr = 1" by simp_all
qed

end

subsection \<open>Chains of bounded length\<close>

text \<open>
  When the handlers of a class can be ranked so that each one only starts operations with a handler of
  higher rank, a chain ends after at most \<open>bound\<close> completions.
\<close>

locale ranked_chain = async_chain handler external
  for handler :: "'k \<Rightarrow> 'res \<Rightarrow> 'st \<Rightarrow> 'st \<times> ('k, 'cb) action list"
    and external :: "'ext \<Rightarrow> 'st \<Rightarrow> 'st \<times> ('k, 'cb) action list" +
  fixes rank :: "'k \<Rightarrow> nat" and bound :: nat
  assumes rank_increases: "k' \<in> set (conts (snd (handler k r s))) \<Longrightarrow> rank k < rank k'"
    and rank_bound: "rank k < bound"
begin

lemma step_rank:
  assumes "chain_step handler external ev (p, s, tr) = (p', s', tr')"
    and "length p \<le> 1" and "\<forall>k \<in> set p. n \<le> rank k"
  shows "length p' \<le> 1"
    and "\<forall>k \<in> set p'. n + (case ev of Completes i _ \<Rightarrow> (if i = 0 then 1 else 0) | External _ \<Rightarrow> 0) \<le> rank k"
proof -
  have "length p' \<le> 1 \<and>
    (\<forall>k \<in> set p'. n + (case ev of Completes i _ \<Rightarrow> (if i = 0 then 1 else 0) | External _ \<Rightarrow> 0) \<le> rank k)"
  proof (cases ev)
    case (Completes i r)
    show ?thesis
    proof (cases "i < length p")
      case True
      with assms(2) obtain k where p: "p = [k]" and i: "i = 0"
        by (cases p) auto
      obtain t as where h: "handler k r s = (t, as)" by (cases "handler k r s")
      with handler_next_or_end [of k r s] rank_increases [of _ k r s] p i assms(1,3) Completes
      show ?thesis by (fastforce simp: chain_step_def next_or_end_def)
    next
      case False
      with assms(1,2) Completes have "p' = p" by (simp add: chain_step_def)
      with False assms(2,3) Completes show ?thesis by auto
    qed
  next
    case (External e)
    obtain t as where h: "external e s = (t, as)" by (cases "external e s")
    with external_quiet [of e s] assms External show ?thesis
      by (auto simp: chain_step_def quiet_def)
  qed
  then show "length p' \<le> 1"
    and "\<forall>k \<in> set p'. n + (case ev of Completes i _ \<Rightarrow> (if i = 0 then 1 else 0) | External _ \<Rightarrow> 0) \<le> rank k"
    by simp_all
qed

lemma run_rank:
  assumes "length p \<le> 1" and "\<forall>k \<in> set p. n \<le> rank k"
    and "chain_run handler external evs (p, s, tr) = (p', s', tr')"
  shows "\<forall>k \<in> set p'. n + completions evs \<le> rank k"
  using assms
proof (induction evs arbitrary: p s tr n)
  case Nil
  then show ?case by simp
next
  case (Cons ev evs)
  obtain p1 s1 tr1 where st: "chain_step handler external ev (p, s, tr) = (p1, s1, tr1)"
    by (cases "chain_step handler external ev (p, s, tr)")
  let ?m = "case ev of Completes i _ \<Rightarrow> (if i = 0 then 1 else 0) | External _ \<Rightarrow> (0::nat)"
  have c: "completions (ev # evs) = ?m + completions evs"
    by (simp add: completions_def split: event.splits)
  have "\<forall>k \<in> set p'. (n + ?m) + completions evs \<le> rank k"
    by (rule Cons.IH [OF step_rank [OF st Cons.prems(1,2)]]) (use st Cons.prems(3) in simp)
  then show ?case unfolding c by (simp add: add.assoc)
qed

theorem ends_within_bound:
  assumes "next_or_end (snd x)"
    and "chain_run handler external evs (chain_begin x) = (p, s, tr)"
    and "bound \<le> completions evs"
  shows "p = []" and "end_count tr = 1"
proof -
  obtain s0 as0 where x: "x = (s0, as0)" by (cases x)
  from assms(1) have "length (conts as0) \<le> 1" by (simp add: x next_or_end_def)
  then have "\<forall>k \<in> set p. 0 + completions evs \<le> rank k"
    by (rule run_rank) (use assms(2) in \<open>simp_all add: x chain_begin_def\<close>)
  with assms(3) rank_bound have "\<forall>k \<in> set p. False"
    by (metis add_0 leD le_trans)
  then show "p = []" by (cases p) auto
  with exactly_one [OF assms(1,2)] show "end_count tr = 1" by simp
qed

text \<open>The operations of a chain are started in the order of the ranks, each handler at most once.\<close>

lemma run_ordered:
  assumes "length p \<le> 1" and "sorted_wrt (\<lambda>j k. rank j < rank k) (conts tr)"
    and "\<forall>k \<in> set p. \<forall>j \<in> set (conts tr). rank j \<le> rank k"
    and "chain_run handler external evs (p, s, tr) = (p', s', tr')"
  shows "sorted_wrt (\<lambda>j k. rank j < rank k) (conts tr')"
  using assms
proof (induction evs arbitrary: p s tr)
  case Nil
  then show ?case by simp
next
  case (Cons ev evs)
  obtain p1 s1 tr1 where st: "chain_step handler external ev (p, s, tr) = (p1, s1, tr1)"
    by (cases "chain_step handler external ev (p, s, tr)")
  have "length p1 \<le> 1 \<and> sorted_wrt (\<lambda>j k. rank j < rank k) (conts tr1) \<and>
      (\<forall>k \<in> set p1. \<forall>j \<in> set (conts tr1). rank j \<le> rank k)"
  proof (cases ev)
    case (Completes i r)
    show ?thesis
    proof (cases "i < length p")
      case True
      with Cons.prems(1) obtain k where p: "p = [k]" and i: "i = 0" by (cases p) auto
      obtain t as where h: "handler k r s = (t, as)" by (cases "handler k r s")
      have later: "\<forall>j \<in> set (conts tr). rank j \<le> rank k" using Cons.prems(3) p by simp
      have one: "length (conts as) \<le> 1" using handler_next_or_end [of k r s] h by (simp add: next_or_end_def)
      have next_rank: "\<forall>k' \<in> set (conts as). rank k < rank k'" using rank_increases [of _ k r s] h by simp
      have "p1 = conts as" "tr1 = tr @ as" using st h p i Completes by (simp_all add: chain_step_def)
      with later one next_rank Cons.prems(2) show ?thesis
        by (cases "conts as") (fastforce simp: sorted_wrt_append)+
    qed (use st Cons.prems Completes in \<open>auto simp: chain_step_def\<close>)
  next
    case (External e)
    then show ?thesis
      using st Cons.prems external_quiet [of e s]
      by (cases "external e s") (auto simp: chain_step_def quiet_def)
  qed
  with Cons.IH [of p1 tr1 s1] Cons.prems(4) st show ?case by simp
qed

theorem starts_in_order:
  assumes "next_or_end (snd x)"
    and "chain_run handler external evs (chain_begin x) = (p, s, tr)"
  shows "sorted_wrt (\<lambda>j k. rank j < rank k) (conts tr)"
proof -
  obtain s0 as0 where x: "x = (s0, as0)" by (cases x)
  from assms(1) have "length (conts as0) \<le> 1" by (simp add: x next_or_end_def)
  then show ?thesis
    by (intro run_ordered [of "conts as0" as0 evs s0 p s tr])
       (use assms(2) in \<open>cases "conts as0"; auto simp: x chain_begin_def\<close>)+
qed

end

end
