(* ===== verification/Cpp_Stream.thy ===== *)
theory Cpp_Stream
  imports Prelude
begin

section \<open>Input streams and number parsing of the C++ standard library\<close>

text \<open>
  What the programs use of \<^verbatim>\<open>std::istream\<close> over a \<^verbatim>\<open>boost::asio::streambuf\<close> or a string:
  \<^verbatim>\<open>std::getline\<close> with a delimiter, \<^verbatim>\<open>get()\<close>, extraction of a word with \<^verbatim>\<open>operator>>\<close>, the
  flags \<open>eofbit\<close> and \<open>failbit\<close> and \<^verbatim>\<open>std::stoul\<close>. A stream is its unread bytes and its flags.
  Each operation starts with the sentry of the standard: when a flag is set it only sets
  \<open>failbit\<close>, extracts nothing and \<^emph>\<open>leaves the target string as it was\<close>; this last point decides
  whether the header loops of the HTTP programs stop.
\<close>

record istream =
  rdbuf :: bytes
  eofbit :: bool
  failbit :: bool

definition open_istream :: "bytes \<Rightarrow> istream" where
  "open_istream b = \<lparr>rdbuf = b, eofbit = False, failbit = False\<rparr>"

definition good :: "istream \<Rightarrow> bool" where
  "good st \<longleftrightarrow> \<not> eofbit st \<and> \<not> failbit st"

text \<open>\<^verbatim>\<open>std::getline(st, str, d)\<close>: the new value of \<open>str\<close> and the stream after it.\<close>

definition getline :: "char \<Rightarrow> istream \<Rightarrow> string \<Rightarrow> string \<times> istream" where
  "getline d st str =
     (if \<not> good st then (str, st\<lparr>failbit := True\<rparr>)
      else let taken = takeWhile (\<lambda>c. c \<noteq> d) (rdbuf st);
               rest = dropWhile (\<lambda>c. c \<noteq> d) (rdbuf st)
           in case rest of
                [] \<Rightarrow> (taken, st\<lparr>rdbuf := [], eofbit := True, failbit := (taken = [])\<rparr>)
              | _ # r \<Rightarrow> (taken, st\<lparr>rdbuf := r\<rparr>))"

text \<open>\<^verbatim>\<open>st.get()\<close>, its result discarded.\<close>

definition get_char :: "istream \<Rightarrow> istream" where
  "get_char st =
     (if \<not> good st then st\<lparr>failbit := True\<rparr>
      else case rdbuf st of
             [] \<Rightarrow> st\<lparr>eofbit := True, failbit := True\<rparr>
           | _ # r \<Rightarrow> st\<lparr>rdbuf := r\<rparr>)"

definition is_space :: "char \<Rightarrow> bool" where
  "is_space c \<longleftrightarrow> c \<in> {CHR '' '', CHR 0x09, CHR 0x0A, CHR 0x0B, CHR 0x0C, CHR 0x0D}"

text \<open>\<^verbatim>\<open>st >> str\<close>.\<close>

definition extract_word :: "istream \<Rightarrow> string \<Rightarrow> string \<times> istream" where
  "extract_word st str =
     (if \<not> good st then (str, st\<lparr>failbit := True\<rparr>)
      else let b = dropWhile is_space (rdbuf st)
           in if b = [] then (str, st\<lparr>rdbuf := [], eofbit := True, failbit := True\<rparr>)
              else let rest = dropWhile (\<lambda>c. \<not> is_space c) b
                   in (takeWhile (\<lambda>c. \<not> is_space c) b,
                       st\<lparr>rdbuf := rest, eofbit := (rest = [])\<rparr>))"

text \<open>\<^verbatim>\<open>std::stoul(str)\<close> (base 10, 64-bit \<^verbatim>\<open>unsigned long\<close>): leading blanks, an optional sign, then
  digits; a minus sign negates modulo \<open>2 ^ 64\<close>. The two exceptions are both \<^verbatim>\<open>std::logic_error\<close>.\<close>

datatype stoul_error = Invalid_Argument | Out_Of_Range

definition stoul :: "string \<Rightarrow> stoul_error + 64 word" where
  "stoul str =
     (let s = dropWhile is_space str;
          neg = (s \<noteq> [] \<and> hd s = CHR ''-'');
          s' = (if s \<noteq> [] \<and> (hd s = CHR ''-'' \<or> hd s = CHR ''+'') then tl s else s);
          ds = takeWhile is_digit s'
      in if ds = [] then Inl Invalid_Argument
         else if 2 ^ 64 \<le> dec_value ds then Inl Out_Of_Range
         else Inr (if neg then - word_of_nat (dec_value ds) else word_of_nat (dec_value ds)))"

subsection \<open>One step on a buffer of known shape\<close>

lemma open_istream_sel [simp]:
  "rdbuf (open_istream b) = b" "eofbit (open_istream b) = False" "failbit (open_istream b) = False"
  "good (open_istream b)"
  by (simp_all add: open_istream_def good_def)

lemma good_update [simp]: "good (st\<lparr>rdbuf := b\<rparr>) = good st"
  by (simp add: good_def)

lemma open_istream_update [simp]: "(open_istream b)\<lparr>rdbuf := c\<rparr> = open_istream c"
  by (simp add: open_istream_def)

lemma not_good_if_eof [simp]: "eofbit st \<Longrightarrow> \<not> good st"
  by (simp add: good_def)

lemma good_not_eof: "good st \<Longrightarrow> \<not> eofbit st"
  by (simp add: good_def)

lemma getline_delim [stream_simps]:
  "good st \<Longrightarrow> rdbuf st = l @ d # r \<Longrightarrow> d \<notin> set l \<Longrightarrow> getline d st str = (l, st\<lparr>rdbuf := r\<rparr>)"
  by (simp add: getline_def takeWhile_neq_delim dropWhile_neq_delim)

lemma getline_eof [stream_simps]:
  "good st \<Longrightarrow> d \<notin> set (rdbuf st) \<Longrightarrow>
   getline d st str = (rdbuf st, st\<lparr>rdbuf := [], eofbit := True, failbit := (rdbuf st = [])\<rparr>)"
  by (simp add: getline_def takeWhile_neq_all dropWhile_neq_all Let_def)

lemma getline_open_eof:
  "d \<notin> set b \<Longrightarrow>
   getline d (open_istream b) str = (b, \<lparr>rdbuf = [], eofbit = True, failbit = (b = [])\<rparr>)"
  by (simp add: getline_def takeWhile_neq_all dropWhile_neq_all Let_def open_istream_def good_def)

lemma getline_not_good [stream_simps]:
  "\<not> good st \<Longrightarrow> getline d st str = (str, st\<lparr>failbit := True\<rparr>)"
  by (simp add: getline_def)

lemma get_char_Cons [stream_simps]:
  "good st \<Longrightarrow> rdbuf st = c # r \<Longrightarrow> get_char st = st\<lparr>rdbuf := r\<rparr>"
  by (simp add: get_char_def)

lemma get_char_Nil [stream_simps]:
  "good st \<Longrightarrow> rdbuf st = [] \<Longrightarrow> get_char st = st\<lparr>eofbit := True, failbit := True\<rparr>"
  by (simp add: get_char_def)

lemma get_char_not_good [stream_simps]: "\<not> good st \<Longrightarrow> get_char st = st\<lparr>failbit := True\<rparr>"
  by (simp add: get_char_def)

lemma extract_word_space [stream_simps]:
  assumes "good st" and "rdbuf st = sp @ w @ c # r"
    and "\<forall>x \<in> set sp. is_space x" and "w \<noteq> []" and "\<forall>x \<in> set w. \<not> is_space x" and "is_space c"
  shows "extract_word st str = (w, st\<lparr>rdbuf := c # r\<rparr>)"
proof -
  from assms(4,5) have "dropWhile is_space (w @ c # r) = w @ c # r"
    by (cases w) auto
  with assms have "dropWhile is_space (rdbuf st) = w @ c # r"
    by (simp add: dropWhile_all_append)
  with assms show ?thesis
    by (simp add: extract_word_def takeWhile_all_append dropWhile_all_append good_def Let_def)
qed

lemma extract_word_end [stream_simps]:
  assumes "good st" and "rdbuf st = sp @ w"
    and "\<forall>x \<in> set sp. is_space x" and "w \<noteq> []" and "\<forall>x \<in> set w. \<not> is_space x"
  shows "extract_word st str = (w, st\<lparr>rdbuf := [], eofbit := True\<rparr>)"
proof -
  from assms(4,5) have "dropWhile is_space w = w"
    by (cases w) auto
  with assms have "dropWhile is_space (rdbuf st) = w"
    by (simp add: dropWhile_all_append)
  moreover from assms(5) have "takeWhile (\<lambda>c. \<not> is_space c) w = w" "dropWhile (\<lambda>c. \<not> is_space c) w = []"
    by (auto simp: takeWhile_eq_all_conv dropWhile_eq_Nil_conv)
  ultimately show ?thesis
    using assms by (simp add: extract_word_def Let_def)
qed

subsection \<open>Progress and flags\<close>

text \<open>A line read either finds its delimiter, and the buffer shrinks, or reaches the end.\<close>

lemma getline_progress:
  assumes "good st" and "getline d st str = (l, st')"
  shows "eofbit st' \<or> good st' \<and> length (rdbuf st') < length (rdbuf st)"
  using assms
  by (auto simp: getline_def Let_def good_def split: list.splits dest!: dropWhile_neq_ConsD)

lemma get_char_shrinks: "length (rdbuf (get_char st)) \<le> length (rdbuf st)"
  by (auto simp: get_char_def split: list.splits)

lemma get_char_flags: "good st \<Longrightarrow> good (get_char st) \<or> eofbit (get_char st)"
  by (auto simp: get_char_def good_def split: list.splits)

lemma get_char_keeps_eof: "eofbit st \<Longrightarrow> eofbit (get_char st)"
  by (auto simp: get_char_def)

lemma getline_shrinks: "getline d st str = (l, st') \<Longrightarrow> length (rdbuf st') \<le> length (rdbuf st)"
  by (auto simp: getline_def Let_def split: if_splits list.splits dest!: dropWhile_neq_ConsD)

subsection \<open>Numbers\<close>

lemma is_digit_not_space: "is_digit c \<Longrightarrow> \<not> is_space c"
  by (auto simp: is_digit_def is_space_def)

text \<open>Reading back what \<^verbatim>\<open>std::to_string\<close> wrote.\<close>

lemma stoul_to_dec:
  assumes "n < 2 ^ 64"
  shows "stoul (to_dec n) = Inr (word_of_nat n)"
proof -
  obtain c cs where tl: "to_dec n = c # cs" by (cases "to_dec n") auto
  with to_dec_digits [of n] have c: "is_digit c" by simp
  have dw: "dropWhile is_space (to_dec n) = to_dec n"
    using c by (simp add: tl is_digit_not_space)
  have tw: "takeWhile is_digit (to_dec n) = to_dec n"
    using to_dec_digits by (simp add: takeWhile_eq_all_conv)
  from c have sgn: "hd (to_dec n) \<noteq> CHR ''-''" "hd (to_dec n) \<noteq> CHR ''+''"
    using digit_not_sep by (auto simp: tl)
  show ?thesis
    using assms by (simp add: stoul_def Let_def dw tw sgn)
qed

subsection \<open>The interface of a delimited reader\<close>

text \<open>
  The programs read their protocols with combinations of the operations above: a line up to CR
  with the following character skipped (HTTP), a name up to a colon, a line up to LF. Each of them
  is a reader of items that end with a terminator, and what the callers rely on is one law.
\<close>

locale delimited_reader =
  fixes read :: "istream \<Rightarrow> string \<Rightarrow> string \<times> istream"
    and term_str :: string
    and clean :: "string \<Rightarrow> bool"
  assumes read_item:
    "good st \<Longrightarrow> clean l \<Longrightarrow> rdbuf st = l @ term_str @ r \<Longrightarrow> read st old = (l, st\<lparr>rdbuf := r\<rparr>)"
begin

lemma read_open: "clean l \<Longrightarrow> read (open_istream (l @ term_str @ r)) old = (l, open_istream r)"
  by (simp add: read_item)

lemma read_two:
  assumes "clean l" and "clean m"
  shows "read (snd (read (open_istream (l @ term_str @ m @ term_str @ r)) old)) old'
           = (m, open_istream r)"
  using assms by (simp add: read_open)

end

text \<open>\<^verbatim>\<open>std::getline(st, str, '\r'); st.get();\<close>, the line reader of both HTTP programs.\<close>

definition read_crlf_line :: "istream \<Rightarrow> string \<Rightarrow> string \<times> istream" where
  "read_crlf_line st str = (let (l, st') = getline CR st str in (l, get_char st'))"

interpretation crlf: delimited_reader read_crlf_line CRLF "\<lambda>l. CR \<notin> set l"
  by unfold_locales (simp add: read_crlf_line_def stream_simps)

interpretation lf: delimited_reader "getline LF" "[LF]" "\<lambda>l. LF \<notin> set l"
  by unfold_locales (simp add: stream_simps)

interpretation colon: delimited_reader "getline CHR '':''" "'':''" "\<lambda>l. CHR '':'' \<notin> set l"
  by unfold_locales (simp add: stream_simps)

end
