(* ===== verification/Http_Message.thy ===== *)
theory Http_Message
  imports Cpp_Stream
begin

section \<open>HTTP messages as both programs read and write them\<close>

text \<open>
  Well-formed lines of the protocol (words separated by one blank, header fields, blocks of header
  fields) and what the stream operations of \<^verbatim>\<open>Cpp_Stream\<close> do on them; shared by the server and the
  client of chapter 5.
\<close>

subsection \<open>Words and the request line\<close>

lemma not_space_chars [simp]:
  "\<not> is_space CHR ''G''" "\<not> is_space CHR ''E''" "\<not> is_space CHR ''T''" "\<not> is_space CHR ''H''"
  "\<not> is_space CHR ''P''" "\<not> is_space CHR ''/''" "\<not> is_space CHR ''1''" "\<not> is_space CHR ''.''"
  "\<not> is_space CHR ''O''" "\<not> is_space CHR ''K''" "\<not> is_space CHR ''2''" "\<not> is_space CHR ''0''"
  "is_space CHR '' ''" "is_space CR" "is_space LF"
  by (simp_all add: is_space_def)

lemma no_space_no_CR: "\<forall>c \<in> set w. \<not> is_space c \<Longrightarrow> CR \<notin> set w"
  by (auto simp: is_space_def)

lemma read_line_simp:
  assumes "CR \<notin> set l"
  shows "getline CR (open_istream (l @ CRLF @ r)) str = (l, open_istream (LF # r))"
  using assms by (simp add: stream_simps)

lemma get_char_open [simp]: "get_char (open_istream (c # r)) = open_istream r"
  by (simp add: stream_simps)

lemma first_word:
  "w \<noteq> [] \<Longrightarrow> \<forall>c \<in> set w. \<not> is_space c \<Longrightarrow> is_space c \<Longrightarrow>
   extract_word (open_istream (w @ c # r)) str = (w, open_istream (c # r))"
  using extract_word_space [of "open_istream (w @ c # r)" "[]" w c r] by simp

lemma next_word:
  "w \<noteq> [] \<Longrightarrow> \<forall>c \<in> set w. \<not> is_space c \<Longrightarrow> is_space c \<Longrightarrow> is_space sp \<Longrightarrow>
   extract_word (open_istream (sp # w @ c # r)) str = (w, open_istream (c # r))"
  using extract_word_space [of "open_istream (sp # w @ c # r)" "[sp]" w c r] by simp

lemma last_word:
  "w \<noteq> [] \<Longrightarrow> \<forall>c \<in> set w. \<not> is_space c \<Longrightarrow> is_space sp \<Longrightarrow>
   extract_word (open_istream (sp # w)) str = (w, (open_istream [])\<lparr>eofbit := True\<rparr>)"
  using extract_word_end [of "open_istream (sp # w)" "[sp]" w] by simp

text \<open>A request line of three words.\<close>

definition request_line :: "string \<Rightarrow> string \<Rightarrow> string \<Rightarrow> bytes" where
  "request_line method uri version = method @ '' '' @ uri @ '' '' @ version"

definition is_word :: "string \<Rightarrow> bool" where
  "is_word w \<longleftrightarrow> w \<noteq> [] \<and> (\<forall>c \<in> set w. \<not> is_space c)"

lemma is_word_GET [simp]: "is_word ''GET''" and is_word_HTTP [simp]: "is_word ''HTTP/1.1''"
  by (simp_all add: is_word_def)

subsection \<open>Header fields\<close>

text \<open>A well-formed header line, and a block of them.\<close>

definition header_line :: "string \<times> string \<Rightarrow> bytes" where
  "header_line nv = fst nv @ '':'' @ snd nv @ CRLF"

definition header_block :: "(string \<times> string) list \<Rightarrow> bytes" where
  "header_block hs = concat (map header_line hs)"

lemma header_block_simps [simp]:
  "header_block [] = []" "header_block (nv # hs) = header_line nv @ header_block hs"
  by (simp_all add: header_block_def)

definition clean_request_header :: "string \<times> string \<Rightarrow> bool" where
  "clean_request_header nv \<longleftrightarrow> CHR '':'' \<notin> set (fst nv) \<and> CR \<notin> set (snd nv)"


end
