(* ===== verification/Http_Service.thy ===== *)
theory Http_Service
  imports Async_Chain Http_Message
begin

section \<open>HTTP server: the service of one connection\<close>

text \<open>
  \<^verbatim>\<open>chapter5/HTTPServer/service.h\<close>, \<^verbatim>\<open>service.cpp\<close> and the status table of \<^verbatim>\<open>main.cpp\<close>. The record holds the
  data members; the socket is the environment. One definition per member function, composed as the
  code composes them. An argument of type \<open>service_env\<close> holds what the surroundings answer during one
  handler: the result of the one \<^verbatim>\<open>shutdown\<close> call a handler makes (the throwing overload), the file
  system and the allocator.
\<close>

datatype service_handler = On_Request_Line_Received | On_Headers_Received | On_Response_Sent

record service =
  m_request :: bytes
  m_request_headers :: "string \<rightharpoonup> string"
  m_requested_resource :: string
  m_resource_buffer :: "bytes option"
  m_response_status_code :: u32
  m_resource_size_bytes :: size_t
  m_response_headers :: string
  m_response_status_line :: string

type_synonym service_action = "(service_handler, unit) action"

text \<open>
  A path of the file system: \<^verbatim>\<open>exists\<close> throws, or says no, or the stream does not open, or it
  opens; then \<^verbatim>\<open>tellg\<close> after seeking to the end gives a number (\<open>-1\<close> on failure), and reading from the
  start delivers bytes.
\<close>

datatype fs_entry = Fs_Error | Fs_Absent | Fs_Unopenable | Fs_Opened int bytes

record service_env =
  env_shutdown :: error_code
  env_fs :: "string \<Rightarrow> fs_entry"
  env_alloc :: "size_t \<Rightarrow> bool"

definition http_status_table :: "u32 \<rightharpoonup> string" where
  "http_status_table = map_of
     [(200, ''200 OK''),
      (404, ''404 Not Found''),
      (413, ''413 Request Entity Too Large''),
      (500, ''500 Server Error''),
      (501, ''501 Not Implemented''),
      (505, ''505 HTTP Version Not Supported'')]"

definition new_service :: service where
  "new_service = \<lparr>m_request = [], m_request_headers = Map.empty, m_requested_resource = [],
     m_resource_buffer = None, m_response_status_code = 200, m_resource_size_bytes = 0,
     m_response_headers = [], m_response_status_line = []\<rparr>"

definition max_request_size :: nat where
  "max_request_size = 4096"

definition start_handling :: "service \<Rightarrow> service \<times> service_action list" where
  "start_handling s = (s, [Start On_Request_Line_Received (Async_Read_Until CRLF)])"

definition on_finish :: "service \<Rightarrow> service \<times> service_action list" where
  "on_finish s = (s, [Delete_This])"

text \<open>
  \<^verbatim>\<open>send_response\<close>. The third buffer is \<^verbatim>\<open>asio::buffer(m_resource_buffer.get(), m_resource_size_bytes)\<close>;
  a null pointer or an array shorter than the size would be undefined behaviour.
\<close>

definition resource_view :: "service \<Rightarrow> bytes option" where
  "resource_view s =
     (case m_resource_buffer s of
        None \<Rightarrow> None
      | Some b \<Rightarrow> if length b < unat (m_resource_size_bytes s) then None
                  else Some (take (unat (m_resource_size_bytes s)) b))"

definition send_response :: "service_env \<Rightarrow> service \<Rightarrow> service \<times> service_action list" where
  "send_response env s =
     (if is_error (env_shutdown env)
      then (s, [Shutdown shutdown_receive, Throw (System_Error (env_shutdown env))])
      else case http_status_table (m_response_status_code s) of
             None \<Rightarrow> (s, [Shutdown shutdown_receive, Throw Out_Of_Range_Error])
           | Some status_line \<Rightarrow>
               let s1 = s\<lparr>m_response_status_line := ''HTTP/1.1 '' @ status_line @ CRLF,
                          m_response_headers := m_response_headers s @ CRLF\<rparr>;
                   bufs = [m_response_status_line s1] @
                     (if length (m_response_headers s1) > 0 then [m_response_headers s1] else [])
               in if m_resource_size_bytes s1 > 0
                  then case resource_view s1 of
                         None \<Rightarrow> (s1, [Shutdown shutdown_receive, Undefined])
                       | Some b \<Rightarrow> (s1, [Shutdown shutdown_receive,
                                         Start On_Response_Sent (Async_Write (bufs @ [b]))])
                  else (s1, [Shutdown shutdown_receive, Start On_Response_Sent (Async_Write bufs)]))"

text \<open>
  \<^verbatim>\<open>process_request\<close>: a fault, if any, is the exception that leaves it. The array of
  \<^verbatim>\<open>make_unique<char[]>\<close> is zero-filled and \<^verbatim>\<open>read\<close> overwrites as many bytes as the file delivers.
\<close>

definition process_request :: "service_env \<Rightarrow> service \<Rightarrow> service \<times> fault option" where
  "process_request env s =
     (let resource_file_path = ''http_root'' @ m_requested_resource s
      in case env_fs env resource_file_path of
           Fs_Error \<Rightarrow> (s, Some Filesystem_Error)
         | Fs_Absent \<Rightarrow> (s\<lparr>m_response_status_code := 404\<rparr>, None)
         | Fs_Unopenable \<Rightarrow> (s\<lparr>m_response_status_code := 500\<rparr>, None)
         | Fs_Opened tellg content \<Rightarrow>
             let s1 = s\<lparr>m_resource_size_bytes := word_of_int tellg\<rparr>;
                 n = m_resource_size_bytes s1
             in if \<not> env_alloc env n then (s1, Some Bad_Alloc)
                else let got = take (unat n) content
                     in (s1\<lparr>m_resource_buffer := Some (got @ replicate (unat n - length got) (CHR 0x00)),
                            m_response_headers := m_response_headers s1 @
                              ''content-length'' @ '': '' @ to_string_size n @ CRLF\<rparr>, None))"

definition on_request_line_received ::
  "service_env \<Rightarrow> error_code \<Rightarrow> service \<Rightarrow> service \<times> service_action list" where
  "on_request_line_received env ec s =
     (if is_error ec
      then if ec = asio_not_found
           then (case send_response env (s\<lparr>m_response_status_code := 413\<rparr>) of
                   (s1, as) \<Rightarrow> (s1, Log ec # as))
           else (case on_finish s of (s1, as) \<Rightarrow> (s1, Log ec # as))
      else
        let (request_line, request_stream) = getline CR (open_istream (m_request s)) [];
            s1 = s\<lparr>m_request := rdbuf (get_char request_stream)\<rparr>;
            (request_method, line1) = extract_word (open_istream request_line) []
        in if request_method \<noteq> ''GET''
           then send_response env (s1\<lparr>m_response_status_code := 501\<rparr>)
           else
             let (resource, line2) = extract_word line1 (m_requested_resource s1);
                 s2 = s1\<lparr>m_requested_resource := resource\<rparr>;
                 (request_http_version, line3) = extract_word line2 []
             in if request_http_version \<noteq> ''HTTP/1.1''
                then send_response env (s2\<lparr>m_response_status_code := 505\<rparr>)
                else (s2, [Start On_Headers_Received (Async_Read_Until (CRLF @ CRLF))]))"

text \<open>
  The loop \<^verbatim>\<open>while (!request_stream.eof())\<close> of \<^verbatim>\<open>on_headers_received\<close>, with the two strings that live
  outside it. \<open>None\<close> would be a loop that does not stop.
\<close>

partial_function (option) request_header_loop ::
  "istream \<Rightarrow> string \<Rightarrow> string \<Rightarrow> (string \<rightharpoonup> string) \<Rightarrow> (istream \<times> (string \<rightharpoonup> string)) option" where
  "request_header_loop st header_name header_value headers =
     (if eofbit st then Some (st, headers)
      else let (name1, st1) = getline CHR '':'' st header_name
           in if eofbit st1 then request_header_loop st1 name1 header_value headers
              else let (value1, st2) = getline CR st1 header_value;
                       st3 = get_char st2
                   in request_header_loop st3 name1 value1 (headers(name1 \<mapsto> value1)))"

definition on_headers_received ::
  "service_env \<Rightarrow> error_code \<Rightarrow> service \<Rightarrow> service \<times> service_action list" where
  "on_headers_received env ec s =
     (if is_error ec
      then if ec = asio_not_found
           then (case send_response env (s\<lparr>m_response_status_code := 413\<rparr>) of
                   (s1, as) \<Rightarrow> (s1, Log ec # as))
           else (case on_finish s of (s1, as) \<Rightarrow> (s1, Log ec # as))
      else case request_header_loop (open_istream (m_request s)) [] [] (m_request_headers s) of
             None \<Rightarrow> (s, [Hang])
           | Some (st, headers) \<Rightarrow>
               let s1 = s\<lparr>m_request := rdbuf st, m_request_headers := headers\<rparr>
               in case process_request env s1 of
                    (s2, Some f) \<Rightarrow> (s2, [Throw f])
                  | (s2, None) \<Rightarrow> send_response env s2)"

definition on_response_sent ::
  "service_env \<Rightarrow> error_code \<Rightarrow> service \<Rightarrow> service \<times> service_action list" where
  "on_response_sent env ec s =
     (let log = (if is_error ec then [Log ec] else [])
      in if is_error (env_shutdown env)
         then (s, log @ [Shutdown shutdown_both, Throw (System_Error (env_shutdown env))])
         else case on_finish s of (s1, as) \<Rightarrow> (s1, log @ [Shutdown shutdown_both] @ as))"

text \<open>
  One completion: \<^verbatim>\<open>async_read_until\<close> has appended the received bytes to \<^verbatim>\<open>m_request\<close> before the handler
  runs. The service has no caller beside its handlers.
\<close>

record service_result =
  res_ec :: error_code
  res_data :: bytes
  res_env :: service_env

definition service_step ::
  "service_handler \<Rightarrow> service_result \<Rightarrow> service \<Rightarrow> service \<times> service_action list" where
  "service_step k r s =
     (let s1 = s\<lparr>m_request := m_request s @ res_data r\<rparr>
      in case k of
           On_Request_Line_Received \<Rightarrow> on_request_line_received (res_env r) (res_ec r) s1
         | On_Headers_Received \<Rightarrow> on_headers_received (res_env r) (res_ec r) s1
         | On_Response_Sent \<Rightarrow> on_response_sent (res_env r) (res_ec r) s1)"

definition service_run ::
  "(service_result, unit) event list \<Rightarrow> (service_handler, service, unit) chain_state" where
  "service_run evs = chain_run service_step no_external evs (chain_begin (start_handling new_service))"

subsection \<open>The loop over the request headers\<close>

lemma request_header_loop_eof [simp]:
  "eofbit st \<Longrightarrow> request_header_loop st n v h = Some (st, h)"
  by (simp add: request_header_loop.simps)

text \<open>Every round either meets the end of the buffer or consumes at least the colon.\<close>

lemma request_header_loop_total:
  "good st \<or> eofbit st \<Longrightarrow> \<exists>st' h'. request_header_loop st n v h = Some (st', h') \<and> eofbit st'"
proof (induction "length (rdbuf st)" arbitrary: st n v h rule: less_induct)
  case less
  show ?case
  proof (cases "eofbit st")
    case True
    then show ?thesis by simp
  next
    case False
    with less.prems have good: "good st" by simp
    obtain n1 st1 where g1: "getline CHR '':'' st n = (n1, st1)"
      by (cases "getline CHR '':'' st n")
    obtain v1 st2 where g2: "getline CR st1 v = (v1, st2)"
      by (cases "getline CR st1 v")
    show ?thesis
    proof (cases "eofbit st1")
      case True
      then show ?thesis
        by (subst request_header_loop.simps) (simp add: False g1)
    next
      case not_eof: False
      from getline_progress [OF good g1] not_eof
      have st1: "good st1" "length (rdbuf st1) < length (rdbuf st)" by auto
      have "length (rdbuf (get_char st2)) < length (rdbuf st)"
        using st1(2) getline_shrinks [OF g2] get_char_shrinks [of st2] by linarith
      moreover have "good (get_char st2) \<or> eofbit (get_char st2)"
        using getline_progress [OF st1(1) g2] get_char_flags [of st2] get_char_keeps_eof [of st2]
        by auto
      ultimately have "\<exists>st' h'. request_header_loop (get_char st2) n1 v1 (h(n1 \<mapsto> v1)) = Some (st', h')
          \<and> eofbit st'"
        by (rule less.hyps)
      then show ?thesis
        by (subst request_header_loop.simps) (simp add: False not_eof g1 g2)
    qed
  qed
qed

lemma request_header_loop_line:
  assumes "clean_request_header nv"
  shows "request_header_loop (open_istream (header_line nv @ t)) n v h
           = request_header_loop (open_istream t) (fst nv) (snd nv) (h(fst nv \<mapsto> snd nv))"
proof -
  have name: "getline CHR '':'' (open_istream (header_line nv @ t)) n
      = (fst nv, open_istream (snd nv @ CRLF @ t))"
    using colon.read_open [of "fst nv" "snd nv @ CRLF @ t"] assms
    by (simp add: header_line_def clean_request_header_def)
  have "read_crlf_line (open_istream (snd nv @ CRLF @ t)) v = (snd nv, open_istream t)"
    using crlf.read_open assms by (simp add: clean_request_header_def)
  then show ?thesis
    by (subst request_header_loop.simps) (simp add: name read_crlf_line_def split: prod.splits)
qed

lemma request_header_loop_block:
  assumes "\<forall>nv \<in> set hs. clean_request_header nv" and "CHR '':'' \<notin> set t"
  shows "request_header_loop (open_istream (header_block hs @ t)) n v h
     = Some (\<lparr>rdbuf = [], eofbit = True, failbit = (t = [])\<rparr>, h ++ map_of (rev hs))"
  using assms(1)
proof (induction hs arbitrary: n v h)
  case Nil
  from assms(2) show ?case
    by (subst request_header_loop.simps) (simp add: getline_open_eof)
next
  case (Cons nv hs)
  then show ?case
    by (cases nv) (simp add: request_header_loop_line)
qed

subsection \<open>Every handler continues the chain or ends it\<close>

lemma http_status_table_dom:
  "c \<in> dom http_status_table \<longleftrightarrow> c \<in> {200, 404, 413, 500, 501, 505}"
  by (auto simp: http_status_table_def split: if_splits)

definition service_rank :: "service_handler \<Rightarrow> nat" where
  "service_rank k = (case k of On_Request_Line_Received \<Rightarrow> 0 | On_Headers_Received \<Rightarrow> 1
                      | On_Response_Sent \<Rightarrow> 2)"

text \<open>\<^verbatim>\<open>send_response\<close> ends in a write or in a fault.\<close>

lemma send_response_shape:
  "next_or_end (snd (send_response env s)) \<and>
   (\<forall>k \<in> set (conts (snd (send_response env s))). k = On_Response_Sent)"
  by (simp add: send_response_def next_or_end_def Let_def split: option.split)

lemma on_finish_shape: "next_or_end (snd (on_finish s)) \<and> conts (snd (on_finish s)) = []"
  by (simp add: on_finish_def next_or_end_def)

lemma next_or_end_Log [simp]: "next_or_end (Log ec # as) = next_or_end as"
  by (simp add: next_or_end_def)

lemma request_line_shape:
  "next_or_end (snd (on_request_line_received env ec s)) \<and>
   (\<forall>k \<in> set (conts (snd (on_request_line_received env ec s))).
      k = On_Headers_Received \<or> k = On_Response_Sent)"
  using send_response_shape
  by (simp add: on_request_line_received_def on_finish_shape Let_def case_prod_beta)
     (simp add: next_or_end_def)

lemma headers_shape:
  "next_or_end (snd (on_headers_received env ec s)) \<and>
   (\<forall>k \<in> set (conts (snd (on_headers_received env ec s))). k = On_Response_Sent)"
  using send_response_shape
  by (simp add: on_headers_received_def on_finish_shape Let_def case_prod_beta
      split: option.split)
     (simp add: next_or_end_def)

lemma response_sent_shape:
  "next_or_end (snd (on_response_sent env ec s)) \<and> conts (snd (on_response_sent env ec s)) = []"
  by (simp add: on_response_sent_def on_finish_def next_or_end_def Let_def)

interpretation svc: ranked_chain service_step no_external service_rank 3
proof unfold_locales
  fix k r s
  show "next_or_end (snd (service_step k r s))"
    using request_line_shape headers_shape response_sent_shape
    by (simp add: service_step_def Let_def split: service_handler.split)
  show "service_rank k < 3"
    by (simp add: service_rank_def split: service_handler.split)
next
  fix k' k :: service_handler and r s
  assume "k' \<in> set (conts (snd (service_step k r s)))"
  then show "service_rank k < service_rank k'"
    using request_line_shape headers_shape response_sent_shape
    by (cases k) (fastforce simp: service_step_def service_rank_def Let_def)+
next
  fix e s
  show "quiet (snd (no_external e s))" by simp
qed

subsection \<open>The invariant of a waiting service\<close>

text \<open>
  The status code is one the table knows, and a non-zero resource size comes with an array of that
  size: what \<^verbatim>\<open>send_response\<close> needs.
\<close>

definition service_ok :: "service \<Rightarrow> bool" where
  "service_ok s \<longleftrightarrow> m_response_status_code s \<in> dom http_status_table \<and>
     (m_resource_size_bytes s > 0 \<longrightarrow>
        (\<exists>b. m_resource_buffer s = Some b \<and> length b = unat (m_resource_size_bytes s)))"

definition harmless :: "service_action \<Rightarrow> bool" where
  "harmless a \<longleftrightarrow> a \<noteq> Hang \<and> a \<noteq> Undefined \<and> a \<noteq> Throw Out_Of_Range_Error"

lemma harmless_simps [simp]:
  "harmless (Start k op)" "harmless (Shutdown h)" "harmless (Log ec)" "harmless Delete_This"
  "harmless (Throw (System_Error ec))" "harmless (Throw Filesystem_Error)" "harmless (Throw Bad_Alloc)"
  by (simp_all add: harmless_def)

lemma service_ok_frame [simp]:
  "service_ok (s\<lparr>m_request := x\<rparr>) = service_ok s"
  "service_ok (s\<lparr>m_request_headers := h\<rparr>) = service_ok s"
  "service_ok (s\<lparr>m_requested_resource := y\<rparr>) = service_ok s"
  "service_ok (s\<lparr>m_response_headers := y\<rparr>) = service_ok s"
  "service_ok (s\<lparr>m_response_status_line := y\<rparr>) = service_ok s"
  by (simp_all add: service_ok_def)

lemma service_ok_status:
  "service_ok s \<Longrightarrow> c \<in> {200, 404, 413, 500, 501, 505} \<Longrightarrow> service_ok (s\<lparr>m_response_status_code := c\<rparr>)"
  by (simp add: service_ok_def http_status_table_dom)

lemma send_response_ok:
  "service_ok s \<Longrightarrow> service_ok (fst (send_response env s)) \<and> list_all harmless (snd (send_response env s))"
  by (auto simp: send_response_def resource_view_def service_ok_def Let_def split: option.split)

lemma process_request_ok:
  "service_ok s \<Longrightarrow> process_request env s = (s', f) \<Longrightarrow>
   (f = None \<longrightarrow> service_ok s') \<and> f \<noteq> Some Out_Of_Range_Error"
  by (auto simp: process_request_def service_ok_def http_status_table_dom Let_def
      split: fs_entry.splits if_splits)

lemma request_line_ok:
  "service_ok s \<Longrightarrow> service_ok (fst (on_request_line_received env ec s)) \<and>
     list_all harmless (snd (on_request_line_received env ec s))"
  using send_response_ok
  by (simp add: on_request_line_received_def on_finish_def service_ok_status Let_def case_prod_beta)

lemma headers_ok:
  assumes "service_ok s"
  shows "(conts (snd (on_headers_received env ec s)) \<noteq> [] \<longrightarrow>
            service_ok (fst (on_headers_received env ec s))) \<and>
         list_all harmless (snd (on_headers_received env ec s))"
proof (cases "is_error ec")
  case True
  with assms send_response_ok show ?thesis
    by (simp add: on_headers_received_def on_finish_def service_ok_status case_prod_beta)
next
  case False
  obtain st h where loop:
    "request_header_loop (open_istream (m_request s)) [] [] (m_request_headers s) = Some (st, h)"
    using request_header_loop_total [of "open_istream (m_request s)"] by force
  let ?s1 = "s\<lparr>m_request := rdbuf st, m_request_headers := h\<rparr>"
  obtain s2 f where pr: "process_request env ?s1 = (s2, f)" by (cases "process_request env ?s1")
  from process_request_ok [OF _ pr] assms have "f = None \<longrightarrow> service_ok s2" "f \<noteq> Some Out_Of_Range_Error"
    by simp_all
  then show ?thesis
    using False loop pr send_response_ok [of s2 env]
    by (cases f) (auto simp: on_headers_received_def Let_def harmless_def)
qed

lemma response_sent_ok:
  "service_ok s \<Longrightarrow> service_ok (fst (on_response_sent env ec s)) \<and>
     list_all harmless (snd (on_response_sent env ec s))"
  by (simp add: on_response_sent_def on_finish_def Let_def)

lemma service_step_ok:
  "service_ok s \<Longrightarrow> (conts (snd (service_step k r s)) \<noteq> [] \<longrightarrow> service_ok (fst (service_step k r s))) \<and>
     list_all harmless (snd (service_step k r s))"
  using request_line_ok headers_ok response_sent_ok
  by (simp add: service_step_def Let_def split: service_handler.split)

lemma new_service_ok: "service_ok new_service"
  by (simp add: service_ok_def new_service_def http_status_table_dom)

lemma start_handling_shape: "next_or_end (snd (start_handling s))"
  by (simp add: start_handling_def next_or_end_def)

end
