(* ===== verification/Http_Service_Properties.thy ===== *)
theory Http_Service_Properties
  imports Http_Service
begin

section \<open>HTTP server: properties of the service\<close>

text \<open>
  The life cycle of a service under any results of its operations (through the interpretation \<open>svc\<close> of
  the chain locales), the functional behaviour of its handlers on every branch, and three behaviours
  of the surroundings it does not handle.
\<close>

subsection \<open>Evaluation of the handlers\<close>

lemma request_line_received:
  assumes "\<not> is_error ec" and "is_word m" and "is_word uri" and "is_word v"
    and "m_request s = request_line m uri v @ CRLF @ rest"
  shows "on_request_line_received env ec s =
     (if m \<noteq> ''GET'' then send_response env (s\<lparr>m_request := rest, m_response_status_code := 501\<rparr>)
      else if v \<noteq> ''HTTP/1.1''
      then send_response env (s\<lparr>m_request := rest, m_requested_resource := uri,
                                m_response_status_code := 505\<rparr>)
      else (s\<lparr>m_request := rest, m_requested_resource := uri\<rparr>,
            [Start On_Headers_Received (Async_Read_Until (CRLF @ CRLF))]))"
proof -
  have words: "m \<noteq> []" "\<forall>c \<in> set m. \<not> is_space c" "uri \<noteq> []" "\<forall>c \<in> set uri. \<not> is_space c"
    "v \<noteq> []" "\<forall>c \<in> set v. \<not> is_space c"
    using assms(2-4) by (simp_all add: is_word_def)
  then have "CR \<notin> set (request_line m uri v)"
    using no_space_no_CR by (simp add: request_line_def)
  then have line: "getline CR (open_istream (m_request s)) [] = (request_line m uri v, open_istream (LF # rest))"
    using read_line_simp [of "request_line m uri v" rest "[]"] assms(5) by simp
  have w1: "extract_word (open_istream (request_line m uri v)) []
      = (m, open_istream (CHR '' '' # uri @ CHR '' '' # v))"
    using first_word [of m "CHR '' ''" "uri @ CHR '' '' # v"] words by (simp add: request_line_def)
  have w2: "extract_word (open_istream (CHR '' '' # uri @ CHR '' '' # v)) str
      = (uri, open_istream (CHR '' '' # v))" for str
    using next_word words by simp
  have w3: "extract_word (open_istream (CHR '' '' # v)) [] = (v, (open_istream [])\<lparr>eofbit := True\<rparr>)"
    using last_word words by simp
  show ?thesis
    using assms(1) by (simp add: on_request_line_received_def line w1 w2 w3 Let_def)
qed

lemma send_response_status_only:
  assumes "\<not> is_error (env_shutdown env)" and "http_status_table (m_response_status_code s) = Some l"
    and "m_resource_size_bytes s = 0"
  shows "snd (send_response env s) = [Shutdown shutdown_receive, Start On_Response_Sent
           (Async_Write [''HTTP/1.1 '' @ l @ CRLF, m_response_headers s @ CRLF])]"
  using assms by (simp add: send_response_def Let_def)

lemma send_response_with_body:
  assumes "\<not> is_error (env_shutdown env)" and "http_status_table (m_response_status_code s) = Some l"
    and "m_resource_buffer s = Some b" and "length b = unat (m_resource_size_bytes s)"
  shows "written (snd (send_response env s)) = ''HTTP/1.1 '' @ l @ CRLF @ m_response_headers s @ CRLF @ b"
    and "conts (snd (send_response env s)) = [On_Response_Sent]"
proof -
  have "m_resource_size_bytes s = 0 \<Longrightarrow> b = []" using assms(4) by simp
  then show "written (snd (send_response env s)) = ''HTTP/1.1 '' @ l @ CRLF @ m_response_headers s @ CRLF @ b"
    and "conts (snd (send_response env s)) = [On_Response_Sent]"
    using assms by (auto simp: send_response_def resource_view_def Let_def word_greater_zero_iff)
qed

lemma headers_received_block:
  assumes "\<not> is_error ec" and "m_request s = header_block hs @ CRLF"
    and "\<forall>nv \<in> set hs. clean_request_header nv"
  shows "on_headers_received env ec s =
     (case process_request env (s\<lparr>m_request := [], m_request_headers := m_request_headers s ++ map_of (rev hs)\<rparr>) of
        (s2, Some f) \<Rightarrow> (s2, [Throw f]) | (s2, None) \<Rightarrow> send_response env s2)"
  using assms by (simp add: on_headers_received_def request_header_loop_block)

text \<open>The first two handlers on a complete request that arrives in two pieces cut anywhere.\<close>

lemma service_run_request:
  assumes "\<not> is_error (res_ec r1)" and "\<not> is_error (res_ec r2)" and "is_word uri"
    and "\<forall>nv \<in> set hs. clean_request_header nv"
    and "res_data r1 = request_line ''GET'' uri ''HTTP/1.1'' @ CRLF @ a"
    and "a @ res_data r2 = header_block hs @ CRLF"
  shows "service_run [Completes 0 r1, Completes 0 r2] =
    (case (case process_request (res_env r2) (new_service\<lparr>m_requested_resource := uri,
                  m_request_headers := map_of (rev hs)\<rparr>) of
             (s2, Some f) \<Rightarrow> (s2, [Throw f]) | (s2, None) \<Rightarrow> send_response (res_env r2) s2) of
       (s3, as) \<Rightarrow> (conts as, s3,
          [Start On_Request_Line_Received (Async_Read_Until CRLF),
           Start On_Headers_Received (Async_Read_Until (CRLF @ CRLF))] @ as))"
proof -
  let ?s1 = "new_service\<lparr>m_request := a, m_requested_resource := uri\<rparr>"
  have 1: "service_step On_Request_Line_Received r1 new_service =
      (?s1, [Start On_Headers_Received (Async_Read_Until (CRLF @ CRLF))])"
    using request_line_received [OF assms(1) is_word_GET assms(3) is_word_HTTP,
        of "new_service\<lparr>m_request := res_data r1\<rparr>" a "res_env r1"] assms(5)
    by (simp add: service_step_def new_service_def)
  have 2: "service_step On_Headers_Received r2 ?s1 =
    (case process_request (res_env r2) (new_service\<lparr>m_requested_resource := uri,
                  m_request_headers := map_of (rev hs)\<rparr>) of
             (s2, Some f) \<Rightarrow> (s2, [Throw f]) | (s2, None) \<Rightarrow> send_response (res_env r2) s2)"
    using headers_received_block [OF assms(2) _ assms(4), of "?s1\<lparr>m_request := a @ res_data r2\<rparr>" "res_env r2"]
      assms(6)
    by (simp add: service_step_def new_service_def)
  show ?thesis
    by (simp add: service_run_def chain_begin_def start_handling_def chain_step_def 1 2 split: prod.splits)
qed

lemma process_request_file:
  assumes "env_fs env (''http_root'' @ m_requested_resource s) = Fs_Opened (int (length body)) body"
    and "length body < 2 ^ 64" and "env_alloc env (word_of_nat (length body))"
  shows "process_request env s =
    (s\<lparr>m_resource_size_bytes := word_of_nat (length body), m_resource_buffer := Some body,
       m_response_headers := m_response_headers s @ ''content-length: '' @ to_dec (length body) @ CRLF\<rparr>, None)"
proof -
  have n: "unat (word_of_nat (length body) :: size_t) = length body"
    using assms(2) by (simp add: unat_size_of_nat)
  show ?thesis
    using assms by (simp add: process_request_def Let_def n to_string_size_def)
qed

subsection \<open>Life cycle\<close>

text \<open>C15: At every moment of every run a service has exactly one waiting operation and has not ended, or it has
  ended exactly once (\<^verbatim>\<open>delete this\<close>, or an exception out of a handler) and nothing waits: no double
  deletion, no leak while the process lives, and no handler that runs on a deleted service.\<close>

theorem service_lifecycle:
  assumes "service_run evs = (p, s, tr)"
  shows "length p + end_count tr = 1 \<and> (Delete_This \<in> set tr \<longrightarrow> p = [])"
proof -
  from assms have run: "chain_run service_step no_external evs (chain_begin (start_handling new_service)) = (p, s, tr)"
    by (simp add: service_run_def)
  show ?thesis
    using svc.exactly_one [OF start_handling_shape run]
      svc.ended_not_waiting(1) [OF start_handling_shape run, of Delete_This] by simp
qed

definition demo_failed_result :: "error_code \<Rightarrow> service_result" where
  "demo_failed_result ec = \<lparr>res_ec = ec, res_data = [],
     res_env = \<lparr>env_shutdown = no_error, env_fs = (\<lambda>p. Fs_Absent), env_alloc = (\<lambda>n. True)\<rparr>\<rparr>"

lemma demo_failed_run:
  "service_run [Completes 0 (demo_failed_result asio_eof)] = ([], new_service,
     [Start On_Request_Line_Received (Async_Read_Until CRLF), Log asio_eof, Delete_This])"
  by (simp add: service_run_def chain_begin_def start_handling_def chain_step_def service_step_def
      demo_failed_result_def on_request_line_received_def on_finish_def new_service_def)

theorem service_lifecycle_witness:
  "\<exists>s tr. service_run [Completes 0 (demo_failed_result asio_eof)] = ([], s, tr) \<and>
     Delete_This \<in> set tr \<and> length ([] :: service_handler list) + end_count tr = 1"
  using service_lifecycle [OF demo_failed_run] demo_failed_run by auto

text \<open>A service ends after at most three completions, whatever their results are.\<close>

theorem service_terminates:
  assumes "service_run evs = (p, s, tr)" and "3 \<le> completions evs"
  shows "p = [] \<and> end_count tr = 1"
proof -
  from assms(1) have run: "chain_run service_step no_external evs (chain_begin (start_handling new_service)) = (p, s, tr)"
    by (simp add: service_run_def)
  show ?thesis
    using svc.ends_within_bound [OF start_handling_shape run assms(2)] by simp
qed

lemma demo_three_run:
  "\<exists>s tr. service_run [Completes 0 (demo_failed_result asio_eof), Completes 0 (demo_failed_result asio_eof),
     Completes 0 (demo_failed_result asio_eof)] = ([], s, tr)"
  by (simp add: service_run_def chain_begin_def start_handling_def chain_step_def service_step_def
      demo_failed_result_def on_request_line_received_def on_finish_def)

theorem service_terminates_witness:
  "\<exists>s tr. service_run [Completes 0 (demo_failed_result asio_eof), Completes 0 (demo_failed_result asio_eof),
     Completes 0 (demo_failed_result asio_eof)] = ([], s, tr) \<and> end_count tr = 1"
  using demo_three_run service_terminates by fastforce

text \<open>C33: Whatever bytes and errors arrive, no handler hangs in its header loop, no look-up in the status
  table throws and no response is read from a missing or short buffer.\<close>

theorem service_never_hangs:
  assumes "service_run evs = (p, s, tr)"
  shows "Hang \<notin> set tr \<and> Undefined \<notin> set tr \<and> Throw Out_Of_Range_Error \<notin> set tr"
proof -
  have "(p \<noteq> [] \<longrightarrow> service_ok s) \<and> list_all harmless tr"
    by (rule svc.run_invariant [where evs = evs and p = "[On_Request_Line_Received]"
          and s = new_service and tr = "snd (start_handling new_service)"])
       (use service_step_ok new_service_ok assms in
          \<open>auto simp: service_run_def chain_begin_def start_handling_def no_external_def\<close>)
  then show ?thesis by (auto simp: list_all_iff harmless_def)
qed

theorem service_never_hangs_witness:
  "\<exists>s tr. service_run [Completes 0 (demo_failed_result asio_eof)] = ([], s, tr) \<and> Hang \<notin> set tr"
  using service_never_hangs [OF demo_failed_run] demo_failed_run by auto

subsection \<open>Responses\<close>

text \<open>A file that can be read is sent whole.\<close>

lemma file_response_run:
  assumes "\<not> is_error (res_ec r1)" and "\<not> is_error (res_ec r2)" and "is_word uri"
    and "\<forall>nv \<in> set hs. clean_request_header nv"
    and "res_data r1 = request_line ''GET'' uri ''HTTP/1.1'' @ CRLF @ a"
    and "a @ res_data r2 = header_block hs @ CRLF"
    and "\<not> is_error (env_shutdown (res_env r2))"
    and "env_fs (res_env r2) (''http_root'' @ uri) = Fs_Opened (int (length body)) body"
    and "length body < 2 ^ 64" and "env_alloc (res_env r2) (word_of_nat (length body))"
  shows "\<exists>s tr. service_run [Completes 0 r1, Completes 0 r2] = ([On_Response_Sent], s, tr) \<and>
     written tr = ''HTTP/1.1 200 OK'' @ CRLF @ ''content-length: '' @ to_dec (length body) @ CRLF @ CRLF @ body \<and>
     m_request_headers s = map_of (rev hs)"
proof -
  let ?s = "new_service\<lparr>m_requested_resource := uri, m_request_headers := map_of (rev hs)\<rparr>"
  let ?t = "?s\<lparr>m_resource_size_bytes := word_of_nat (length body), m_resource_buffer := Some body,
       m_response_headers := ''content-length: '' @ to_dec (length body) @ CRLF\<rparr>"
  have pr: "process_request (res_env r2) ?s = (?t, None)"
    using process_request_file [of "res_env r2" ?s body] assms(8-10) by (simp add: new_service_def)
  have table: "http_status_table (m_response_status_code ?t) = Some ''200 OK''"
    by (simp add: http_status_table_def new_service_def)
  have "length body = unat (m_resource_size_bytes ?t)" using assms(9) by (simp add: unat_size_of_nat)
  note sent = send_response_with_body [OF assms(7) table _ this]
  obtain s3 as where sr: "send_response (res_env r2) ?t = (s3, as)"
    by (cases "send_response (res_env r2) ?t")
  have "m_request_headers s3 = map_of (rev hs)"
    using sr assms(7) by (auto simp: send_response_def Let_def split: option.splits if_splits)
  with sent sr show ?thesis
    by (simp add: service_run_request [OF assms(1-6)] pr)
qed

definition demo_env :: service_env where
  "demo_env = \<lparr>env_shutdown = no_error,
     env_fs = (\<lambda>p. if p = ''http_root/a'' then Fs_Opened 2 ''hi''
                   else if p = ''http_root/../key'' then Fs_Opened 1 ''k''
                   else if p = ''http_root/'' then Fs_Opened (-1) [] else Fs_Absent),
     env_alloc = (\<lambda>n. n < 9223372036854775808)\<rparr>"

definition demo_result :: "bytes \<Rightarrow> service_result" where
  "demo_result d = \<lparr>res_ec = no_error, res_data = d, res_env = demo_env\<rparr>"

lemma demo_sel [simp]:
  "res_ec (demo_result d) = no_error" "res_data (demo_result d) = d"
  "res_env (demo_result d) = demo_env" "env_shutdown demo_env = no_error"
  by (simp_all add: demo_result_def demo_env_def)

lemma to_dec_demo: "to_dec 1 = ''1''" "to_dec 2 = ''2''"
  by code_simp+

lemma missing_file_run:
  assumes "\<not> is_error (res_ec r1)" and "\<not> is_error (res_ec r2)" and "is_word uri"
    and "\<forall>nv \<in> set hs. clean_request_header nv"
    and "res_data r1 = request_line ''GET'' uri ''HTTP/1.1'' @ CRLF @ a"
    and "a @ res_data r2 = header_block hs @ CRLF"
    and "\<not> is_error (env_shutdown (res_env r2))"
    and "env_fs (res_env r2) (''http_root'' @ uri) = e" and "e \<in> {Fs_Absent, Fs_Unopenable}"
  shows "\<exists>s tr. service_run [Completes 0 r1, Completes 0 r2] = ([On_Response_Sent], s, tr) \<and>
     written tr = (if e = Fs_Absent then ''HTTP/1.1 404 Not Found'' else ''HTTP/1.1 500 Server Error'') @ CRLF @ CRLF"
  using assms(7-9)
  by (auto simp: service_run_request [OF assms(1-6)] process_request_def new_service_def
      send_response_def http_status_table_def Let_def)

text \<open>A request line that is refused: the file system is not consulted.\<close>

lemma rejected_run:
  assumes "\<not> is_error (res_ec r)" and "is_word m" and "is_word uri" and "is_word v"
    and "res_data r = request_line m uri v @ CRLF @ rest"
    and "\<not> is_error (env_shutdown (res_env r))" and "m \<noteq> ''GET'' \<or> v \<noteq> ''HTTP/1.1''"
  shows "\<exists>s tr. service_run [Completes 0 r] = ([On_Response_Sent], s, tr) \<and>
     written tr = (if m \<noteq> ''GET'' then ''HTTP/1.1 501 Not Implemented''
                   else ''HTTP/1.1 505 HTTP Version Not Supported'') @ CRLF @ CRLF"
proof -
  have step: "service_step On_Request_Line_Received r new_service =
      on_request_line_received (res_env r) (res_ec r) (new_service\<lparr>m_request := res_data r\<rparr>)"
    by (simp add: service_step_def new_service_def)
  have run: "service_run [Completes 0 r] =
      (case on_request_line_received (res_env r) (res_ec r) (new_service\<lparr>m_request := res_data r\<rparr>) of
         (s', as) \<Rightarrow> (conts as, s', Start On_Request_Line_Received (Async_Read_Until CRLF) # as))"
    by (simp add: service_run_def chain_begin_def start_handling_def chain_step_def step)
  have eval: "on_request_line_received (res_env r) (res_ec r) (new_service\<lparr>m_request := res_data r\<rparr>) =
     (if m \<noteq> ''GET''
      then send_response (res_env r) (new_service\<lparr>m_request := rest, m_response_status_code := 501\<rparr>)
      else send_response (res_env r) (new_service\<lparr>m_request := rest, m_requested_resource := uri,
                                m_response_status_code := 505\<rparr>))"
    using assms(5,7) request_line_received [OF assms(1-4), of "new_service\<lparr>m_request := res_data r\<rparr>" rest "res_env r"]
    by simp
  show ?thesis
    unfolding run eval using assms(6)
    by (simp add: new_service_def send_response_def http_status_table_def Let_def)
qed

text \<open>When a read fails because the buffer of 4096 bytes is full without the delimiter, the answer is a bare
  413 response; on any other error the service deletes itself and sends nothing. No file is opened.\<close>

theorem failed_read_response:
  assumes "k \<in> {On_Request_Line_Received, On_Headers_Received}" and "is_error (res_ec r)"
    and "\<not> is_error (env_shutdown (res_env r))"
    and "m_resource_size_bytes s = 0" and "m_response_headers s = []"
  shows "snd (service_step k r s) = Log (res_ec r) #
     (if res_ec r = asio_not_found
      then [Shutdown shutdown_receive, Start On_Response_Sent
              (Async_Write [''HTTP/1.1 413 Request Entity Too Large'' @ CRLF, CRLF])]
      else [Delete_This])"
  using assms
  by (auto simp: service_step_def on_request_line_received_def on_headers_received_def on_finish_def
      send_response_def http_status_table_def Let_def)

theorem failed_read_response_witness:
  "snd (service_step On_Headers_Received (demo_failed_result asio_not_found) new_service) =
     [Log asio_not_found, Shutdown shutdown_receive, Start On_Response_Sent
        (Async_Write [''HTTP/1.1 413 Request Entity Too Large'' @ CRLF, CRLF])]"
  using failed_read_response [of On_Headers_Received "demo_failed_result asio_not_found" new_service]
  by (simp add: demo_failed_result_def new_service_def)

subsection \<open>Surroundings the service does not handle\<close>

text \<open>C40: The requested resource is appended to \<^verbatim>\<open>http_root\<close> as it is, so a request for \<^verbatim>\<open>/../u\<close> with any header
  fields, cut anywhere between the two reads, makes the server send the bytes of the file \<^verbatim>\<open>http_root/../u\<close>: files outside
  the document root are served.\<close>

theorem resource_path_not_confined:
  assumes "\<not> is_error (res_ec r1)" and "\<not> is_error (res_ec r2)" and "is_word u"
    and "\<forall>nv \<in> set hs. clean_request_header nv" and "hs \<noteq> []"
    and "res_data r1 = request_line ''GET'' (''/../'' @ u) ''HTTP/1.1'' @ CRLF @ a"
    and "a @ res_data r2 = header_block hs @ CRLF"
    and "\<not> is_error (env_shutdown (res_env r2))"
    and "env_fs (res_env r2) (''http_root/../'' @ u) = Fs_Opened (int (length secret)) secret"
    and "length secret < 2 ^ 64" and "env_alloc (res_env r2) (word_of_nat (length secret))"
  shows "\<exists>s tr. service_run [Completes 0 r1, Completes 0 r2] = ([On_Response_Sent], s, tr) \<and>
     suffix (CRLF @ CRLF @ secret) (written tr)"
proof -
  have "is_word (''/../'' @ u)" using assms(3) by (simp add: is_word_def)
  from file_response_run [OF assms(1,2) this assms(4,6,7,8) _ assms(10,11)]
  obtain s tr where "service_run [Completes 0 r1, Completes 0 r2] = ([On_Response_Sent], s, tr)"
    and "written tr = ''HTTP/1.1 200 OK'' @ CRLF @ ''content-length: '' @ to_dec (length secret) @ CRLF @ CRLF @ secret"
    using assms(9) by auto
  moreover have "suffix (CRLF @ CRLF @ secret)
      ((''HTTP/1.1 200 OK'' @ CRLF @ ''content-length: '' @ to_dec (length secret)) @ CRLF @ CRLF @ secret)"
    by (rule suffixI) (rule refl)
  ultimately show ?thesis by (intro exI [of _ s] exI [of _ tr]) simp
qed

theorem resource_path_not_confined_witness:
  "\<exists>s tr. service_run [Completes 0 (demo_result (''GET /../key HTTP/1.1'' @ CRLF @ ''Ho'')),
       Completes 0 (demo_result (''st: h'' @ CRLF @ CRLF))]
       = ([On_Response_Sent], s, tr) \<and> suffix (CRLF @ CRLF @ ''k'') (written tr)"
  using resource_path_not_confined [of "demo_result (''GET /../key HTTP/1.1'' @ CRLF @ ''Ho'')" "demo_result (''st: h'' @ CRLF @ CRLF)"
      "''key''" "[(''Host'', '' h'')]" "''Ho''" "''k''"]
  by (simp add: is_word_def is_space_def request_line_def demo_env_def clean_request_header_def header_line_def)

text \<open>When \<^verbatim>\<open>tellg\<close> fails and returns \<open>-1\<close> (a directory such as \<^verbatim>\<open>GET /\<close>, a special file), the size
  becomes \<open>2 ^ 64 - 1\<close>; no allocator serves that, so \<^verbatim>\<open>std::bad_alloc\<close> leaves the handler and no response
  is sent.\<close>

theorem unseekable_resource_throws:
  assumes "\<not> is_error (res_ec r1)" and "\<not> is_error (res_ec r2)" and "is_word uri"
    and "\<forall>nv \<in> set hs. clean_request_header nv"
    and "res_data r1 = request_line ''GET'' uri ''HTTP/1.1'' @ CRLF @ a"
    and "a @ res_data r2 = header_block hs @ CRLF"
    and "env_fs (res_env r2) (''http_root'' @ uri) = Fs_Opened (- 1) c"
    and "\<forall>n. 2 ^ 63 \<le> unat n \<longrightarrow> \<not> env_alloc (res_env r2) n"
  shows "\<exists>s tr. service_run [Completes 0 r1, Completes 0 r2] = ([], s, tr) \<and> last tr = Throw Bad_Alloc \<and>
     written tr = [] \<and> unat (m_resource_size_bytes s) = 2 ^ 64 - 1"
proof -
  have size: "unat (- 1 :: size_t) = 2 ^ 64 - 1" by (simp add: unsigned_minus_1_eq_mask mask_eq_exp_minus_1)
  then have "\<not> env_alloc (res_env r2) (- 1)" using assms(8) by simp
  then show ?thesis
    using assms(7) size
    by (simp add: service_run_request [OF assms(1-6)] process_request_def new_service_def Let_def)
qed

theorem unseekable_resource_throws_witness:
  "\<exists>s tr. service_run [Completes 0 (demo_result (''GET / HTTP/1.1'' @ CRLF)),
       Completes 0 (demo_result (''Host:x'' @ CRLF @ CRLF))] = ([], s, tr) \<and> last tr = Throw Bad_Alloc"
proof -
  have "\<forall>n. 2 ^ 63 \<le> unat n \<longrightarrow> \<not> env_alloc demo_env n"
    by (simp add: demo_env_def word_less_nat_alt)
  then show ?thesis
    using unseekable_resource_throws [of "demo_result (''GET / HTTP/1.1'' @ CRLF)"
      "demo_result (''Host:x'' @ CRLF @ CRLF)" "''/''" "[(''Host'', ''x'')]" "[]" "[]"]
    by (auto simp: is_word_def is_space_def clean_request_header_def request_line_def header_line_def demo_env_def)
qed

text \<open>The \<^verbatim>\<open>shutdown\<close> calls use the throwing overload without a handler around them: when the peer has
  already reset the connection, the exception leaves the completion handler of the response, the service
  is not deleted and the process ends.\<close>

theorem failed_shutdown_throws:
  assumes "is_error (env_shutdown (res_env r))"
  shows "last (snd (service_step On_Response_Sent r s)) = Throw (System_Error (env_shutdown (res_env r))) \<and>
    Delete_This \<notin> set (snd (service_step On_Response_Sent r s))"
  using assms by (simp add: service_step_def on_response_sent_def Let_def)

theorem failed_shutdown_throws_witness:
  "last (snd (service_step On_Response_Sent \<lparr>res_ec = no_error, res_data = [], res_env =
      \<lparr>env_shutdown = \<lparr>ec_value = 107, ec_category = System_Category\<rparr>, env_fs = (\<lambda>p. Fs_Absent),
       env_alloc = (\<lambda>n. True)\<rparr>\<rparr> new_service)) = Throw (System_Error \<lparr>ec_value = 107, ec_category = System_Category\<rparr>)"
  using failed_shutdown_throws [of "\<lparr>res_ec = no_error, res_data = [], res_env =
      \<lparr>env_shutdown = \<lparr>ec_value = 107, ec_category = System_Category\<rparr>, env_fs = (\<lambda>p. Fs_Absent),
       env_alloc = (\<lambda>n. True)\<rparr>\<rparr>" new_service]
  by (simp add: is_error_def)

end
