(* ===== verification/Http_Spec.thy ===== *)
theory Http_Spec
  imports Http_Service_Properties
begin

section \<open>HTTP server: its contract\<close>

text \<open>
  What the server promises about one request, without buffers, handlers and operations: a function from the
  file system and the three words of the request line to a reply, and the bytes of a reply. The service
  refines it on every well-formed request, wherever the stream is cut between its two reads.
\<close>

datatype reply = Status_Reply string | File_Reply bytes

definition http_reply :: "(string \<Rightarrow> fs_entry) \<Rightarrow> string \<Rightarrow> string \<Rightarrow> string \<Rightarrow> reply" where
  "http_reply fs method uri version =
     (if method \<noteq> ''GET'' then Status_Reply ''501 Not Implemented''
      else if version \<noteq> ''HTTP/1.1'' then Status_Reply ''505 HTTP Version Not Supported''
      else case fs (''http_root'' @ uri) of
             Fs_Opened n body \<Rightarrow> File_Reply body
           | Fs_Absent \<Rightarrow> Status_Reply ''404 Not Found''
           | _ \<Rightarrow> Status_Reply ''500 Server Error'')"

fun reply_bytes :: "reply \<Rightarrow> bytes" where
  "reply_bytes (Status_Reply status) = ''HTTP/1.1 '' @ status @ CRLF @ CRLF"
| "reply_bytes (File_Reply body) = ''HTTP/1.1 '' @ ''200 OK'' @ CRLF @
     ''content-length: '' @ to_dec (length body) @ CRLF @ CRLF @ body"

text \<open>A file system that answers, reports true sizes, and has files for which memory can be had.\<close>

definition sane_env :: "service_env \<Rightarrow> bool" where
  "sane_env env \<longleftrightarrow> \<not> is_error (env_shutdown env) \<and>
     (\<forall>path. case env_fs env path of
        Fs_Error \<Rightarrow> False
      | Fs_Opened n body \<Rightarrow> n = int (length body) \<and> length body < 2 ^ 64 \<and> env_alloc env (word_of_nat (length body))
      | _ \<Rightarrow> True)"

lemma sane_envD:
  assumes "sane_env env"
  shows "\<not> is_error (env_shutdown env)" "env_fs env path \<noteq> Fs_Error"
    "env_fs env path = Fs_Opened n body \<Longrightarrow>
       n = int (length body) \<and> length body < 2 ^ 64 \<and> env_alloc env (word_of_nat (length body))"
  using assms unfolding sane_env_def by (auto split: fs_entry.splits)

lemma finish_run:
  assumes "\<not> is_error (env_shutdown (res_env r))"
  shows "\<exists>s' fin. chain_run service_step no_external (Completes 0 r # evs) ([On_Response_Sent], s, tr) =
    chain_run service_step no_external evs ([], s', tr @ fin) \<and> written fin = [] \<and> fin \<noteq> [] \<and> last fin = Delete_This"
  using assms
  by (intro exI [of _ "s\<lparr>m_request := m_request s @ res_data r\<rparr>"]
        exI [of _ "(if is_error (res_ec r) then [Log (res_ec r)] else []) @ [Shutdown shutdown_both, Delete_This]"])
     (simp add: chain_step_def service_step_def on_response_sent_def on_finish_def Let_def)

lemma ended_run: "chain_step service_step no_external (Completes i r) ([], s, tr) = ([], s, tr)"
  by (simp add: chain_step_def)

text \<open>After the header fields of a request that it accepts, the service has written the reply and waits for
  the end of the write.\<close>

lemma accepted_run:
  assumes "\<not> is_error (res_ec r1)" and "\<not> is_error (res_ec r2)" and "is_word uri" and "\<forall>nv \<in> set hs. clean_request_header nv"
    and "res_data r1 = request_line ''GET'' uri ''HTTP/1.1'' @ CRLF @ a" and "a @ res_data r2 = header_block hs @ CRLF"
    and "sane_env (res_env r2)"
  shows "\<exists>s tr. service_run [Completes 0 r1, Completes 0 r2] = ([On_Response_Sent], s, tr) \<and>
    written tr = reply_bytes (http_reply (env_fs (res_env r2)) ''GET'' uri ''HTTP/1.1'')"
proof -
  note missing = missing_file_run [OF assms(1-6) sane_envD(1) [OF assms(7)] refl]
  show ?thesis
  proof (cases "env_fs (res_env r2) (''http_root'' @ uri)")
    case (Fs_Opened n body)
    from file_response_run [OF assms(1-6) sane_envD(1) [OF assms(7)], of body] sane_envD(3) [OF assms(7) Fs_Opened] Fs_Opened
    show ?thesis by (auto simp: http_reply_def)
  next
    case Fs_Error
    with sane_envD(2) [OF assms(7)] show ?thesis by blast
  next
    case Fs_Absent
    with missing show ?thesis by (auto simp: http_reply_def)
  next
    case Fs_Unopenable
    with missing show ?thesis by (auto simp: http_reply_def)
  qed
qed

text \<open>C1: The service refines the contract: for every well-formed request, cut anywhere between the two reads, the bytes it
  writes are exactly those of the reply that the contract prescribes for the request line and the file system,
  and after its third completion it has deleted itself and waits for nothing.\<close>

theorem service_refines_contract:
  assumes "\<not> is_error (res_ec r1)" and "\<not> is_error (res_ec r2)"
    and "is_word method" and "is_word uri" and "is_word version"
    and "\<forall>nv \<in> set hs. clean_request_header nv"
    and "res_data r1 = request_line method uri version @ CRLF @ a"
    and "a @ res_data r2 = header_block hs @ CRLF"
    and "sane_env (res_env r1)" and "sane_env (res_env r2)" and "sane_env (res_env r3)"
  shows "\<exists>s tr. service_run [Completes 0 r1, Completes 0 r2, Completes 0 r3] = ([], s, tr) \<and>
    written tr = reply_bytes (http_reply (env_fs (res_env r2)) method uri version) \<and> last tr = Delete_This"
proof (cases "method = ''GET'' \<and> version = ''HTTP/1.1''")
  case False
  then have "method \<noteq> ''GET'' \<or> version \<noteq> ''HTTP/1.1''" by simp
  from rejected_run [OF assms(1,3-5,7) sane_envD(1) [OF assms(9)] this]
  obtain s tr where run: "service_run [Completes 0 r1] = ([On_Response_Sent], s, tr)"
    and w: "written tr = (if method \<noteq> ''GET'' then ''HTTP/1.1 501 Not Implemented''
       else ''HTTP/1.1 505 HTTP Version Not Supported'') @ CRLF @ CRLF" by blast
  have "reply_bytes (http_reply (env_fs (res_env r2)) method uri version) = written tr"
    unfolding w using False by (simp add: http_reply_def)
  moreover obtain s' fin where "chain_run service_step no_external [Completes 0 r2, Completes 0 r3] ([On_Response_Sent], s, tr)
      = ([], s', tr @ fin)" and "written fin = []" "fin \<noteq> []" "last fin = Delete_This"
    using finish_run [OF sane_envD(1) [OF assms(10)], of "[Completes 0 r3]" s tr] by (auto simp: ended_run)
  ultimately show ?thesis using run by (simp add: service_run_def)
next
  case True
  then have GET: "method = ''GET''" "version = ''HTTP/1.1''" by simp_all
  from accepted_run [OF assms(1,2,4,6) assms(7) [unfolded GET] assms(8,10)]
  obtain s tr where run: "service_run [Completes 0 r1, Completes 0 r2] = ([On_Response_Sent], s, tr)"
    and w: "written tr = reply_bytes (http_reply (env_fs (res_env r2)) method uri version)" unfolding GET by blast
  obtain s' fin where "chain_run service_step no_external [Completes 0 r3] ([On_Response_Sent], s, tr)
      = ([], s', tr @ fin)" and "written fin = []" "fin \<noteq> []" "last fin = Delete_This"
    using finish_run [OF sane_envD(1) [OF assms(11)], of "[]" s tr] by auto
  with run w show ?thesis by (simp add: service_run_def)
qed

definition one_file_env :: service_env where
  "one_file_env = \<lparr>env_shutdown = no_error,
     env_fs = (\<lambda>p. if p = ''http_root/a'' then Fs_Opened 2 ''hi'' else Fs_Absent), env_alloc = (\<lambda>n. True)\<rparr>"

definition sane_result :: "bytes \<Rightarrow> service_result" where
  "sane_result d = \<lparr>res_ec = no_error, res_data = d, res_env = one_file_env\<rparr>"

lemma sane_result_sel [simp]:
  "res_ec (sane_result d) = no_error" "res_data (sane_result d) = d" "res_env (sane_result d) = one_file_env"
  by (simp_all add: sane_result_def)

lemma one_file_env_sane: "sane_env one_file_env"
  by (simp add: sane_env_def one_file_env_def)

theorem service_refines_contract_witness:
  "\<exists>s tr. service_run [Completes 0 (sane_result (''GET /a HTTP/1.1'' @ CRLF)),
      Completes 0 (sane_result (''Host:x'' @ CRLF @ CRLF)), Completes 0 (sane_result [])] = ([], s, tr) \<and>
    written tr = reply_bytes (File_Reply ''hi'') \<and> last tr = Delete_This"
  using service_refines_contract [of "sane_result (''GET /a HTTP/1.1'' @ CRLF)"
      "sane_result (''Host:x'' @ CRLF @ CRLF)" "''GET''" "''/a''" "''HTTP/1.1''" "[(''Host'', ''x'')]" "[]" "sane_result []"]
    one_file_env_sane
  by (simp add: is_word_def is_space_def clean_request_header_def request_line_def header_line_def http_reply_def)
     (simp add: one_file_env_def)

end
