(* ===== verification/Http_Errors.thy ===== *)
theory Http_Errors
  imports Asio
begin

section \<open>HTTP client: its error category\<close>

text \<open>\<^verbatim>\<open>chapter5/HTTPClient/http_errors.h\<close> and \<^verbatim>\<open>http_errors.cpp\<close>.\<close>

datatype http_error_codes = invalid_response

definition http_error_value :: "http_error_codes \<Rightarrow> int" where
  "http_error_value e = (case e of invalid_response \<Rightarrow> 1)"

definition http_errors_message :: "int \<Rightarrow> string" where
  "http_errors_message e =
     (if e = http_error_value invalid_response then ''Server response cannot be parsed.''
      else ''Unknown error.'')"

definition make_error_code :: "http_error_codes \<Rightarrow> error_code" where
  "make_error_code e = \<lparr>ec_value = http_error_value e, ec_category = Http_Errors_Category\<rparr>"

lemma make_error_code_simps [simp]:
  "is_error (make_error_code e)" "make_error_code e \<noteq> asio_eof" "make_error_code e \<noteq> operation_aborted"
  "make_error_code e \<noteq> no_error"
  by (cases e; simp add: make_error_code_def http_error_value_def is_error_def asio_eof_def
      operation_aborted_def no_error_def)+

end
