(* ===== verification/Http_Client.thy ===== *)
theory Http_Client
  imports Http_Errors Async_Chain Http_Message
begin

section \<open>HTTP client: one request\<close>

text \<open>
  \<^verbatim>\<open>chapter5/HTTPClient/httpclient.h\<close> and \<^verbatim>\<open>httpclient.cpp\<close>: \<^verbatim>\<open>HTTPResponse\<close> and \<^verbatim>\<open>HTTPRequest\<close>. Each
  handler checks and starts its next operation under \<^verbatim>\<open>m_cancel_mux\<close>, which \<^verbatim>\<open>cancel\<close> holds too, and
  what it does before taking the lock touches nothing that \<^verbatim>\<open>cancel\<close> reads or writes except through
  the thread-safe flag, so a handler and a cancellation are modelled as atomic steps in any order.
  \<^verbatim>\<open>m_status_code\<close> is not initialised by the constructor: \<open>None\<close> is the indeterminate value.
  The function object \<^verbatim>\<open>m_callback\<close> is represented by a name.
\<close>

record http_response =
  m_status_code :: "u32 option"
  m_status_message :: string
  m_headers :: "string \<rightharpoonup> string"
  m_response_buf :: bytes

definition new_response :: http_response where
  "new_response = \<lparr>m_status_code = None, m_status_message = [], m_headers = Map.empty, m_response_buf = []\<rparr>"

definition set_status_code :: "u32 \<Rightarrow> http_response \<Rightarrow> http_response" where
  "set_status_code c rsp = rsp\<lparr>m_status_code := Some c\<rparr>"

definition set_status_message :: "string \<Rightarrow> http_response \<Rightarrow> http_response" where
  "set_status_message msg rsp = rsp\<lparr>m_status_message := msg\<rparr>"

definition add_header :: "string \<Rightarrow> string \<Rightarrow> http_response \<Rightarrow> http_response" where
  "add_header name v rsp = rsp\<lparr>m_headers := (m_headers rsp)(name \<mapsto> v)\<rparr>"

datatype request_handler =
  On_Host_Name_Resolved | On_Connection_Established | On_Request_Sent | On_Status_Line_Received
| On_Response_Headers_Received | On_Response_Body_Received

record http_request =
  m_host :: string
  m_port :: u32
  m_uri :: string
  m_id :: u32
  m_callback :: "nat option"
  m_request_buf :: bytes
  m_response :: http_response
  m_was_cancelled :: bool

text \<open>What a call of the callback passes: the callback's name, the request and response, the error code.\<close>

type_synonym completion = "nat \<times> http_request \<times> error_code"
type_synonym request_action = "(request_handler, completion) action"

definition DEFAULT_PORT :: u32 where
  "DEFAULT_PORT = 80"

definition create_request :: "u32 \<Rightarrow> http_request" where
  "create_request i = \<lparr>m_host = [], m_port = DEFAULT_PORT, m_uri = [], m_id = i, m_callback = None,
     m_request_buf = [], m_response = new_response, m_was_cancelled = False\<rparr>"

definition set_host :: "string \<Rightarrow> http_request \<Rightarrow> http_request" where
  "set_host h rq = rq\<lparr>m_host := h\<rparr>"

definition set_port :: "u32 \<Rightarrow> http_request \<Rightarrow> http_request" where
  "set_port p rq = rq\<lparr>m_port := p\<rparr>"

definition set_uri :: "string \<Rightarrow> http_request \<Rightarrow> http_request" where
  "set_uri u rq = rq\<lparr>m_uri := u\<rparr>"

definition set_callback :: "nat option \<Rightarrow> http_request \<Rightarrow> http_request" where
  "set_callback cb rq = rq\<lparr>m_callback := cb\<rparr>"

text \<open>\<^verbatim>\<open>on_finish\<close>: calling an empty \<^verbatim>\<open>std::function\<close> throws.\<close>

definition request_on_finish :: "error_code \<Rightarrow> http_request \<Rightarrow> http_request \<times> request_action list" where
  "request_on_finish ec rq =
     (rq, (if is_error ec then [Log ec] else []) @
          [case m_callback rq of None \<Rightarrow> Throw Bad_Function_Call | Some cb \<Rightarrow> Callback (cb, rq, ec)])"

text \<open>The block that ends every step: under the lock, give up if cancelled, else start the next operation.\<close>

definition start_unless_cancelled ::
  "request_handler \<Rightarrow> async_op \<Rightarrow> http_request \<Rightarrow> http_request \<times> request_action list" where
  "start_unless_cancelled k op rq =
     (if m_was_cancelled rq then request_on_finish operation_aborted rq else (rq, [Start k op]))"

definition execute :: "http_request \<Rightarrow> http_request \<times> request_action list" where
  "execute rq =
     (if \<not> m_port rq > 0 \<or> \<not> length (m_host rq) > 0 \<or> \<not> length (m_uri rq) > 0 \<or> m_callback rq = None
      then (rq, [Throw Assertion_Failure])
      else start_unless_cancelled On_Host_Name_Resolved
             (Async_Resolve (m_host rq) (to_string_u32 (m_port rq))) rq)"

text \<open>\<^verbatim>\<open>cancel\<close>; whether the socket is open and what its \<^verbatim>\<open>cancel\<close> reports come from the library.\<close>

datatype request_call = Call_Cancel bool error_code

fun request_external :: "request_call \<Rightarrow> http_request \<Rightarrow> http_request \<times> request_action list" where
  "request_external (Call_Cancel is_open cancel_ec) rq =
     (rq\<lparr>m_was_cancelled := True\<rparr>,
      [Cancel_Resolver] @
      (if is_open
       then [Cancel_Socket] @ (if is_error cancel_ec then [Raise (System_Error cancel_ec)] else [])
       else []))"

definition on_host_name_resolved :: "error_code \<Rightarrow> http_request \<Rightarrow> http_request \<times> request_action list" where
  "on_host_name_resolved ec rq =
     (if is_error ec then request_on_finish ec rq
      else start_unless_cancelled On_Connection_Established Async_Connect rq)"

definition on_connection_established :: "error_code \<Rightarrow> http_request \<Rightarrow> http_request \<times> request_action list" where
  "on_connection_established ec rq =
     (if is_error ec then request_on_finish ec rq
      else let rq1 = rq\<lparr>m_request_buf := m_request_buf rq @ ''GET '' @ m_uri rq @ '' HTTP/1.1'' @ CRLF\<rparr>;
               rq2 = rq1\<lparr>m_request_buf := m_request_buf rq1 @ ''Host: '' @ m_host rq1 @ CRLF\<rparr>;
               rq3 = rq2\<lparr>m_request_buf := m_request_buf rq2 @ CRLF\<rparr>
           in start_unless_cancelled On_Request_Sent (Async_Write [m_request_buf rq3]) rq3)"

definition on_request_sent :: "error_code \<Rightarrow> error_code \<Rightarrow> http_request \<Rightarrow> http_request \<times> request_action list" where
  "on_request_sent shutdown_ec ec rq =
     (if is_error ec then request_on_finish ec rq
      else if is_error shutdown_ec
      then (rq, [Shutdown shutdown_send, Throw (System_Error shutdown_ec)])
      else case start_unless_cancelled On_Status_Line_Received (Async_Read_Until CRLF) rq of
             (rq1, as) \<Rightarrow> (rq1, Shutdown shutdown_send # as))"

definition set_buf :: "istream \<Rightarrow> http_request \<Rightarrow> http_request" where
  "set_buf st rq = rq\<lparr>m_response := (m_response rq)\<lparr>m_response_buf := rdbuf st\<rparr>\<rparr>"

definition on_status_line_received :: "error_code \<Rightarrow> http_request \<Rightarrow> http_request \<times> request_action list" where
  "on_status_line_received ec rq =
     (if is_error ec then request_on_finish ec rq
      else
        let (http_version, st1) = extract_word (open_istream (m_response_buf (m_response rq))) []
        in if http_version \<noteq> ''HTTP/1.1''
           then request_on_finish (make_error_code invalid_response) (set_buf st1 rq)
           else
             let (str_status_code, st2) = extract_word st1 []
             in case stoul str_status_code of
                  Inl _ \<Rightarrow> request_on_finish (make_error_code invalid_response) (set_buf st2 rq)
                | Inr n \<Rightarrow>
                    let status_code = (ucast n :: u32);
                        (status_message, st3) = getline CR st2 [];
                        rq1 = set_buf (get_char st3) rq;
                        rq2 = rq1\<lparr>m_response := set_status_message status_message
                                       (set_status_code status_code (m_response rq1))\<rparr>
                    in start_unless_cancelled On_Response_Headers_Received
                         (Async_Read_Until (CRLF @ CRLF)) rq2)"

text \<open>
  One header line of \<^verbatim>\<open>on_headers_received\<close>: lines without a colon are skipped.
\<close>

definition add_header_line :: "string \<Rightarrow> http_response \<Rightarrow> http_response" where
  "add_header_line header rsp =
     (if CHR '':'' \<in> set header
      then let separator_pos = length (takeWhile (\<lambda>c. c \<noteq> CHR '':'') header);
               header_name = take separator_pos header;
               header_value = (if separator_pos < length header - 1 then drop (separator_pos + 1) header else [])
           in add_header header_name header_value rsp
      else rsp)"

text \<open>The \<^verbatim>\<open>while (true)\<close> loop of \<^verbatim>\<open>on_headers_received\<close>; the string \<^verbatim>\<open>header\<close> lives outside it.\<close>

partial_function (option) response_header_loop ::
  "istream \<Rightarrow> string \<Rightarrow> http_response \<Rightarrow> (istream \<times> http_response) option" where
  "response_header_loop st header rsp =
     (let (header1, st1) = getline CR st header;
          st2 = get_char st1
      in if header1 = [] then Some (st2, rsp)
         else response_header_loop st2 header1 (add_header_line header1 rsp))"

definition request_on_headers_received :: "error_code \<Rightarrow> http_request \<Rightarrow> http_request \<times> request_action list" where
  "request_on_headers_received ec rq =
     (if is_error ec then request_on_finish ec rq
      else case response_header_loop (open_istream (m_response_buf (m_response rq))) [] (m_response rq) of
             None \<Rightarrow> (rq, [Hang])
           | Some (st, rsp) \<Rightarrow>
               start_unless_cancelled On_Response_Body_Received Async_Read
                 (rq\<lparr>m_response := rsp\<lparr>m_response_buf := rdbuf st\<rparr>\<rparr>))"

definition on_response_body_received :: "error_code \<Rightarrow> http_request \<Rightarrow> http_request \<times> request_action list" where
  "on_response_body_received ec rq =
     (if ec = asio_eof then request_on_finish no_error rq else request_on_finish ec rq)"

text \<open>One completion: the received bytes are in the response buffer before the handler runs.\<close>

record request_result =
  rr_ec :: error_code
  rr_data :: bytes
  rr_shutdown :: error_code

definition request_step ::
  "request_handler \<Rightarrow> request_result \<Rightarrow> http_request \<Rightarrow> http_request \<times> request_action list" where
  "request_step k r rq =
     (let rq1 = rq\<lparr>m_response := (m_response rq)\<lparr>m_response_buf := m_response_buf (m_response rq) @ rr_data r\<rparr>\<rparr>
      in case k of
           On_Host_Name_Resolved \<Rightarrow> on_host_name_resolved (rr_ec r) rq1
         | On_Connection_Established \<Rightarrow> on_connection_established (rr_ec r) rq1
         | On_Request_Sent \<Rightarrow> on_request_sent (rr_shutdown r) (rr_ec r) rq1
         | On_Status_Line_Received \<Rightarrow> on_status_line_received (rr_ec r) rq1
         | On_Response_Headers_Received \<Rightarrow> request_on_headers_received (rr_ec r) rq1
         | On_Response_Body_Received \<Rightarrow> on_response_body_received (rr_ec r) rq1)"

definition request_run ::
  "(request_result, request_call) event list \<Rightarrow> http_request \<Rightarrow> (request_handler, http_request, completion) chain_state" where
  "request_run evs rq = chain_run request_step request_external evs (chain_begin (execute rq))"

end
