(* ===== verification/Http_Client_Properties.thy ===== *)
theory Http_Client_Properties
  imports Http_Client
begin

section \<open>HTTP client: properties of a request\<close>

text \<open>
  The callback protocol of \<^verbatim>\<open>HTTPRequest\<close> under any interleaving of completions and cancellations
  (interpretation \<open>rq\<close> of the chain locales), the parser of the status line and of the header fields on
  well-formed responses, and the responses on which the header loop does not stop.
\<close>

subsection \<open>Every handler continues the chain or ends it\<close>

definition request_rank :: "request_handler \<Rightarrow> nat" where
  "request_rank k = (case k of On_Host_Name_Resolved \<Rightarrow> 0 | On_Connection_Established \<Rightarrow> 1
     | On_Request_Sent \<Rightarrow> 2 | On_Status_Line_Received \<Rightarrow> 3 | On_Response_Headers_Received \<Rightarrow> 4
     | On_Response_Body_Received \<Rightarrow> 5)"

lemma finish_shape [simp]:
  "next_or_end (snd (request_on_finish ec rq))" "conts (snd (request_on_finish ec rq)) = []"
  by (simp_all add: request_on_finish_def next_or_end_def split: option.split)

lemma start_shape [simp]:
  "next_or_end (snd (start_unless_cancelled k op rq))"
  "conts (snd (start_unless_cancelled k op rq)) = (if m_was_cancelled rq then [] else [k])"
  by (simp_all add: start_unless_cancelled_def) (simp add: next_or_end_def)

lemma next_or_end_Shutdown [simp]: "next_or_end (Shutdown h # as) = next_or_end as"
  by (simp add: next_or_end_def)

lemma next_or_end_fault [simp]: "next_or_end [Throw f]" "next_or_end [Hang]"
  by (simp_all add: next_or_end_def)

lemmas request_handler_defs =
  on_host_name_resolved_def on_connection_established_def on_request_sent_def
  on_status_line_received_def request_on_headers_received_def on_response_body_received_def

lemma request_step_shape:
  "next_or_end (snd (request_step k r rq)) \<and>
   (\<forall>k' \<in> set (conts (snd (request_step k r rq))). request_rank k < request_rank k')"
  by (cases k)
     (auto simp: request_step_def request_handler_defs request_rank_def Let_def case_prod_beta
       split: sum.split option.split if_splits)

interpretation rq: ranked_chain request_step request_external request_rank 6
proof unfold_locales
  fix k r s
  show "next_or_end (snd (request_step k r s))" using request_step_shape by blast
  show "request_rank k < 6" by (simp add: request_rank_def split: request_handler.split)
next
  fix k' k :: request_handler and r s
  assume "k' \<in> set (conts (snd (request_step k r s)))"
  then show "request_rank k < request_rank k'" using request_step_shape by blast
next
  fix e s
  show "quiet (snd (request_external e s))" by (cases e) (simp add: quiet_def)
qed

text \<open>The handlers of a request in the order of the protocol.\<close>

instantiation request_handler :: linorder
begin

definition less_eq_request_handler :: "request_handler \<Rightarrow> request_handler \<Rightarrow> bool" where
  "less_eq_request_handler j k \<longleftrightarrow> request_rank j \<le> request_rank k"

definition less_request_handler :: "request_handler \<Rightarrow> request_handler \<Rightarrow> bool" where
  "less_request_handler j k \<longleftrightarrow> request_rank j < request_rank k"

instance
proof
  fix j k :: request_handler
  assume "j \<le> k" and "k \<le> j"
  then show "j = k"
    by (cases j; cases k) (simp_all add: less_eq_request_handler_def request_rank_def)
qed (auto simp: less_eq_request_handler_def less_request_handler_def)

end

lemma execute_shape: "next_or_end (snd (execute rq))"
  by (simp add: execute_def)

lemma end_kinds:
  "list_all (\<lambda>a. ends_chain a \<longrightarrow> is_callback a \<or> (\<exists>f. a = Throw f) \<or> a = Hang) (snd (request_step k r rq))"
  by (cases k)
     (auto simp: request_step_def request_handler_defs request_on_finish_def start_unless_cancelled_def
       is_callback_def ends_chain_def Let_def case_prod_beta split: sum.split option.split)

lemma execute_end_kinds:
  "list_all (\<lambda>a. ends_chain a \<longrightarrow> is_callback a \<or> (\<exists>f. a = Throw f) \<or> a = Hang) (snd (execute rq))"
  by (auto simp: execute_def request_on_finish_def start_unless_cancelled_def
       is_callback_def ends_chain_def split: option.split)

lemma external_end_kinds:
  "list_all (\<lambda>a. ends_chain a \<longrightarrow> is_callback a \<or> (\<exists>f. a = Throw f) \<or> a = Hang) (snd (request_external e rq))"
  by (cases e) (simp add: ends_chain_def)

lemma run_end_kinds:
  assumes "request_run evs rq = (p, s, tr)"
  shows "list_all (\<lambda>a. ends_chain a \<longrightarrow> is_callback a \<or> (\<exists>f. a = Throw f) \<or> a = Hang) tr"
proof -
  obtain s0 as0 where ex: "execute rq = (s0, as0)" by (cases "execute rq")
  have "(p \<noteq> [] \<longrightarrow> True) \<and>
      list_all (\<lambda>a. ends_chain a \<longrightarrow> is_callback a \<or> (\<exists>f. a = Throw f) \<or> a = Hang) tr"
    by (rule rq.run_invariant [where evs = evs and p = "conts as0" and s = s0 and tr = as0 and I = "\<lambda>_. True"])
       (use end_kinds external_end_kinds execute_end_kinds [of rq] execute_shape [of rq] ex assms in
          \<open>simp_all add: request_run_def chain_begin_def next_or_end_def\<close>)
  then show ?thesis by simp
qed

subsection \<open>The callback\<close>

lemma request_run_count:
  assumes "request_run evs rq = (p, s, tr)"
  shows "length p + end_count tr = 1" and "callback_count tr \<le> 1" and "callback_count tr = 1 \<Longrightarrow> p = []"
proof -
  show count: "length p + end_count tr = 1"
    using rq.exactly_one [OF execute_shape] assms by (simp add: request_run_def)
  with callback_count_le [of tr] show "callback_count tr \<le> 1" by simp
  assume "callback_count tr = 1"
  with count callback_count_le [of tr] have "length p = 0" by linarith
  then show "p = []" by simp
qed

text \<open>C12: However completions and calls of \<^verbatim>\<open>cancel\<close> interleave, the user's callback of a request runs at most
  once, and once it has run (or an exception has left a handler) no operation of the request waits.\<close>

theorem callback_at_most_once:
  assumes "request_run evs rq = (p, s, tr)"
  shows "length p + end_count tr = 1 \<and> callback_count tr \<le> 1 \<and> (callback_count tr = 1 \<longrightarrow> p = [])"
  using request_run_count [OF assms] by blast

definition demo_request :: http_request where
  "demo_request = set_callback (Some 7) (set_uri ''/a'' (set_host ''h'' (create_request 1)))"

definition ok_result :: "bytes \<Rightarrow> request_result" where
  "ok_result d = \<lparr>rr_ec = no_error, rr_data = d, rr_shutdown = no_error\<rparr>"

definition failed_result :: "error_code \<Rightarrow> request_result" where
  "failed_result ec = \<lparr>rr_ec = ec, rr_data = [], rr_shutdown = no_error\<rparr>"

lemma result_sel [simp]:
  "rr_ec (ok_result d) = no_error" "rr_data (ok_result d) = d" "rr_shutdown (ok_result d) = no_error"
  "rr_ec (failed_result ec) = ec" "rr_data (failed_result ec) = []" "rr_shutdown (failed_result ec) = no_error"
  by (simp_all add: ok_result_def failed_result_def)

lemma demo_request_run:
  "\<exists>s tr. request_run [Completes 0 (failed_result asio_eof)] demo_request = ([], s, tr) \<and> callback_count tr = 1"
  by (simp add: request_run_def chain_begin_def execute_def start_unless_cancelled_def chain_step_def
      request_step_def on_host_name_resolved_def request_on_finish_def demo_request_def create_request_def
      set_callback_def set_uri_def set_host_def DEFAULT_PORT_def)

theorem callback_at_most_once_witness:
  "\<exists>p s tr. request_run [Completes 0 (failed_result asio_eof)] demo_request = (p, s, tr) \<and>
     callback_count tr = 1 \<and> length p + end_count tr = 1"
proof -
  obtain s tr where run: "request_run [Completes 0 (failed_result asio_eof)] demo_request = ([], s, tr)"
    and cb: "callback_count tr = 1" using demo_request_run by blast
  show ?thesis using run cb callback_at_most_once [OF run] by blast
qed

text \<open>C14: A request ends after at most six completions, and then its callback has run exactly once unless an
  exception left a handler or a handler hangs.\<close>

theorem request_completes:
  assumes "request_run evs rq = (p, s, tr)" and "6 \<le> completions evs"
  shows "p = [] \<and> (callback_count tr = 1 \<or> (\<exists>f. Throw f \<in> set tr) \<or> Hang \<in> set tr)"
proof -
  have run: "chain_run request_step request_external evs (chain_begin (execute rq)) = (p, s, tr)"
    using assms(1) by (simp add: request_run_def)
  note ended = rq.ends_within_bound [OF execute_shape run assms(2)]
  show ?thesis
  proof (cases "(\<exists>f. Throw f \<in> set tr) \<or> Hang \<in> set tr")
    case False
    with run_end_kinds [OF assms(1)] have "list_all (\<lambda>a. ends_chain a \<longrightarrow> is_callback a) tr"
      by (auto simp: list_all_iff)
    with ended show ?thesis by (simp add: callback_if_ended)
  qed (use ended in simp)
qed

theorem request_completes_witness:
  "\<exists>s tr. request_run (replicate 6 (Completes 0 (failed_result asio_eof))) demo_request = ([], s, tr) \<and>
     (callback_count tr = 1 \<or> (\<exists>f. Throw f \<in> set tr) \<or> Hang \<in> set tr)"
proof -
  have "6 \<le> completions (replicate 6 (Completes 0 (failed_result asio_eof)))"
    by (simp add: numeral_eq_Suc)
  then show ?thesis
    using request_completes [of "replicate 6 (Completes 0 (failed_result asio_eof))" demo_request]
    by (cases "request_run (replicate 6 (Completes 0 (failed_result asio_eof))) demo_request") simp
qed

text \<open>A request starts its operations in the order of the protocol (resolve, connect, write, read the
  status line, read the header fields, read the body) and none of them twice, whatever completes and whoever cancels.\<close>

theorem request_protocol_order:
  assumes "request_run evs rq = (p, s, tr)"
  shows "sorted_wrt (<) (conts tr)"
  using rq.starts_in_order [OF execute_shape] assms
  by (simp add: request_run_def less_request_handler_def [abs_def])

theorem request_protocol_order_witness:
  "\<exists>p s tr. request_run [Completes 0 (ok_result [])] demo_request = (p, s, tr) \<and>
     conts tr = [On_Host_Name_Resolved, On_Connection_Established] \<and> sorted_wrt (<) (conts tr)"
proof -
  obtain p s tr where run: "request_run [Completes 0 (ok_result [])] demo_request = (p, s, tr)"
    and c: "conts tr = [On_Host_Name_Resolved, On_Connection_Established]"
    by (simp add: request_run_def chain_begin_def execute_def start_unless_cancelled_def chain_step_def
        request_step_def on_host_name_resolved_def demo_request_def create_request_def
        set_callback_def set_uri_def set_host_def DEFAULT_PORT_def)
  from run c request_protocol_order [OF run] show ?thesis by blast
qed

subsection \<open>Cancellation\<close>

lemma fst_finish_start [simp]:
  "fst (request_on_finish ec rq) = rq" "fst (start_unless_cancelled k op rq) = rq"
  by (simp_all add: request_on_finish_def start_unless_cancelled_def)

lemma set_buf_cancelled [simp]: "m_was_cancelled (set_buf st rq) = m_was_cancelled rq"
  by (simp add: set_buf_def)

lemma cancelled_step:
  assumes "m_was_cancelled rq"
  shows "conts (snd (request_step k r rq)) = [] \<and> m_was_cancelled (fst (request_step k r rq))"
  using assms
  by (cases k)
     (simp_all add: request_step_def request_handler_defs Let_def case_prod_beta
       split: sum.split option.split)

lemma external_cancelled: "m_was_cancelled (fst (request_external e rq))"
  by (cases e) simp

lemma cancelled_run:
  assumes "m_was_cancelled s" and "length p \<le> 1"
    and "chain_run request_step request_external evs (p, s, tr) = (p', s', tr')"
  shows "conts tr' = conts tr \<and> length p' \<le> length p - completions evs"
  using assms
proof (induction evs arbitrary: p s tr)
  case Nil
  then show ?case by simp
next
  case (Cons ev evs)
  obtain p1 s1 tr1 where st: "chain_step request_step request_external ev (p, s, tr) = (p1, s1, tr1)"
    by (cases "chain_step request_step request_external ev (p, s, tr)")
  have step: "m_was_cancelled s1 \<and> conts tr1 = conts tr \<and>
      length p1 \<le> length p - completions [ev] \<and> length p1 \<le> 1"
  proof (cases ev)
    case (Completes i r)
    with st Cons.prems(1,2) cancelled_step [of s "p ! i" r] show ?thesis
      by (cases "request_step (p ! i) r s"; cases i)
         (auto simp: chain_step_def completions_def split: if_splits)
  next
    case (External e)
    with st Cons.prems(1,2) rq.external_quiet [of e s] external_cancelled [of e s] show ?thesis
      by (cases "request_external e s") (auto simp: chain_step_def quiet_def)
  qed
  have "completions (ev # evs) = completions [ev] + completions evs"
    by (simp add: completions_def)
  moreover have "conts tr' = conts tr1 \<and> length p' \<le> length p1 - completions evs"
    by (rule Cons.IH) (use step Cons.prems(3) st in simp_all)
  ultimately show ?case using step by simp linarith
qed

text \<open>Once \<^verbatim>\<open>cancel\<close> has returned, a request starts no further operation, whatever completes later, and it
  ends with the very next completion.\<close>

theorem cancel_stops_request:
  assumes "request_run (evs @ [External (Call_Cancel is_open ec)]) rq = (p, s, tr)"
    and "request_run (evs @ [External (Call_Cancel is_open ec)] @ later) rq = (p', s', tr')"
  shows "conts tr' = conts tr \<and> (1 \<le> completions later \<longrightarrow> p' = [])"
proof -
  let ?c = "External (Call_Cancel is_open ec)"
  obtain p0 s0 tr0 where before: "request_run evs rq = (p0, s0, tr0)" by (cases "request_run evs rq")
  with assms(1) have "s = fst (request_external (Call_Cancel is_open ec) s0)"
    by (simp add: request_run_def chain_run_append chain_step_def del: chain_run_simps(1))
       (simp add: chain_step_def)
  then have "m_was_cancelled s" by (simp add: external_cancelled)
  moreover have "length p \<le> 1"
    using rq.exactly_one [OF execute_shape] assms(1) by (fastforce simp: request_run_def)
  moreover have "chain_run request_step request_external later (p, s, tr) = (p', s', tr')"
    using assms by (simp add: request_run_def chain_run_append [of _ _ "evs @ [?c]" later, simplified])
  ultimately have "conts tr' = conts tr \<and> length p' \<le> length p - completions later"
    by (rule cancelled_run)
  with \<open>length p \<le> 1\<close> show ?thesis by auto
qed

lemma demo_cancel_run:
  "\<exists>s tr. request_run [External (Call_Cancel True no_error)] demo_request = ([On_Host_Name_Resolved], s, tr) \<and>
     conts tr = [On_Host_Name_Resolved]"
  by (simp add: request_run_def chain_begin_def execute_def start_unless_cancelled_def chain_step_def
      demo_request_def create_request_def set_callback_def set_uri_def set_host_def DEFAULT_PORT_def)

theorem cancel_stops_request_witness:
  "\<exists>s tr. request_run [External (Call_Cancel True no_error), Completes 0 (ok_result [])] demo_request = ([], s, tr) \<and>
     conts tr = [On_Host_Name_Resolved]"
proof -
  obtain s tr where run: "request_run [External (Call_Cancel True no_error)] demo_request
      = ([On_Host_Name_Resolved], s, tr)" and c: "conts tr = [On_Host_Name_Resolved]"
    using demo_cancel_run by blast
  obtain p' s' tr' where later: "request_run ([] @ [External (Call_Cancel True no_error)] @ [Completes 0 (ok_result [])])
      demo_request = (p', s', tr')"
    by (cases "request_run ([] @ [External (Call_Cancel True no_error)] @ [Completes 0 (ok_result [])]) demo_request")
  have "conts tr' = conts tr \<and> (1 \<le> completions [Completes 0 (ok_result []) :: (request_result, request_call) event] \<longrightarrow> p' = [])"
    by (rule cancel_stops_request [OF _ later]) (use run in simp)
  with later c show ?thesis by simp
qed

text \<open>A cancelled request reports \<^verbatim>\<open>operation_aborted\<close> from whichever of its first three handlers runs next
  (the operation's own error, when it has one, is passed on instead); cancelled before \<^verbatim>\<open>execute\<close>, it
  reports it at once and resolves nothing.\<close>

theorem cancelled_request_reports_abort:
  assumes "m_was_cancelled rq" and "m_callback rq = Some cb" and "\<not> is_error (rr_shutdown r)"
    and "k \<in> {On_Host_Name_Resolved, On_Connection_Established, On_Request_Sent}"
    and "m_port rq > 0" and "m_host rq \<noteq> []" and "m_uri rq \<noteq> []"
  shows "(\<exists>rq'. last (snd (request_step k r rq)) =
      Callback (cb, rq', if is_error (rr_ec r) then rr_ec r else operation_aborted)) \<and>
    snd (execute rq) = [Log operation_aborted, Callback (cb, rq, operation_aborted)]"
  using assms
  by (auto simp: request_step_def request_handler_defs execute_def start_unless_cancelled_def
      request_on_finish_def Let_def)

theorem cancelled_request_reports_abort_witness:
  "snd (execute (demo_request\<lparr>m_was_cancelled := True\<rparr>)) =
     [Log operation_aborted, Callback (7, demo_request\<lparr>m_was_cancelled := True\<rparr>, operation_aborted)]"
  using cancelled_request_reports_abort [of "demo_request\<lparr>m_was_cancelled := True\<rparr>" 7 "ok_result []" On_Request_Sent]
  by (simp add: demo_request_def create_request_def set_callback_def set_uri_def set_host_def DEFAULT_PORT_def)

subsection \<open>The status line\<close>

definition status_line :: "string \<Rightarrow> string \<Rightarrow> bytes" where
  "status_line code msg = ''HTTP/1.1 '' @ code @ '' '' @ msg"

lemma to_dec_word: "to_dec n \<noteq> [] \<and> (\<forall>c \<in> set (to_dec n). \<not> is_space c)"
  using to_dec_digits [of n] is_digit_not_space by auto

lemma status_line_words:
  assumes "code \<noteq> []" and "\<forall>c \<in> set code. \<not> is_space c"
  shows "extract_word (open_istream (status_line code msg @ CRLF @ rest)) str
      = (''HTTP/1.1'', open_istream (CHR '' '' # code @ CHR '' '' # msg @ CRLF @ rest))"
    and "extract_word (open_istream (CHR '' '' # code @ CHR '' '' # msg @ CRLF @ rest)) str
      = (code, open_istream (CHR '' '' # msg @ CRLF @ rest))"
proof -
  show "extract_word (open_istream (status_line code msg @ CRLF @ rest)) str
      = (''HTTP/1.1'', open_istream (CHR '' '' # code @ CHR '' '' # msg @ CRLF @ rest))"
    using first_word [of "''HTTP/1.1''" "CHR '' ''" "code @ CHR '' '' # msg @ CRLF @ rest" str]
    by (simp add: status_line_def)
  show "extract_word (open_istream (CHR '' '' # code @ CHR '' '' # msg @ CRLF @ rest)) str
      = (code, open_istream (CHR '' '' # msg @ CRLF @ rest))"
    using next_word [of code "CHR '' ''" "CHR '' ''" "msg @ CRLF @ rest" str] assms by simp
qed

lemma status_line_step:
  assumes "\<not> is_error (rr_ec r)" and "n < 2 ^ 64" and "CR \<notin> set msg"
    and "m_response_buf (m_response rq) @ rr_data r = status_line (to_dec n) msg @ CRLF @ rest"
  shows "request_step On_Status_Line_Received r rq =
    start_unless_cancelled On_Response_Headers_Received (Async_Read_Until (CRLF @ CRLF))
      (rq\<lparr>m_response := (m_response rq)\<lparr>m_response_buf := rest, m_status_code := Some (word_of_nat n),
         m_status_message := CHR '' '' # msg\<rparr>\<rparr>)"
proof -
  have code: "(ucast (word_of_nat n :: 64 word) :: u32) = word_of_nat n"
    using assms(2) by (simp add: unsigned_of_nat take_bit_nat_eq_self)
  have line: "getline CR (open_istream (CHR '' '' # msg @ CRLF @ rest)) []
      = (CHR '' '' # msg, open_istream (LF # rest))"
    using read_line_simp [of "CHR '' '' # msg" rest "[]"] assms(3) by simp
  have buf: "m_response_buf ((m_response rq)\<lparr>m_response_buf := m_response_buf (m_response rq) @ rr_data r\<rparr>)
      = status_line (to_dec n) msg @ CRLF @ rest" using assms(4) by simp
  note w = status_line_words [of "to_dec n" msg rest "[]"] to_dec_word [of n]
  show ?thesis
    using assms(1) w
    by (simp add: request_step_def on_status_line_received_def buf stoul_to_dec [OF assms(2)] line
        code set_buf_def set_status_code_def set_status_message_def del: append_Cons append.simps)
qed

text \<open>A status line with the decimal code \<open>n\<close> is parsed to the code modulo \<open>2 ^ 32\<close> (\<^verbatim>\<open>stoul\<close> has 64 bits,
  the member 32), the rest of the line with its leading blank becomes the message, the bytes after the
  line stay in the buffer, and the header fields are read next.\<close>

theorem status_line_parsed:
  assumes "\<not> is_error (rr_ec r)" and "\<not> m_was_cancelled rq" and "n < 2 ^ 64" and "CR \<notin> set msg"
    and "m_response_buf (m_response rq) @ rr_data r = status_line (to_dec n) msg @ CRLF @ rest"
  shows "request_step On_Status_Line_Received r rq =
      (rq\<lparr>m_response := (m_response rq)\<lparr>m_response_buf := rest, m_status_code := Some (word_of_nat n),
         m_status_message := CHR '' '' # msg\<rparr>\<rparr>,
       [Start On_Response_Headers_Received (Async_Read_Until (CRLF @ CRLF))]) \<and>
     unat (word_of_nat n :: u32) = n mod 2 ^ 32"
  using status_line_step [OF assms(1,3-5)] assms(2)
  by (simp add: start_unless_cancelled_def unsigned_of_nat take_bit_eq_mod)

theorem status_line_parsed_witness:
  "fst (request_step On_Status_Line_Received (ok_result (''HTTP/1.1 4294967496 OK'' @ CRLF)) demo_request) =
      demo_request\<lparr>m_response := new_response\<lparr>m_response_buf := [], m_status_code := Some 200,
         m_status_message := '' OK''\<rparr>\<rparr>"
proof -
  have d: "to_dec 4294967496 = ''4294967496''" by (simp add: to_dec_eval)
  have w: "(word_of_nat 4294967496 :: u32) = 200" by simp
  show ?thesis
    using status_line_parsed [of "ok_result (''HTTP/1.1 4294967496 OK'' @ CRLF)" demo_request 4294967496 "''OK''" "[]"]
    by (simp add: d w status_line_def demo_request_def create_request_def set_callback_def set_uri_def
        set_host_def new_response_def)
qed

text \<open>When the first word of the response is not \<^verbatim>\<open>HTTP/1.1\<close>, or the second does not start as a number, the
  request ends with the error \<^verbatim>\<open>invalid_response\<close> of its own category.\<close>

theorem malformed_status_line:
  assumes "\<not> is_error (rr_ec r)" and "is_word v" and "is_word code" and "m_callback rq = Some cb"
    and "m_response_buf (m_response rq) @ rr_data r = v @ '' '' @ code @ '' '' @ msg @ CRLF @ rest"
    and "v \<noteq> ''HTTP/1.1'' \<or> \<not> is_digit (hd code) \<and> hd code \<notin> {CHR ''+'', CHR ''-''}"
  shows "\<exists>rq'. snd (request_step On_Status_Line_Received r rq) =
    [Log (make_error_code invalid_response), Callback (cb, rq', make_error_code invalid_response)]"
proof -
  let ?m = "(m_response rq)\<lparr>m_response_buf := m_response_buf (m_response rq) @ rr_data r\<rparr>"
  have v: "v \<noteq> []" "\<forall>c \<in> set v. \<not> is_space c" and c: "code \<noteq> []" "\<forall>c \<in> set code. \<not> is_space c"
    using assms(2,3) by (simp_all add: is_word_def)
  have w1: "extract_word (open_istream (m_response_buf ?m)) []
      = (v, open_istream (CHR '' '' # code @ CHR '' '' # msg @ CRLF @ rest))"
    using first_word [OF v, of "CHR '' ''" "code @ CHR '' '' # msg @ CRLF @ rest" "[]"] assms(5) by simp
  have w2: "extract_word (open_istream (CHR '' '' # code @ CHR '' '' # msg @ CRLF @ rest)) []
      = (code, open_istream (CHR '' '' # msg @ CRLF @ rest))"
    using next_word [OF c, of "CHR '' ''" "CHR '' ''" "msg @ CRLF @ rest" "[]"] by simp
  show ?thesis
  proof (cases "v = ''HTTP/1.1''")
    case False
    then show ?thesis
      using assms(1,4) w1
      by (simp add: request_step_def on_status_line_received_def request_on_finish_def set_buf_def)
  next
    case True
    obtain d ds where code: "code = d # ds" using c(1) by (cases code) auto
    with True assms(6) c(2) have "stoul code = Inl Invalid_Argument"
      by (auto simp: stoul_def)
    with True show ?thesis
      using assms(1,4) w1 w2
      by (simp add: request_step_def on_status_line_received_def request_on_finish_def set_buf_def)
  qed
qed

theorem malformed_status_line_witness:
  "\<exists>rq'. snd (request_step On_Status_Line_Received (ok_result (''HTTP/1.0 200 OK'' @ CRLF)) demo_request) =
    [Log (make_error_code invalid_response), Callback (7, rq', make_error_code invalid_response)]"
  using malformed_status_line [of "ok_result (''HTTP/1.0 200 OK'' @ CRLF)" "''HTTP/1.0''" "''200''" demo_request 7 "''OK''" "[]"]
  by (simp add: is_word_def is_space_def demo_request_def create_request_def set_callback_def set_uri_def
        set_host_def new_response_def)

subsection \<open>The header fields\<close>

lemma response_header_loop_line:
  assumes "CR \<notin> set l" and "l \<noteq> []"
  shows "response_header_loop (open_istream (l @ CRLF @ t)) h rsp
     = response_header_loop (open_istream t) l (add_header_line l rsp)"
proof -
  have "read_crlf_line (open_istream (l @ CRLF @ t)) h = (l, open_istream t)"
    by (rule crlf.read_open [OF assms(1)])
  then show ?thesis
    using assms(2)
    by (subst response_header_loop.simps) (simp add: read_crlf_line_def Let_def split: prod.splits)
qed

lemma response_header_loop_end:
  "response_header_loop (open_istream (CRLF @ t)) h rsp = Some (open_istream t, rsp)"
  using crlf.read_open [of "[]" t h]
  by (subst response_header_loop.simps) (simp add: read_crlf_line_def Let_def split: prod.splits)

lemma add_header_line_field:
  assumes "CHR '':'' \<notin> set n"
  shows "add_header_line (n @ CHR '':'' # v) rsp = add_header n v rsp"
  using assms by (simp add: add_header_line_def takeWhile_neq_delim)

text \<open>A field for the client: the name has neither colon nor CR, the value no CR.\<close>

definition clean_response_header :: "string \<times> string \<Rightarrow> bool" where
  "clean_response_header nv \<longleftrightarrow> CHR '':'' \<notin> set (fst nv) \<and> CR \<notin> set (fst nv) \<and> CR \<notin> set (snd nv)"

lemma response_header_loop_block:
  assumes "\<forall>nv \<in> set hs. clean_response_header nv"
  shows "response_header_loop (open_istream (header_block hs @ CRLF @ t)) h rsp
     = Some (open_istream t, rsp\<lparr>m_headers := m_headers rsp ++ map_of (rev hs)\<rparr>)"
  using assms
proof (induction hs arbitrary: h rsp)
  case Nil
  then show ?case using response_header_loop_end by simp
next
  case (Cons nv hs)
  obtain n v where nv: "nv = (n, v)" by (cases nv)
  with Cons.prems have clean: "CR \<notin> set (n @ CHR '':'' # v)" and colon: "CHR '':'' \<notin> set n"
    by (simp_all add: clean_response_header_def)
  have "response_header_loop (open_istream ((n @ CHR '':'' # v) @ CRLF @ header_block hs @ CRLF @ t)) h rsp
      = response_header_loop (open_istream (header_block hs @ CRLF @ t)) (n @ CHR '':'' # v)
          (add_header_line (n @ CHR '':'' # v) rsp)"
    by (rule response_header_loop_line [OF clean]) simp
  with Cons colon show ?case
    by (simp add: nv header_line_def add_header_line_field add_header_def)
qed

text \<open>On a block of well-formed header fields and an empty line, every field is stored (the last of equal
  names wins), what follows the empty line stays in the buffer as the start of the body, and the body
  is read next.\<close>

theorem response_headers_parsed:
  assumes "\<not> is_error (rr_ec r)" and "\<not> m_was_cancelled rq"
    and "\<forall>nv \<in> set hs. clean_response_header nv"
    and "m_response_buf (m_response rq) @ rr_data r = header_block hs @ CRLF @ body"
  shows "request_step On_Response_Headers_Received r rq =
     (rq\<lparr>m_response := (m_response rq)\<lparr>m_headers := m_headers (m_response rq) ++ map_of (rev hs),
        m_response_buf := body\<rparr>\<rparr>,
      [Start On_Response_Body_Received Async_Read])"
  using assms(1,2,4)
  by (simp add: request_step_def request_on_headers_received_def response_header_loop_block [OF assms(3)]
      start_unless_cancelled_def del: append_Cons append.simps)

theorem response_headers_parsed_witness:
  "m_headers (m_response (fst (request_step On_Response_Headers_Received
      (ok_result (''a:b'' @ CRLF @ ''c:'' @ CRLF @ CRLF @ ''xy'')) demo_request))) = [''a'' \<mapsto> ''b'', ''c'' \<mapsto> []]"
  using response_headers_parsed [of "ok_result (''a:b'' @ CRLF @ ''c:'' @ CRLF @ CRLF @ ''xy'')" demo_request
      "[(''a'', ''b''), (''c'', [])]" "''xy''"]
  by (simp add: clean_response_header_def header_line_def demo_request_def create_request_def set_callback_def
      set_uri_def set_host_def new_response_def)

text \<open>
  When the end of the buffer is met in the middle of a line, \<^verbatim>\<open>header\<close> keeps its last value in every
  later round, because a failed sentry leaves the string alone: the loop never sees an empty line.
\<close>

lemma response_header_loop_stuck:
  assumes "response_header_loop st header rsp = Some res"
  shows "good st \<or> header = []"
proof (rule response_header_loop.raw_induct [where P = "\<lambda>st header rsp res. good st \<or> header = []", OF _ assms])
  fix f st header rsp res
  assume IH: "\<And>st header rsp res. f st header rsp = Some res \<Longrightarrow> good st \<or> header = []"
    and eq: "(let (header1, st1) = getline CR st header; st2 = get_char st1
       in if header1 = [] then Some (st2, rsp) else f st2 header1 (add_header_line header1 rsp)) = Some res"
  show "good st \<or> header = []"
  proof (rule ccontr)
    assume "\<not> (good st \<or> header = [])"
    then have bad: "\<not> good st" and ne: "header \<noteq> []" by simp_all
    then have "f (get_char (st\<lparr>failbit := True\<rparr>)) header (add_header_line header rsp) = Some res"
      using eq by (simp add: getline_not_good)
    from IH [OF this] ne show False by (simp add: get_char_def good_def)
  qed
qed

text \<open>A line as the reader takes it: up to the next CR, with the CR and whatever one byte follows it.\<close>

definition reader_line :: "bytes \<Rightarrow> bool" where
  "reader_line x \<longleftrightarrow> (\<exists>l c. x = l @ [CR, c] \<and> l \<noteq> [] \<and> CR \<notin> set l)"

text \<open>The rounds of the loop on a buffer, and whether they come to an end.\<close>

function header_ends :: "bytes \<Rightarrow> bool" where
  "header_ends b =
     (case dropWhile (\<lambda>c. c \<noteq> CR) b of
        [] \<Rightarrow> b = []
      | _ # t \<Rightarrow> takeWhile (\<lambda>c. c \<noteq> CR) b = [] \<or> (case t of [] \<Rightarrow> False | _ # u \<Rightarrow> header_ends u))"
  by auto
termination
proof (relation "measure length")
  fix b u :: bytes and x y t assume "dropWhile (\<lambda>c. c \<noteq> CR) b = x # t" and "t = y # u"
  then have "length (x # y # u) \<le> length b" using length_dropWhile_le [of "\<lambda>c. c \<noteq> CR" b] by simp
  then show "(u, b) \<in> measure length" by simp
qed simp

declare header_ends.simps [simp del]

lemma header_ends_line: "CR \<notin> set l \<Longrightarrow> l \<noteq> [] \<Longrightarrow> header_ends (l @ CR # c # u) = header_ends u"
  by (subst header_ends.simps) (simp add: takeWhile_neq_delim dropWhile_neq_delim)

lemma header_ends_empty: "header_ends []" "header_ends (CR # t)"
  by (subst header_ends.simps, simp)+

lemma header_ends_not: "CR \<notin> set l \<Longrightarrow> l \<noteq> [] \<Longrightarrow> \<not> header_ends l" "CR \<notin> set l \<Longrightarrow> l \<noteq> [] \<Longrightarrow> \<not> header_ends (l @ [CR])"
  by (subst header_ends.simps, simp add: takeWhile_neq_delim dropWhile_neq_delim takeWhile_neq_all dropWhile_neq_all)+

text \<open>Every buffer has one of five beginnings.\<close>

lemma buffer_cases:
  obtains "b = []" | t where "b = CR # t" | l c u where "b = l @ CR # c # u" "CR \<notin> set l" "l \<noteq> []"
    | l where "b = l" "CR \<notin> set l" "l \<noteq> []" | l where "b = l @ [CR]" "CR \<notin> set l" "l \<noteq> []"
proof (cases "CR \<in> set b")
  case True
  then obtain l t where b: "b = l @ CR # t" "CR \<notin> set l" by (meson split_list_first)
  show thesis
  proof (cases "l = []")
    case True
    with b that(2) show thesis by simp
  next
    case False
    with b that(3,5) show thesis by (cases t) blast+
  qed
next
  case False
  with that show thesis by (cases "b = []") auto
qed

lemma header_ends_iff:
  "header_ends b \<longleftrightarrow> (\<exists>ls. list_all reader_line ls \<and> (b = concat ls \<or> (\<exists>rest. b = concat ls @ CR # rest)))"
proof
  show "header_ends b \<Longrightarrow> \<exists>ls. list_all reader_line ls \<and> (b = concat ls \<or> (\<exists>rest. b = concat ls @ CR # rest))"
  proof (induction b rule: measure_induct_rule [of length])
    case (less b)
    show ?case
    proof (cases b rule: buffer_cases)
      case (3 l c u)
      with less.prems have "header_ends u" by (simp add: header_ends_line)
      with less.IH [of u] 3 obtain ls where "list_all reader_line ls" "u = concat ls \<or> (\<exists>rest. u = concat ls @ CR # rest)" by auto
      moreover have "reader_line (l @ [CR, c])" using 3 by (auto simp: reader_line_def)
      ultimately show ?thesis using 3 by (intro exI [of _ "(l @ [CR, c]) # ls"]) auto
    qed (use less.prems header_ends_not in \<open>auto intro: exI [of _ "[]"]\<close>)
  qed
  assume "\<exists>ls. list_all reader_line ls \<and> (b = concat ls \<or> (\<exists>rest. b = concat ls @ CR # rest))"
  then obtain ls where "list_all reader_line ls" "b = concat ls \<or> (\<exists>rest. b = concat ls @ CR # rest)" by blast
  then show "header_ends b"
    by (induction ls arbitrary: b) (auto simp: reader_line_def header_ends_line header_ends_empty)
qed

lemma response_header_loop_ends:
  "response_header_loop (open_istream b) h rsp \<noteq> None \<longleftrightarrow> header_ends b"
proof (induction b arbitrary: h rsp rule: measure_induct_rule [of length])
  case (less b)
  have stuck: "response_header_loop \<lparr>rdbuf = [], eofbit = True, failbit = True\<rparr> l r = None" if "l \<noteq> []" for l r
    using response_header_loop_stuck [of "\<lparr>rdbuf = [], eofbit = True, failbit = True\<rparr>" l r] that
    by (cases "response_header_loop \<lparr>rdbuf = [], eofbit = True, failbit = True\<rparr> l r") (auto simp: good_def)
  show ?case
  proof (cases b rule: buffer_cases)
    case 1
    then show ?thesis by (subst response_header_loop.simps) (simp add: getline_open_eof header_ends_empty)
  next
    case (2 t)
    then show ?thesis using getline_delim [of "open_istream (CR # t)" "[]" CR t]
      by (subst response_header_loop.simps) (simp add: header_ends_empty)
  next
    case (3 l c u)
    then have "response_header_loop (open_istream b) h rsp = response_header_loop (open_istream u) l (add_header_line l rsp)"
      by (subst response_header_loop.simps) (simp add: stream_simps)
    with less.IH [of u] 3 show ?thesis by (simp add: header_ends_line)
  next
    case (4 l)
    then show ?thesis using stuck [of l] header_ends_not
      by (subst response_header_loop.simps) (simp add: getline_open_eof get_char_not_good)
  next
    case (5 l)
    then have "response_header_loop (open_istream b) h rsp
        = response_header_loop \<lparr>rdbuf = [], eofbit = True, failbit = True\<rparr> l (add_header_line l rsp)"
      by (subst response_header_loop.simps) (simp add: stream_simps, simp add: open_istream_def)
    with 5 stuck [of l] header_ends_not show ?thesis by simp
  qed
qed

text \<open>C34: The header loop of the client returns exactly when the buffer is a sequence of lines, each non-empty, ended by the
  next CR and one byte of any kind, after which the buffer is at its end or at a CR; otherwise it spins, the handler never returns
  and the I/O thread is lost. The loop decides this by counting bytes after each CR and never looks at the state of the
  stream, so that the empty line, which is all that \<^verbatim>\<open>async_read_until\<close> has waited for, need not be met.\<close>

theorem response_header_loop_ends_iff:
  assumes "\<not> is_error (rr_ec r)"
  shows "snd (request_step On_Response_Headers_Received r rq) \<noteq> [Hang] \<longleftrightarrow>
    (\<exists>ls. list_all reader_line ls \<and>
       (m_response_buf (m_response rq) @ rr_data r = concat ls \<or>
        (\<exists>rest. m_response_buf (m_response rq) @ rr_data r = concat ls @ CR # rest)))"
proof -
  let ?b = "m_response_buf (m_response rq) @ rr_data r"
  have "snd (request_step On_Response_Headers_Received r rq) \<noteq> [Hang] \<longleftrightarrow>
      response_header_loop (open_istream ?b) [] ((m_response rq)\<lparr>m_response_buf := ?b\<rparr>) \<noteq> None"
    using assms by (auto simp: request_step_def request_on_headers_received_def start_unless_cancelled_def request_on_finish_def Let_def
        split: option.split prod.split)
  then show ?thesis unfolding response_header_loop_ends header_ends_iff .
qed

text \<open>A malformed block in which \<^verbatim>\<open>async_read_until\<close> has found the empty line, and on which the loop spins: a line that ends in
  CR CR LF shifts the reader by one byte.\<close>

lemma malformed_block_never_ends:
  assumes "CR \<notin> set l" and "l \<noteq> []" and "CR \<notin> set body" and "body \<noteq> []"
  shows "sublist (CRLF @ CRLF) (l @ [CR] @ CRLF @ CRLF @ body)" and "\<not> header_ends (l @ [CR] @ CRLF @ CRLF @ body)"
proof -
  show "sublist (CRLF @ CRLF) (l @ [CR] @ CRLF @ CRLF @ body)"
    using sublist_appendI [of "CRLF @ CRLF" "l @ [CR]" body] by simp
  show "\<not> header_ends (l @ [CR] @ CRLF @ CRLF @ body)"
    using header_ends_line [OF assms(1,2), of CR "LF # CRLF @ body"] header_ends_line [of "[LF]" LF body] header_ends_not(1) [OF assms(3,4)]
    by simp
qed

text \<open>On well-formed blocks it ends.\<close>

lemma well_formed_block_ends:
  assumes "\<forall>nv \<in> set hs. clean_response_header nv"
  shows "header_ends (header_block hs @ CRLF @ body)"
  using response_header_loop_block [OF assms] response_header_loop_ends by (metis option.distinct(1))

theorem response_header_loop_ends_iff_witness:
  "snd (request_step On_Response_Headers_Received
     (ok_result (''a:b'' @ [CR] @ CRLF @ CRLF @ ''body'')) demo_request) = [Hang]"
proof -
  have "\<not> header_ends (''a:b'' @ [CR] @ CRLF @ CRLF @ ''body'')" by (rule malformed_block_never_ends) simp_all
  moreover have "m_response_buf (m_response demo_request) = []"
    by (simp add: demo_request_def create_request_def set_callback_def set_uri_def set_host_def new_response_def)
  ultimately show ?thesis
    using response_header_loop_ends_iff [of "ok_result (''a:b'' @ [CR] @ CRLF @ CRLF @ ''body'')" demo_request, folded header_ends_iff]
    by simp
qed

end
