(* ===== verification/Http_Exchange.thy ===== *)
theory Http_Exchange
  imports Http_Service_Properties Http_Client_Properties
begin

section \<open>HTTP client against HTTP server\<close>

text \<open>
  The two programs of chapter 5 together: the bytes that one writes are the bytes that the other's
  handlers read, cut anywhere between the reads. A request round trip, a response round trip, and the
  bare error responses, which the server sends but the client cannot read.
\<close>

subsection \<open>From the client to the server\<close>

definition request_bytes :: "string \<Rightarrow> string \<Rightarrow> bytes" where
  "request_bytes uri host =
     request_line ''GET'' uri ''HTTP/1.1'' @ CRLF @ header_block [(''Host'', CHR '' '' # host)] @ CRLF"

lemma request_message:
  assumes "\<not> is_error (rr_ec r)" and "\<not> m_was_cancelled rq" and "m_request_buf rq = []"
  shows "snd (request_step On_Connection_Established r rq) =
    [Start On_Request_Sent (Async_Write [request_bytes (m_uri rq) (m_host rq)])]"
  using assms
  by (simp add: request_step_def on_connection_established_def start_unless_cancelled_def Let_def
      request_bytes_def request_line_def header_line_def)

lemma send_response_frame [simp]:
  "m_requested_resource (fst (send_response env s)) = m_requested_resource s"
  "m_request_headers (fst (send_response env s)) = m_request_headers s"
  by (simp_all add: send_response_def Let_def split: option.split)

lemma process_request_frame:
  "process_request env s = (s', f) \<Longrightarrow>
     m_requested_resource s' = m_requested_resource s \<and> m_request_headers s' = m_request_headers s"
  by (auto simp: process_request_def Let_def split: fs_entry.splits if_splits)

text \<open>C27: What the client writes after connecting is exactly what the server parses: the server's requested resource
  is the client's URI and its stored header fields are the Host field with the client's host, wherever
  the stream is cut between the server's two reads and whatever its file system answers.\<close>

theorem request_roundtrip:
  assumes "\<not> is_error (rr_ec r)" and "\<not> m_was_cancelled rq" and "m_request_buf rq = []"
    and "is_word (m_uri rq)" and "CR \<notin> set (m_host rq)"
    and "\<not> is_error (res_ec r1)" and "\<not> is_error (res_ec r2)"
    and "res_data r1 = request_line ''GET'' (m_uri rq) ''HTTP/1.1'' @ CRLF @ a"
    and "res_data r1 @ res_data r2 = written (snd (request_step On_Connection_Established r rq))"
    and "service_run [Completes 0 r1, Completes 0 r2] = (p, s, tr)"
  shows "m_requested_resource s = m_uri rq \<and> m_request_headers s = [''Host'' \<mapsto> CHR '' '' # m_host rq]"
proof -
  let ?hs = "[(''Host'', CHR '' '' # m_host rq)]"
  have hs: "\<forall>nv \<in> set ?hs. clean_request_header nv"
    using assms(5) by (simp add: clean_request_header_def)
  have "a @ res_data r2 = header_block ?hs @ CRLF"
    using assms(8,9) by (simp add: request_message [OF assms(1-3)] request_bytes_def)
  note run = service_run_request [OF assms(6,7,4) hs assms(8) this]
  let ?s1 = "new_service\<lparr>m_requested_resource := m_uri rq, m_request_headers := map_of (rev ?hs)\<rparr>"
  obtain s2 f where pr: "process_request (res_env r2) ?s1 = (s2, f)"
    by (cases "process_request (res_env r2) ?s1")
  from process_request_frame [OF pr]
  have s2: "m_requested_resource s2 = m_uri rq" "m_request_headers s2 = map_of (rev ?hs)" by simp_all
  have "s = s2 \<or> s = fst (send_response (res_env r2) s2)"
    using assms(10) run pr by (cases f) (auto split: prod.splits)
  with s2 show ?thesis by auto
qed

theorem request_roundtrip_witness:
  "\<exists>p s tr. service_run [Completes 0 (demo_result (''GET /a HTTP/1.1'' @ CRLF)),
       Completes 0 (demo_result (''Host: h'' @ CRLF @ CRLF))] = (p, s, tr) \<and>
     m_requested_resource s = ''/a'' \<and> m_request_headers s = [''Host'' \<mapsto> '' h'']"
proof -
  let ?run = "service_run [Completes 0 (demo_result (''GET /a HTTP/1.1'' @ CRLF)),
       Completes 0 (demo_result (''Host: h'' @ CRLF @ CRLF))]"
  obtain p s tr where run: "?run = (p, s, tr)" by (cases ?run)
  have sel: "m_uri demo_request = ''/a''" "m_host demo_request = ''h''" "\<not> m_was_cancelled demo_request"
    "m_request_buf demo_request = []"
    by (simp_all add: demo_request_def create_request_def set_callback_def set_uri_def set_host_def)
  have "m_requested_resource s = m_uri demo_request \<and>
      m_request_headers s = [''Host'' \<mapsto> CHR '' '' # m_host demo_request]"
    by (rule request_roundtrip [where r = "ok_result []" and a = "[]", OF _ _ _ _ _ _ _ _ _ run])
       (simp_all add: sel is_word_def is_space_def request_line_def request_message request_bytes_def header_line_def)
  with run show ?thesis by (simp add: sel)
qed

subsection \<open>From the server to the client\<close>

text \<open>The client's three reads of a response, run as a chain that waits for the status line.\<close>

definition read_response ::
  "request_result \<Rightarrow> request_result \<Rightarrow> request_result \<Rightarrow> http_request \<Rightarrow> (request_handler, http_request, completion) chain_state" where
  "read_response r1 r2 r3 rq = chain_run request_step request_external
     [Completes 0 r1, Completes 0 r2, Completes 0 r3] ([On_Status_Line_Received], rq, [])"

text \<open>A file as the client must read it, and what the client makes of it.\<close>

definition file_response :: "bytes \<Rightarrow> bytes" where
  "file_response body = ''HTTP/1.1 200 OK'' @ CRLF @ ''content-length: '' @ to_dec (length body) @ CRLF @ CRLF @ body"

definition received_file :: "bytes \<Rightarrow> http_response" where
  "received_file body = \<lparr>m_status_code = Some 200, m_status_message = '' OK'',
     m_headers = [''content-length'' \<mapsto> CHR '' '' # to_dec (length body)], m_response_buf = body\<rparr>"

lemma client_reads_file:
  assumes rq: "\<not> m_was_cancelled rq" "m_callback rq = Some cb" "m_response rq = new_response"
    and reads: "\<not> is_error (rr_ec r1)" "\<not> is_error (rr_ec r2)" "rr_ec r3 = asio_eof"
      "rr_data r1 @ rr_data r2 @ rr_data r3 = file_response body"
      "rr_data r1 = ''HTTP/1.1 200 OK'' @ CRLF @ x"
      "x @ rr_data r2 = ''content-length: '' @ to_dec (length body) @ CRLF @ CRLF @ y"
  shows "chain_run request_step request_external [Completes 0 r1, Completes 0 r2, Completes 0 r3]
      ([On_Status_Line_Received], rq, tr) =
    ([], rq\<lparr>m_response := received_file body\<rparr>,
     tr @ [Start On_Response_Headers_Received (Async_Read_Until (CRLF @ CRLF)), Start On_Response_Body_Received Async_Read,
           Callback (cb, rq\<lparr>m_response := received_file body\<rparr>, no_error)])"
proof -
  have "rr_data r1 @ rr_data r2 @ rr_data r3
      = ''HTTP/1.1 200 OK'' @ CRLF @ (''content-length: '' @ to_dec (length body) @ CRLF @ CRLF @ y) @ rr_data r3"
    unfolding reads(5) reads(6) [symmetric] by simp
  with reads(4) have body: "y @ rr_data r3 = body" by (simp add: file_response_def)
  define h where "h = [(''content-length'', CHR '' '' # to_dec (length body))]"
  have clean: "\<forall>nv \<in> set h. clean_response_header nv"
    using to_dec_no_sep by (simp add: h_def clean_response_header_def)
  define rq1 where "rq1 = rq\<lparr>m_response := new_response\<lparr>m_response_buf := x, m_status_code := Some 200,
      m_status_message := '' OK''\<rparr>\<rparr>"
  have "to_dec 200 = ''200''" by (simp add: to_dec_eval)
  with status_line_step [OF reads(1), of 200 "''OK''" rq x] rq reads(5)
  have 1: "request_step On_Status_Line_Received r1 rq
      = (rq1, [Start On_Response_Headers_Received (Async_Read_Until (CRLF @ CRLF))])"
    by (simp add: status_line_def start_unless_cancelled_def rq1_def new_response_def)
  have "m_response_buf (m_response rq1) @ rr_data r2 = header_block h @ CRLF @ y"
    using reads(6) by (simp add: rq1_def h_def header_line_def)
  then have loop: "response_header_loop (open_istream (m_response_buf (m_response rq1) @ rr_data r2)) n rsp
      = Some (open_istream y, rsp\<lparr>m_headers := m_headers rsp ++ map_of (rev h)\<rparr>)" for n rsp
    using response_header_loop_block [OF clean] by simp
  define rq2 where "rq2 = rq\<lparr>m_response := (received_file body)\<lparr>m_response_buf := y\<rparr>\<rparr>"
  have 2: "request_step On_Response_Headers_Received r2 rq1 = (rq2, [Start On_Response_Body_Received Async_Read])"
    using loop reads(2) rq(1)
    by (simp add: request_step_def request_on_headers_received_def start_unless_cancelled_def)
       (simp add: rq1_def rq2_def new_response_def received_file_def h_def)
  have 3: "request_step On_Response_Body_Received r3 rq2 = (rq\<lparr>m_response := received_file body\<rparr>,
      [Callback (cb, rq\<lparr>m_response := received_file body\<rparr>, no_error)])"
    using reads(3) rq(2) body
    by (simp add: request_step_def on_response_body_received_def request_on_finish_def rq2_def received_file_def Let_def)
  show ?thesis by (simp add: chain_step_def 1 2 3)
qed

text \<open>A file that the server sends arrives whole: when the bytes of the server's 200 response reach the client
  cut anywhere between its three reads and the connection then ends, the callback gets no error, the
  status code is 200, the only header field is the content length with the file's size and the
  remaining response buffer is the file.\<close>

theorem response_roundtrip:
  assumes "\<not> is_error (res_ec q1)" and "\<not> is_error (res_ec q2)" and "is_word uri"
    and "\<forall>nv \<in> set hs. clean_request_header nv"
    and "res_data q1 = request_line ''GET'' uri ''HTTP/1.1'' @ CRLF @ a"
    and "a @ res_data q2 = header_block hs @ CRLF"
    and "\<not> is_error (env_shutdown (res_env q2))"
    and "env_fs (res_env q2) (''http_root'' @ uri) = Fs_Opened (int (length body)) body"
    and "length body < 2 ^ 64" and "env_alloc (res_env q2) (word_of_nat (length body))"
    and run: "service_run [Completes 0 q1, Completes 0 q2] = (p, s, tr)"
    and rq: "\<not> m_was_cancelled rq" "m_callback rq = Some cb" "m_response rq = new_response"
    and reads: "\<not> is_error (rr_ec r1)" "\<not> is_error (rr_ec r2)" "rr_ec r3 = asio_eof"
      "rr_data r1 @ rr_data r2 @ rr_data r3 = written tr"
      "rr_data r1 = ''HTTP/1.1 200 OK'' @ CRLF @ x"
      "x @ rr_data r2 = ''content-length: '' @ to_dec (length body) @ CRLF @ CRLF @ y"
  shows "\<exists>rq' log. read_response r1 r2 r3 rq = ([], rq', log) \<and> last log = Callback (cb, rq', no_error) \<and>
     m_response rq' = \<lparr>m_status_code = Some 200, m_status_message = '' OK'',
       m_headers = [''content-length'' \<mapsto> CHR '' '' # to_dec (length body)], m_response_buf = body\<rparr>"
proof -
  have "written tr = file_response body"
    using file_response_run [OF assms(1-10)] run by (auto simp: file_response_def)
  with reads(4) have "rr_data r1 @ rr_data r2 @ rr_data r3 = file_response body" by simp
  from client_reads_file [OF rq reads(1-3) this reads(5,6)] show ?thesis
    by (simp add: read_response_def received_file_def)
qed

theorem response_roundtrip_witness:
  "\<exists>rq' log. read_response (ok_result (''HTTP/1.1 200 OK'' @ CRLF)) (ok_result (''content-length: 2'' @ CRLF @ CRLF))
       \<lparr>rr_ec = asio_eof, rr_data = ''hi'', rr_shutdown = no_error\<rparr> demo_request = ([], rq', log) \<and>
     last log = Callback (7, rq', no_error) \<and> m_response_buf (m_response rq') = ''hi''"
proof -
  let ?q1 = "demo_result (''GET /a HTTP/1.1'' @ CRLF)" and ?q2 = "demo_result (''Host:x'' @ CRLF @ CRLF)"
  have pre: "is_word ''/a''" "\<forall>nv \<in> set [(''Host'', ''x'')]. clean_request_header nv"
    "res_data ?q1 = request_line ''GET'' ''/a'' ''HTTP/1.1'' @ CRLF @ []"
    "[] @ res_data ?q2 = header_block [(''Host'', ''x'')] @ CRLF"
    "env_fs (res_env ?q2) (''http_root'' @ ''/a'') = Fs_Opened (int (length ''hi'')) ''hi''"
    "length ''hi'' < 2 ^ 64" "env_alloc (res_env ?q2) (word_of_nat (length ''hi''))"
    by (simp_all add: is_word_def is_space_def clean_request_header_def request_line_def header_line_def demo_env_def)
  have q: "\<not> is_error (res_ec ?q1)" "\<not> is_error (res_ec ?q2)" "\<not> is_error (env_shutdown (res_env ?q2))" by simp_all
  have d2: "to_dec (Suc (Suc 0)) = ''2''" using to_dec_demo by (simp add: numeral_2_eq_2 [symmetric])
  obtain s tr where run: "service_run [Completes 0 ?q1, Completes 0 ?q2] = ([On_Response_Sent], s, tr)"
    and w: "written tr = ''HTTP/1.1 200 OK'' @ CRLF @ ''content-length: '' @ to_dec (length ''hi'') @ CRLF @ CRLF @ ''hi''"
    using file_response_run [OF q(1,2) pre(1-4) q(3) pre(5-7)] by blast
  have rq: "\<not> m_was_cancelled demo_request" "m_callback demo_request = Some 7" "m_response demo_request = new_response"
    by (simp_all add: demo_request_def create_request_def set_callback_def set_uri_def set_host_def)
  show ?thesis
    using response_roundtrip [OF q(1,2) pre(1-4) q(3) pre(5-7) run rq,
      of "ok_result (''HTTP/1.1 200 OK'' @ CRLF)" "ok_result (''content-length: 2'' @ CRLF @ CRLF)"
         "\<lparr>rr_ec = asio_eof, rr_data = ''hi'', rr_shutdown = no_error\<rparr>" "[]" "[]"] w
    by (auto simp: d2)
qed

subsection \<open>A whole exchange\<close>

text \<open>The first three completions of a request: resolved, connected, sent.\<close>

lemma client_sends_request:
  assumes rq: "m_port rq > 0" "m_host rq \<noteq> []" "m_uri rq \<noteq> []" "m_callback rq = Some cb" "\<not> m_was_cancelled rq"
      "m_request_buf rq = []"
    and ok: "\<not> is_error (rr_ec c1)" "\<not> is_error (rr_ec c2)" "\<not> is_error (rr_ec c3)" "\<not> is_error (rr_shutdown c3)"
      "rr_data c1 = []" "rr_data c2 = []" "rr_data c3 = []"
  shows "request_run (Completes 0 c1 # Completes 0 c2 # Completes 0 c3 # evs) rq =
    chain_run request_step request_external evs ([On_Status_Line_Received],
      rq\<lparr>m_request_buf := request_bytes (m_uri rq) (m_host rq)\<rparr>,
      [Start On_Host_Name_Resolved (Async_Resolve (m_host rq) (to_string_u32 (m_port rq))),
       Start On_Connection_Established Async_Connect,
       Start On_Request_Sent (Async_Write [request_bytes (m_uri rq) (m_host rq)]),
       Shutdown shutdown_send, Start On_Status_Line_Received (Async_Read_Until CRLF)])"
proof -
  have 1: "request_step On_Host_Name_Resolved c1 rq = (rq, [Start On_Connection_Established Async_Connect])"
    using rq(5) ok by (simp add: request_step_def on_host_name_resolved_def start_unless_cancelled_def)
  let ?rq = "rq\<lparr>m_request_buf := request_bytes (m_uri rq) (m_host rq)\<rparr>"
  have 2: "request_step On_Connection_Established c2 rq
      = (?rq, [Start On_Request_Sent (Async_Write [request_bytes (m_uri rq) (m_host rq)])])"
    using rq(5,6) ok by (simp add: request_step_def on_connection_established_def start_unless_cancelled_def Let_def
        request_bytes_def request_line_def header_line_def)
  have 3: "request_step On_Request_Sent c3 ?rq
      = (?rq, [Shutdown shutdown_send, Start On_Status_Line_Received (Async_Read_Until CRLF)])"
    using rq(5) ok by (simp add: request_step_def on_request_sent_def start_unless_cancelled_def)
  show ?thesis
    using rq by (simp add: request_run_def chain_begin_def execute_def start_unless_cancelled_def chain_step_def 1 2 3)
qed

text \<open>What reaches the server when the client has sent its request.\<close>

lemma client_request_received:
  assumes rq: "m_port rq > 0" "is_word (m_uri rq)" "m_host rq \<noteq> []" "CR \<notin> set (m_host rq)" "m_callback rq = Some cb"
      "\<not> m_was_cancelled rq" "m_request_buf rq = []"
    and sent: "\<not> is_error (rr_ec c1)" "\<not> is_error (rr_ec c2)" "\<not> is_error (rr_ec c3)" "\<not> is_error (rr_shutdown c3)"
      "rr_data c1 = []" "rr_data c2 = []" "rr_data c3 = []"
    and run: "request_run [Completes 0 c1, Completes 0 c2, Completes 0 c3] rq = (p1, rq1, log1)"
    and received: "res_data q1 @ res_data q2 = written log1" "res_data q1 = request_line ''GET'' (m_uri rq) ''HTTP/1.1'' @ CRLF @ a"
  shows "a @ res_data q2 = header_block [(''Host'', CHR '' '' # m_host rq)] @ CRLF"
    and "\<forall>nv \<in> set [(''Host'', CHR '' '' # m_host rq)]. clean_request_header nv"
proof -
  have "m_uri rq \<noteq> []" using rq(2) by (simp add: is_word_def)
  from client_sends_request [OF rq(1,3) this rq(5-7) sent, of "[]"] run have "written log1 = request_bytes (m_uri rq) (m_host rq)"
    by auto
  with received show "a @ res_data q2 = header_block [(''Host'', CHR '' '' # m_host rq)] @ CRLF"
    by (simp add: request_bytes_def)
  show "\<forall>nv \<in> set [(''Host'', CHR '' '' # m_host rq)]. clean_request_header nv"
    using rq(4) by (simp add: clean_request_header_def)
qed

text \<open>The whole run of the client when a file comes back.\<close>

lemma client_gets_file:
  assumes rq: "m_port rq > 0" "is_word (m_uri rq)" "m_host rq \<noteq> []" "m_callback rq = Some cb"
      "\<not> m_was_cancelled rq" "m_request_buf rq = []" "m_response rq = new_response"
    and sent: "\<not> is_error (rr_ec c1)" "\<not> is_error (rr_ec c2)" "\<not> is_error (rr_ec c3)" "\<not> is_error (rr_shutdown c3)"
      "rr_data c1 = []" "rr_data c2 = []" "rr_data c3 = []"
    and answered: "\<not> is_error (rr_ec r1)" "\<not> is_error (rr_ec r2)" "rr_ec r3 = asio_eof"
      "rr_data r1 @ rr_data r2 @ rr_data r3 = file_response body" "rr_data r1 = ''HTTP/1.1 200 OK'' @ CRLF @ x"
      "x @ rr_data r2 = ''content-length: '' @ to_dec (length body) @ CRLF @ CRLF @ y"
  shows "\<exists>rq' log. request_run (map (Completes 0) [c1, c2, c3, r1, r2, r3]) rq = ([], rq', log) \<and>
    callback_count log = 1 \<and> last log = Callback (cb, rq', no_error) \<and>
    m_status_code (m_response rq') = Some 200 \<and> m_response_buf (m_response rq') = body"
proof -
  let ?rq = "rq\<lparr>m_request_buf := request_bytes (m_uri rq) (m_host rq)\<rparr>"
  have "m_uri rq \<noteq> []" using rq(2) by (simp add: is_word_def)
  note sends = client_sends_request [OF rq(1,3) this rq(4-6) sent]
  note reads = client_reads_file [of ?rq, OF _ _ _ answered]
  show ?thesis using reads rq(4,5,7) by (simp add: sends received_file_def del: chain_run_simps)
qed

text \<open>A GET from \<^verbatim>\<open>execute\<close> to the callback, client and server together: if the library completes every operation without an
  error, carries the bytes that the client writes to the server's two reads and those that the server writes to the
  client's three reads, cut anywhere that the delimiters allow, and ends the connection, then the client's run ends
  with exactly one call of the callback, without an error, with status code 200 and with the contents of the file
  that the server has under the client's URI.\<close>

theorem http_get_end_to_end:
  assumes rq: "m_port rq > 0" "is_word (m_uri rq)" "m_host rq \<noteq> []" "CR \<notin> set (m_host rq)" "m_callback rq = Some cb"
      "\<not> m_was_cancelled rq" "m_request_buf rq = []" "m_response rq = new_response"
    and sent: "\<not> is_error (rr_ec c1)" "\<not> is_error (rr_ec c2)" "\<not> is_error (rr_ec c3)" "\<not> is_error (rr_shutdown c3)"
      "rr_data c1 = []" "rr_data c2 = []" "rr_data c3 = []"
    and "request_run [Completes 0 c1, Completes 0 c2, Completes 0 c3] rq = (p1, rq1, log1)"
    and received: "\<not> is_error (res_ec q1)" "\<not> is_error (res_ec q2)" "res_data q1 @ res_data q2 = written log1"
      "res_data q1 = request_line ''GET'' (m_uri rq) ''HTTP/1.1'' @ CRLF @ a"
    and served: "\<not> is_error (env_shutdown (res_env q2))" "length body < 2 ^ 64"
      "env_fs (res_env q2) (''http_root'' @ m_uri rq) = Fs_Opened (int (length body)) body"
      "env_alloc (res_env q2) (word_of_nat (length body))"
    and "service_run [Completes 0 q1, Completes 0 q2] = (p2, s, tr)"
    and answered: "\<not> is_error (rr_ec r1)" "\<not> is_error (rr_ec r2)" "rr_ec r3 = asio_eof"
      "rr_data r1 @ rr_data r2 @ rr_data r3 = written tr" "rr_data r1 = ''HTTP/1.1 200 OK'' @ CRLF @ x"
      "x @ rr_data r2 = ''content-length: '' @ to_dec (length body) @ CRLF @ CRLF @ y"
  shows "\<exists>rq' log. request_run (map (Completes 0) [c1, c2, c3, r1, r2, r3]) rq = ([], rq', log) \<and>
    callback_count log = 1 \<and> last log = Callback (cb, rq', no_error) \<and>
    m_status_code (m_response rq') = Some 200 \<and> m_response_buf (m_response rq') = body"
proof -
  note request = client_request_received [OF rq(1-7) sent assms(16) received(3,4)]
  have "written tr = file_response body"
    using file_response_run [OF received(1,2) rq(2) request(2) received(4) request(1) served(1,3,2,4)] assms(25)
    by (fastforce simp: file_response_def)
  with answered(4) have "rr_data r1 @ rr_data r2 @ rr_data r3 = file_response body" by simp
  from client_gets_file [OF rq(1-3,5-8) sent answered(1-3) this answered(5,6)] show ?thesis .
qed

theorem http_get_end_to_end_witness:
  "\<exists>rq' log. request_run (map (Completes 0) [ok_result [], ok_result [], ok_result [], ok_result (''HTTP/1.1 200 OK'' @ CRLF),
       ok_result (''content-length: 2'' @ CRLF @ CRLF), \<lparr>rr_ec = asio_eof, rr_data = ''hi'', rr_shutdown = no_error\<rparr>]) demo_request
      = ([], rq', log) \<and>
     callback_count log = 1 \<and> last log = Callback (7, rq', no_error) \<and>
     m_status_code (m_response rq') = Some 200 \<and> m_response_buf (m_response rq') = ''hi''"
proof -
  let ?q1 = "demo_result (''GET /a HTTP/1.1'' @ CRLF)" and ?q2 = "demo_result (''Host: h'' @ CRLF @ CRLF)"
  have rq: "m_port demo_request > 0" "is_word (m_uri demo_request)" "m_host demo_request \<noteq> []" "CR \<notin> set (m_host demo_request)"
    "m_callback demo_request = Some 7" "\<not> m_was_cancelled demo_request" "m_request_buf demo_request = []"
    "m_response demo_request = new_response" "m_uri demo_request = ''/a''" "m_host demo_request = ''h''"
    by (simp_all add: demo_request_def create_request_def set_callback_def set_uri_def set_host_def DEFAULT_PORT_def
        is_word_def is_space_def)
  obtain p1 rq1 log1 where sent: "request_run [Completes 0 (ok_result []), Completes 0 (ok_result []), Completes 0 (ok_result [])]
      demo_request = (p1, rq1, log1)" by (metis prod.exhaust)
  then have log1: "written log1 = request_bytes ''/a'' ''h''"
    using client_sends_request [of demo_request 7 "ok_result []" "ok_result []" "ok_result []" "[]"] rq by auto
  have received: "res_data ?q1 @ res_data ?q2 = written log1"
    "res_data ?q1 = request_line ''GET'' (m_uri demo_request) ''HTTP/1.1'' @ CRLF @ []"
    unfolding log1 by (simp_all add: request_bytes_def request_line_def header_line_def rq)
  have served: "env_fs (res_env ?q2) (''http_root'' @ m_uri demo_request) = Fs_Opened (int (length ''hi'')) ''hi''"
    "env_alloc (res_env ?q2) (word_of_nat (length ''hi''))" by (simp_all add: demo_env_def rq)
  have header: "\<forall>nv \<in> set [(''Host'', '' h'')]. clean_request_header nv" "[] @ res_data ?q2 = header_block [(''Host'', '' h'')] @ CRLF"
    by (simp_all add: clean_request_header_def header_line_def)
  obtain s tr where run: "service_run [Completes 0 ?q1, Completes 0 ?q2] = ([On_Response_Sent], s, tr)"
    and tr: "written tr = ''HTTP/1.1 200 OK'' @ CRLF @ ''content-length: '' @ to_dec (length ''hi'') @ CRLF @ CRLF @ ''hi''"
    using file_response_run [OF _ _ rq(2) header(1) received(2) header(2) _ served(1) _ served(2)] by auto
  have d2: "to_dec (Suc (Suc 0)) = ''2''" using to_dec_demo by (simp add: numeral_2_eq_2 [symmetric])
  show ?thesis
    by (rule http_get_end_to_end [OF rq(1-8) _ _ _ _ _ _ _ sent _ _ received _ _ served run, where x = "[]" and y = "[]"])
       (simp_all add: tr d2)
qed

text \<open>C35: The server answers a request for a missing file with a status line and an empty line only. After the
  client has parsed the status line, what is left contains no CR LF CR LF, so its read of the header
  fields cannot succeed; it ends with the end of the stream and the callback is told \<^verbatim>\<open>eof\<close> as an error,
  although the status code 404 has been received.\<close>

theorem missing_file_seen_as_eof:
  assumes "\<not> is_error (res_ec q1)" and "\<not> is_error (res_ec q2)" and "is_word uri"
    and "\<forall>nv \<in> set hs. clean_request_header nv"
    and "res_data q1 = request_line ''GET'' uri ''HTTP/1.1'' @ CRLF @ a"
    and "a @ res_data q2 = header_block hs @ CRLF"
    and "\<not> is_error (env_shutdown (res_env q2))"
    and "env_fs (res_env q2) (''http_root'' @ uri) = Fs_Absent"
    and run: "service_run [Completes 0 q1, Completes 0 q2] = (p, s, tr)"
    and rq: "\<not> m_was_cancelled rq" "m_callback rq = Some cb" "m_response rq = new_response"
    and reads: "\<not> is_error (rr_ec r1)" "rr_ec r2 = asio_eof" "rr_data r1 @ rr_data r2 = written tr"
      "rr_data r1 = ''HTTP/1.1 404 Not Found'' @ CRLF @ x"
  shows "\<exists>rq' log. chain_run request_step request_external [Completes 0 r1, Completes 0 r2]
       ([On_Status_Line_Received], rq, []) = ([], rq', log) \<and>
     last log = Callback (cb, rq', asio_eof) \<and> m_status_code (m_response rq') = Some 404 \<and>
     \<not> sublist (CRLF @ CRLF) (m_response_buf (m_response rq'))"
proof -
  have "written tr = ''HTTP/1.1 404 Not Found'' @ CRLF @ CRLF"
    using missing_file_run [OF assms(1-8)] run by auto
  with reads(3,4) have rest: "x @ rr_data r2 = CRLF" by simp
  have d404: "to_dec 404 = ''404''" by (simp add: to_dec_eval)
  define rq1 where "rq1 = rq\<lparr>m_response := new_response\<lparr>m_response_buf := x, m_status_code := Some 404,
      m_status_message := '' Not Found''\<rparr>\<rparr>"
  have 1: "request_step On_Status_Line_Received r1 rq
      = (rq1, [Start On_Response_Headers_Received (Async_Read_Until (CRLF @ CRLF))])"
    using status_line_step [OF reads(1), of 404 "''Not Found''" rq x] rq reads(4)
    by (simp add: d404 status_line_def start_unless_cancelled_def rq1_def new_response_def)
  define rq2 where "rq2 = rq1\<lparr>m_response := (m_response rq1)\<lparr>m_response_buf := CRLF\<rparr>\<rparr>"
  have 2: "request_step On_Response_Headers_Received r2 rq1 = (rq2, [Log asio_eof, Callback (cb, rq2, asio_eof)])"
    using reads(2) rest rq(2)
    by (simp add: request_step_def request_on_headers_received_def request_on_finish_def rq1_def rq2_def Let_def)
  have "\<not> sublist (CRLF @ CRLF) CRLF"
    using sublist_length_le [of "CRLF @ CRLF" CRLF] by auto
  then show ?thesis
    by (simp add: chain_step_def 1 2) (simp add: rq2_def rq1_def)
qed

theorem missing_file_seen_as_eof_witness:
  "\<exists>rq' log. chain_run request_step request_external
       [Completes 0 (ok_result (''HTTP/1.1 404 Not Found'' @ CRLF @ CRLF)), Completes 0 (failed_result asio_eof)]
       ([On_Status_Line_Received], demo_request, []) = ([], rq', log) \<and>
     last log = Callback (7, rq', asio_eof) \<and> m_status_code (m_response rq') = Some 404"
proof -
  let ?q1 = "demo_result (''GET /b HTTP/1.1'' @ CRLF)" and ?q2 = "demo_result (''Host:x'' @ CRLF @ CRLF)"
  have pre: "is_word ''/b''" "\<forall>nv \<in> set [(''Host'', ''x'')]. clean_request_header nv"
    "res_data ?q1 = request_line ''GET'' ''/b'' ''HTTP/1.1'' @ CRLF @ []"
    "[] @ res_data ?q2 = header_block [(''Host'', ''x'')] @ CRLF"
    "env_fs (res_env ?q2) (''http_root'' @ ''/b'') = Fs_Absent"
    by (simp_all add: is_word_def is_space_def clean_request_header_def request_line_def header_line_def demo_env_def)
  have q: "\<not> is_error (res_ec ?q1)" "\<not> is_error (res_ec ?q2)" "\<not> is_error (env_shutdown (res_env ?q2))" by simp_all
  obtain p s tr where run: "service_run [Completes 0 ?q1, Completes 0 ?q2] = (p, s, tr)"
    by (cases "service_run [Completes 0 ?q1, Completes 0 ?q2]")
  then have w: "written tr = ''HTTP/1.1 404 Not Found'' @ CRLF @ CRLF"
    using missing_file_run [OF q(1,2) pre(1-4) q(3) pre(5)] by auto
  have rq: "\<not> m_was_cancelled demo_request" "m_callback demo_request = Some 7" "m_response demo_request = new_response"
    by (simp_all add: demo_request_def create_request_def set_callback_def set_uri_def set_host_def)
  show ?thesis
    using missing_file_seen_as_eof [OF q(1,2) pre(1-4) q(3) pre(5) run rq,
      of "ok_result (''HTTP/1.1 404 Not Found'' @ CRLF @ CRLF)" "failed_result asio_eof" CRLF] w
    by auto
qed

end
