(* ===== verification/Async_Tcp_Client.thy ===== *)
theory Async_Tcp_Client
  imports Async_Chain Cpp_Stream
begin

section \<open>Asynchronous TCP client: sessions, the table of active sessions, requests\<close>

text \<open>
  \<^verbatim>\<open>chapter3/asyncTCPClient/\<close> (\<^verbatim>\<open>session.h\<close>, \<^verbatim>\<open>session.cpp\<close>, \<^verbatim>\<open>asynctcpclient.h\<close>, \<^verbatim>\<open>asynctcpclient.cpp\<close>,
  \<^verbatim>\<open>function.cpp\<close>). The same class with a pool of threads is \<^verbatim>\<open>chapter3/asyncTCPClientMT/\<close>; its
  member functions are those of this theory, its constructor is modelled in \<open>Thread_Pools\<close>.
  A \<^verbatim>\<open>shared_ptr<Session>\<close> is the number of the session in the heap of the client. The three nested
  lambdas of \<^verbatim>\<open>emulateLongComputationOp\<close> are the handlers \<open>On_Connected\<close>, \<open>On_Written\<close> and
  \<open>On_Response_Read\<close>. Handlers, cancellations and submissions are atomic here; their locks are the
  subject of \<^verbatim>\<open>Async_Tcp_Locks\<close>.
\<close>

record session =
  ses_address :: string
  ses_port :: "16 word"
  ses_request :: bytes
  ses_response_buf :: bytes
  ses_response :: string
  ses_ec :: error_code
  ses_id :: u32
  ses_callback :: "nat option"
  ses_was_cancelled :: bool

definition new_session :: "string \<Rightarrow> 16 word \<Rightarrow> bytes \<Rightarrow> u32 \<Rightarrow> nat option \<Rightarrow> session" where
  "new_session raw_ip_address port_num request i callback =
     \<lparr>ses_address = raw_ip_address, ses_port = port_num, ses_request = request, ses_response_buf = [],
      ses_response = [], ses_ec = no_error, ses_id = i, ses_callback = callback, ses_was_cancelled = False\<rparr>"

datatype session_handler = On_Connected | On_Written | On_Response_Read

type_synonym session_completion = "nat \<times> u32 \<times> string \<times> error_code"
type_synonym session_action = "(session_handler, session_completion) action"

subsection \<open>The table of active sessions\<close>

text \<open>
  \<^verbatim>\<open>std::map<int, std::shared_ptr<Session>>\<close>, indexed with \<^verbatim>\<open>unsigned int\<close> request ids: the conversion of
  the key to \<^verbatim>\<open>int\<close> reads the same 32 bits as two's complement.
\<close>

type_synonym session_table = "int \<rightharpoonup> nat"

definition key_of_id :: "u32 \<Rightarrow> int" where
  "key_of_id i = sint i"

definition find_session :: "session_table \<Rightarrow> u32 \<Rightarrow> nat option" where
  "find_session t i = t (key_of_id i)"

definition insert_session :: "session_table \<Rightarrow> u32 \<Rightarrow> nat \<Rightarrow> session_table" where
  "insert_session t i ref = t(key_of_id i \<mapsto> ref)"

definition erase_session :: "session_table \<Rightarrow> u32 \<Rightarrow> session_table" where
  "erase_session t i = (if find_session t i \<noteq> None then t(key_of_id i := None) else t)"

text \<open>What the client relies on: the laws of a finite map over request ids.\<close>

locale session_registry =
  fixes empty :: "'t"
    and find :: "'t \<Rightarrow> u32 \<Rightarrow> nat option"
    and insert :: "'t \<Rightarrow> u32 \<Rightarrow> nat \<Rightarrow> 't"
    and erase :: "'t \<Rightarrow> u32 \<Rightarrow> 't"
  assumes find_empty: "find empty i = None"
    and find_insert: "find (insert t i r) j = (if j = i then Some r else find t j)"
    and find_erase: "find (erase t i) j = (if j = i then None else find t j)"
begin

text \<open>The table holds exactly the pairs of a set of live sessions, ids being distinct in it.\<close>

lemma exact_insert:
  assumes "\<And>i r. find t i = Some r \<longleftrightarrow> (i, r) \<in> L" and "\<And>r. (i, r) \<notin> L"
  shows "find (insert t i r) j = Some q \<longleftrightarrow> (j, q) \<in> L \<union> {(i, r)}"
  using assms by (auto simp: find_insert)

lemma exact_erase:
  assumes "\<And>i r. find t i = Some r \<longleftrightarrow> (i, r) \<in> L" and "(i, r) \<in> L"
  shows "find (erase t i) j = Some q \<longleftrightarrow> (j, q) \<in> L - {(i, r)}"
proof -
  from assms have i: "find t i = Some r" by blast
  have "(i, q) \<in> L \<longleftrightarrow> q = r" for q
    using i assms(1) [of i q] by auto
  then show ?thesis by (auto simp: find_erase assms(1))
qed

end

lemma key_of_id_inject [simp]: "key_of_id i = key_of_id j \<longleftrightarrow> i = j"
  by (auto simp: key_of_id_def intro: signed_word_eqI)

interpretation tab: session_registry Map.empty find_session insert_session erase_session
  by unfold_locales (auto simp: find_session_def insert_session_def erase_session_def)

subsection \<open>The handlers of one session\<close>

definition completion_code :: "session \<Rightarrow> error_code" where
  "completion_code s = (if \<not> is_error (ses_ec s) \<and> ses_was_cancelled s then operation_aborted else ses_ec s)"

text \<open>
  \<^verbatim>\<open>onRequestComplete\<close>: the result of \<^verbatim>\<open>shutdown\<close> is ignored by the code; calling an empty
  \<^verbatim>\<open>std::function\<close> throws.
\<close>

definition onRequestComplete ::
  "session \<Rightarrow> session_table \<Rightarrow> (session \<times> session_table) \<times> session_action list" where
  "onRequestComplete s t =
     ((s, erase_session t (ses_id s)),
      [Shutdown shutdown_both,
       case ses_callback s of
         None \<Rightarrow> Throw Bad_Function_Call
       | Some cb \<Rightarrow> Callback (cb, ses_id s, ses_response s, completion_code s)])"

definition on_connected ::
  "error_code \<Rightarrow> session \<times> session_table \<Rightarrow> (session \<times> session_table) \<times> session_action list" where
  "on_connected ec st =
     (case st of (s, t) \<Rightarrow>
        if is_error ec then onRequestComplete (s\<lparr>ses_ec := ec\<rparr>) t
        else if ses_was_cancelled s then onRequestComplete s t
        else ((s, t), [Start On_Written (Async_Write [ses_request s])]))"

definition on_written ::
  "error_code \<Rightarrow> session \<times> session_table \<Rightarrow> (session \<times> session_table) \<times> session_action list" where
  "on_written ec st =
     (case st of (s, t) \<Rightarrow>
        if is_error ec then onRequestComplete (s\<lparr>ses_ec := ec\<rparr>) t
        else if ses_was_cancelled s then onRequestComplete s t
        else ((s, t), [Start On_Response_Read (Async_Read_Until [LF])]))"

definition on_response_read ::
  "error_code \<Rightarrow> session \<times> session_table \<Rightarrow> (session \<times> session_table) \<times> session_action list" where
  "on_response_read ec st =
     (case st of (s, t) \<Rightarrow>
        if is_error ec then onRequestComplete (s\<lparr>ses_ec := ec\<rparr>) t
        else let (response, strm) = getline LF (open_istream (ses_response_buf s)) (ses_response s)
             in onRequestComplete (s\<lparr>ses_response := response, ses_response_buf := rdbuf strm\<rparr>) t)"

record session_result =
  sr_ec :: error_code
  sr_data :: bytes

definition session_step ::
  "session_handler \<Rightarrow> session_result \<Rightarrow> session \<times> session_table \<Rightarrow>
   (session \<times> session_table) \<times> session_action list" where
  "session_step k r st =
     (case st of (s, t) \<Rightarrow>
        let st1 = (s\<lparr>ses_response_buf := ses_response_buf s @ sr_data r\<rparr>, t)
        in case k of
             On_Connected \<Rightarrow> on_connected (sr_ec r) st1
           | On_Written \<Rightarrow> on_written (sr_ec r) st1
           | On_Response_Read \<Rightarrow> on_response_read (sr_ec r) st1)"

text \<open>The locked part of \<^verbatim>\<open>cancelRequest\<close> once the session has been found.\<close>

definition cancel_session :: "error_code \<Rightarrow> session \<Rightarrow> session \<times> session_action list" where
  "cancel_session cancel_ec s =
     (s\<lparr>ses_was_cancelled := True\<rparr>,
      [Cancel_Socket] @ (if is_error cancel_ec then [Raise (System_Error cancel_ec)] else []))"

text \<open>What the rest of the client does to one session and to the table while its chain runs.\<close>

datatype session_call = Session_Cancel error_code | Table_Changes session_table

fun session_external ::
  "session_call \<Rightarrow> session \<times> session_table \<Rightarrow> (session \<times> session_table) \<times> session_action list" where
  "session_external (Session_Cancel cancel_ec) (s, t) =
     (case cancel_session cancel_ec s of (s', as) \<Rightarrow> ((s', t), as))"
| "session_external (Table_Changes t') (s, t) = ((s, t'), [])"

subsection \<open>The whole client\<close>

record tcp_client =
  m_active_sessions :: session_table
  session_heap :: "nat \<rightharpoonup> session"
  session_count :: nat
  waiting :: "(nat \<times> session_handler) list"
  m_work :: bool

definition new_tcp_client :: tcp_client where
  "new_tcp_client = \<lparr>m_active_sessions = Map.empty, session_heap = Map.empty, session_count = 0, waiting = [],
     m_work = True\<rparr>"

definition calc_request :: "u32 \<Rightarrow> bytes" where
  "calc_request duration_sec = ''EMULATE_LONG_CALC_OP '' @ to_string_u32 duration_sec @ [LF]"

text \<open>
  \<^verbatim>\<open>emulateLongComputationOp\<close>; \<open>address_ec\<close> and \<open>open_ec\<close> are the results of \<^verbatim>\<open>address::from_string\<close> and of
  \<^verbatim>\<open>open\<close>, whose throwing overloads the code uses.
\<close>

definition emulateLongComputationOp ::
  "error_code \<Rightarrow> error_code \<Rightarrow> u32 \<Rightarrow> string \<Rightarrow> 16 word \<Rightarrow> nat option \<Rightarrow> u32 \<Rightarrow> tcp_client \<Rightarrow>
   tcp_client \<times> session_action list" where
  "emulateLongComputationOp address_ec open_ec duration_sec raw_ip_address port_num callback request_id c =
     (if is_error address_ec then (c, [Raise (System_Error address_ec)])
      else if is_error open_ec then (c, [Raise (System_Error open_ec)])
      else let request = calc_request duration_sec;
               ref = session_count c;
               session = new_session raw_ip_address port_num request request_id callback
           in (c\<lparr>m_active_sessions := insert_session (m_active_sessions c) request_id ref,
                 session_heap := (session_heap c)(ref \<mapsto> session),
                 session_count := Suc ref,
                 waiting := waiting c @ [(ref, On_Connected)]\<rparr>,
               [Start On_Connected Async_Connect]))"

definition cancelRequest :: "error_code \<Rightarrow> u32 \<Rightarrow> tcp_client \<Rightarrow> tcp_client \<times> session_action list" where
  "cancelRequest cancel_ec request_id c =
     (case find_session (m_active_sessions c) request_id of
        None \<Rightarrow> (c, [])
      | Some ref \<Rightarrow>
          (case session_heap c ref of
             None \<Rightarrow> (c, [Undefined])
           | Some s \<Rightarrow>
               (case cancel_session cancel_ec s of
                  (s', as) \<Rightarrow> (c\<lparr>session_heap := (session_heap c)(ref \<mapsto> s')\<rparr>, as))))"

text \<open>The completion of the \<open>i\<close>-th waiting operation runs the lambda of its session.\<close>

definition complete_operation :: "nat \<Rightarrow> session_result \<Rightarrow> tcp_client \<Rightarrow> tcp_client \<times> session_action list" where
  "complete_operation i r c =
     (if i < length (waiting c)
      then (case waiting c ! i of (ref, k) \<Rightarrow>
              (case session_heap c ref of
                 None \<Rightarrow> (c, [Undefined])
               | Some s \<Rightarrow>
                   (case session_step k r (s, m_active_sessions c) of
                      ((s', t'), as) \<Rightarrow>
                        (c\<lparr>m_active_sessions := t', session_heap := (session_heap c)(ref \<mapsto> s'),
                           waiting := take i (waiting c) @ drop (Suc i) (waiting c) @
                                      map (\<lambda>k'. (ref, k')) (conts as)\<rparr>, as))))
      else (c, []))"

text \<open>\<^verbatim>\<open>close\<close> drops the work guard and joins the I/O thread, which leaves \<^verbatim>\<open>run\<close> when no operation waits.\<close>

definition close_client :: "tcp_client \<Rightarrow> tcp_client" where
  "close_client c = c\<lparr>m_work := False\<rparr>"

definition join_returns :: "tcp_client \<Rightarrow> bool" where
  "join_returns c \<longleftrightarrow> \<not> m_work c \<and> waiting c = []"

datatype client_event =
  Submit error_code error_code u32 string "16 word" "nat option" u32
| Cancel error_code u32
| Complete nat session_result
| Close

fun client_step :: "client_event \<Rightarrow> tcp_client \<Rightarrow> tcp_client \<times> session_action list" where
  "client_step (Submit address_ec open_ec duration_sec ip port callback request_id) c =
     emulateLongComputationOp address_ec open_ec duration_sec ip port callback request_id c"
| "client_step (Cancel cancel_ec request_id) c = cancelRequest cancel_ec request_id c"
| "client_step (Complete i r) c = complete_operation i r c"
| "client_step Close c = (close_client c, [])"

definition client_run :: "client_event list \<Rightarrow> tcp_client \<Rightarrow> tcp_client" where
  "client_run evs c = fold (\<lambda>ev c. fst (client_step ev c)) evs c"

text \<open>The chain of one session from the moment \<^verbatim>\<open>async_connect\<close> has been started.\<close>

definition session_run ::
  "(session_result, session_call) event list \<Rightarrow> session \<times> session_table \<Rightarrow>
   (session_handler, session \<times> session_table, session_completion) chain_state" where
  "session_run evs st =
     chain_run session_step session_external evs (chain_begin (st, [Start On_Connected Async_Connect]))"

end
