(* ===== verification/Async_Tcp_Properties.thy ===== *)
theory Async_Tcp_Properties
  imports Async_Tcp_Client
begin

section \<open>Asynchronous TCP client: properties\<close>

text \<open>
  One session under any interleaving of completions, cancellations and changes of the table by other
  sessions (interpretation \<open>ses\<close> of the chain locales), and the whole client: the table of active
  sessions against the sessions that really wait, proved from the registry laws (\<open>tab\<close>).
\<close>

subsection \<open>Every handler continues the chain or ends it\<close>

definition session_rank :: "session_handler \<Rightarrow> nat" where
  "session_rank k = (case k of On_Connected \<Rightarrow> 0 | On_Written \<Rightarrow> 1 | On_Response_Read \<Rightarrow> 2)"

lemma complete_shape [simp]:
  "next_or_end (snd (onRequestComplete s t))" "conts (snd (onRequestComplete s t)) = []"
  by (simp_all add: onRequestComplete_def next_or_end_def split: option.split)

lemmas session_handler_defs = on_connected_def on_written_def on_response_read_def

lemma session_step_shape:
  "next_or_end (snd (session_step k r st)) \<and>
   (\<forall>k' \<in> set (conts (snd (session_step k r st))). session_rank k < session_rank k')"
  by (cases k; cases st)
     (auto simp: session_step_def session_handler_defs session_rank_def Let_def case_prod_beta next_or_end_def
        onRequestComplete_def split: option.split)

lemma session_external_quiet: "quiet (snd (session_external e st))"
  by (cases "(e, st)" rule: session_external.cases) (simp_all add: cancel_session_def quiet_def)

interpretation ses: ranked_chain session_step session_external session_rank 3
proof unfold_locales
  fix k r st
  show "next_or_end (snd (session_step k r st))" using session_step_shape by blast
  show "session_rank k < 3" by (simp add: session_rank_def split: session_handler.split)
next
  fix k' k :: session_handler and r st
  assume "k' \<in> set (conts (snd (session_step k r st)))"
  then show "session_rank k < session_rank k'" using session_step_shape by blast
next
  fix e st
  show "quiet (snd (session_external e st))" by (rule session_external_quiet)
qed

lemma start_next_or_end: "next_or_end (snd (st, [Start k op]))"
  by (simp add: next_or_end_def)

subsection \<open>The callback of a session\<close>

definition session_ok :: "nat \<Rightarrow> session \<times> session_table \<Rightarrow> bool" where
  "session_ok cb st \<longleftrightarrow> ses_callback (fst st) = Some cb"

definition ends_by_callback :: "session_action \<Rightarrow> bool" where
  "ends_by_callback a \<longleftrightarrow> (ends_chain a \<longrightarrow> is_callback a)"

lemma session_step_callback:
  "session_ok cb st \<Longrightarrow> session_ok cb (fst (session_step k r st)) \<and>
     list_all ends_by_callback (snd (session_step k r st))"
  by (cases k; cases st)
     (auto simp: session_ok_def session_step_def session_handler_defs Let_def case_prod_beta
        onRequestComplete_def ends_by_callback_def is_callback_def ends_chain_def split: option.split)

lemma session_external_callback:
  "(session_ok cb st \<longrightarrow> session_ok cb (fst (session_external e st))) \<and>
     list_all ends_by_callback (snd (session_external e st))"
  by (cases "(e, st)" rule: session_external.cases)
     (simp_all add: session_ok_def cancel_session_def ends_by_callback_def ends_chain_def)

text \<open>The callback of a request to the TCP client runs at most once, nothing of the session waits once it
  has run, and after at most three completions it has run exactly once, whatever the results, the
  cancellations and the other sessions.\<close>

theorem session_callback_exactly_once:
  assumes "session_run evs (s, t) = (p, st, tr)" and "ses_callback s = Some cb"
  shows "length p + callback_count tr = 1 \<and> (3 \<le> completions evs \<longrightarrow> callback_count tr = 1)"
proof -
  have run: "chain_run session_step session_external evs
      (chain_begin ((s, t), [Start On_Connected Async_Connect])) = (p, st, tr)"
    using assms(1) by (simp add: session_run_def)
  note count = ses.exactly_one [OF start_next_or_end run]
  have "(p \<noteq> [] \<longrightarrow> session_ok cb st) \<and> list_all ends_by_callback tr"
    by (rule ses.run_invariant [where evs = evs and p = "[On_Connected]" and s = "(s, t)"
          and tr = "[Start On_Connected Async_Connect]" and I = "session_ok cb"])
       (use session_step_callback session_external_callback run assms(2) in
          \<open>simp_all add: chain_begin_def session_ok_def ends_by_callback_def ends_chain_def\<close>)
  then have cb: "list_all (\<lambda>a. ends_chain a \<longrightarrow> is_callback a) tr"
    by (simp add: ends_by_callback_def [abs_def])
  have "callback_count tr = end_count tr"
  proof (cases "end_count tr = 1")
    case True
    then show ?thesis using cb by (simp add: callback_if_ended)
  next
    case False
    with count have "end_count tr = 0" by linarith
    then show ?thesis using callback_count_le [of tr] by simp
  qed
  with count ses.ends_within_bound [OF start_next_or_end run] show ?thesis by simp
qed

definition demo_session :: session where
  "demo_session = new_session ''127.0.0.1'' 3333 (calc_request 10) 1 (Some 7)"

definition session_answer :: "error_code \<Rightarrow> bytes \<Rightarrow> session_result" where
  "session_answer ec d = \<lparr>sr_ec = ec, sr_data = d\<rparr>"

lemma session_answer_sel [simp]: "sr_ec (session_answer ec d) = ec" "sr_data (session_answer ec d) = d"
  by (simp_all add: session_answer_def)

theorem session_callback_exactly_once_witness:
  "callback_count (snd (snd (session_run (replicate 3 (Completes 0 (session_answer asio_eof [])))
     (demo_session, Map.empty)))) = 1"
proof -
  let ?evs = "replicate 3 (Completes 0 (session_answer asio_eof []))"
  have "3 \<le> completions (?evs :: (session_result, session_call) event list)" by (simp add: numeral_eq_Suc)
  moreover have "ses_callback demo_session = Some 7" by (simp add: demo_session_def new_session_def)
  ultimately show ?thesis
    using session_callback_exactly_once [of ?evs demo_session Map.empty _ _ _ 7]
    by (cases "session_run ?evs (demo_session, Map.empty)") simp
qed

subsection \<open>Cancellation of a session\<close>

definition reports_failure :: "session_action \<Rightarrow> bool" where
  "reports_failure a = (case a of Callback (cb, i, response, ec) \<Rightarrow> is_error ec | _ \<Rightarrow> True)"

lemma cancelled_session_step:
  "ses_was_cancelled (fst st) \<Longrightarrow> ses_was_cancelled (fst (fst (session_step k r st))) \<and>
     list_all reports_failure (snd (session_step k r st))"
  by (cases k; cases st)
     (auto simp: session_step_def session_handler_defs Let_def case_prod_beta onRequestComplete_def
        reports_failure_def completion_code_def split: option.split)

lemma cancelled_session_external:
  "(ses_was_cancelled (fst st) \<longrightarrow> ses_was_cancelled (fst (fst (session_external e st)))) \<and>
     list_all reports_failure (snd (session_external e st))"
  by (cases "(e, st)" rule: session_external.cases) (simp_all add: cancel_session_def reports_failure_def)

lemma no_end_no_callback: "end_count as = 0 \<Longrightarrow> list_all reports_failure as"
  by (induction as) (auto simp: end_count_def reports_failure_def ends_chain_def split: action.splits if_splits)

text \<open>A request that is cancelled while one of its operations waits never reports success: whatever
  completes afterwards, even the whole response, its callback gets a non-zero error code.\<close>

theorem cancelled_session_never_succeeds:
  assumes "session_run before (s, t) = (p, st, tr)" and "p \<noteq> []"
    and "session_run (before @ External (Session_Cancel cancel_ec) # later) (s, t) = (p', st', tr')"
    and "Callback (cb, i, response, ec) \<in> set tr'"
  shows "is_error ec"
proof -
  obtain s1 t1 where st: "st = (s1, t1)" by (cases st)
  let ?s2 = "fst (cancel_session cancel_ec s1)" and ?tr2 = "tr @ snd (cancel_session cancel_ec s1)"
  have run: "chain_run session_step session_external before
      (chain_begin ((s, t), [Start On_Connected Async_Connect])) = (p, st, tr)"
    using assms(1) by (simp add: session_run_def)
  from ses.exactly_one [OF start_next_or_end run] assms(2)
  have count: "length p = 1" "end_count tr = 0" by (cases p; simp)+
  have later: "chain_run session_step session_external later (p, (?s2, t1), ?tr2) = (p', st', tr')"
    using assms(3) run st
    by (simp add: session_run_def chain_run_append chain_step_def cancel_session_def split: if_splits)
  have "(p' \<noteq> [] \<longrightarrow> ses_was_cancelled (fst st')) \<and> list_all reports_failure tr'"
    by (rule ses.run_invariant [where evs = later and p = p and s = "(?s2, t1)" and tr = ?tr2
          and I = "\<lambda>st. ses_was_cancelled (fst st)"])
       (use cancelled_session_step cancelled_session_external later count no_end_no_callback [of tr] in
          \<open>simp_all add: cancel_session_def reports_failure_def\<close>)
  with assms(4) show ?thesis by (auto simp: list_all_iff reports_failure_def)
qed

lemma demo_cancelled_run:
  "\<exists>st tr. session_run ([] @ External (Session_Cancel no_error) # [Completes 0 (session_answer no_error [])])
     (demo_session, Map.empty) = ([], st, tr) \<and> Callback (7, 1, [], operation_aborted) \<in> set tr"
  by (simp add: session_run_def chain_begin_def chain_step_def cancel_session_def session_step_def Let_def
      on_connected_def onRequestComplete_def completion_code_def demo_session_def new_session_def)

theorem cancelled_session_never_succeeds_witness:
  "\<exists>st tr. session_run ([] @ External (Session_Cancel no_error) # [Completes 0 (session_answer no_error [])])
     (demo_session, Map.empty) = ([], st, tr) \<and> Callback (7, 1, [], operation_aborted) \<in> set tr \<and>
     is_error operation_aborted"
proof -
  have start: "session_run [] (demo_session, Map.empty)
      = ([On_Connected], (demo_session, Map.empty), [Start On_Connected Async_Connect])"
    by (simp add: session_run_def chain_begin_def)
  from demo_cancelled_run cancelled_session_never_succeeds [OF start] show ?thesis by blast
qed

subsection \<open>The response\<close>

text \<open>When nothing fails and nobody cancels, the request line is written and the callback gets no error and
  exactly the first line of what the server sent, without its newline; the rest stays in the buffer.\<close>

theorem session_reports_first_line:
  assumes "LF \<notin> set line" and "ses_callback s = Some cb" and "\<not> ses_was_cancelled s"
    and "ses_response_buf s = []" and "\<not> is_error (ses_ec s)"
    and "session_run [Completes 0 (session_answer no_error []), Completes 0 (session_answer no_error []),
       Completes 0 (session_answer no_error (line @ LF # rest))] (s, t) = (p, (s', t'), tr)"
  shows "p = [] \<and> written tr = ses_request s \<and>
    last tr = Callback (cb, ses_id s, line, ses_ec s) \<and> ses_response_buf s' = rest"
proof -
  have "getline LF (open_istream (line @ LF # rest)) str = (line, open_istream rest)" for str
    using lf.read_open [of line rest str] assms(1) by simp
  with assms(2-6) show ?thesis
    by (auto simp: session_run_def chain_begin_def chain_step_def session_step_def Let_def
        session_handler_defs onRequestComplete_def completion_code_def open_istream_def written_def)
qed

theorem session_reports_first_line_witness:
  "\<exists>st tr. session_run [Completes 0 (session_answer no_error []), Completes 0 (session_answer no_error []),
       Completes 0 (session_answer no_error (''OK'' @ LF # ''xy''))] (demo_session, Map.empty) = ([], st, tr) \<and>
     written tr = calc_request 10 \<and> last tr = Callback (7, 1, ''OK'', no_error)"
proof -
  let ?evs = "[Completes 0 (session_answer no_error []), Completes 0 (session_answer no_error []),
       Completes 0 (session_answer no_error (''OK'' @ LF # ''xy''))]"
  have line: "LF \<notin> set ''OK''" and cb: "ses_callback demo_session = Some 7"
    and nc: "\<not> ses_was_cancelled demo_session" and buf: "ses_response_buf demo_session = []"
    and ok: "\<not> is_error (ses_ec demo_session)"
    by (simp_all add: demo_session_def new_session_def)
  obtain p s' t' tr where run: "session_run ?evs (demo_session, Map.empty) = (p, (s', t'), tr)"
    by (cases "session_run ?evs (demo_session, Map.empty)") auto
  from session_reports_first_line [OF line cb nc buf ok run] run show ?thesis
    by (simp add: demo_session_def new_session_def)
qed

subsection \<open>The table of active sessions and the sessions that wait\<close>

text \<open>
  A session is live when one of its operations waits. \<open>live_pairs\<close> is the relation that the table of active
  sessions is meant to represent.
\<close>

definition session_id :: "tcp_client \<Rightarrow> nat \<Rightarrow> u32" where
  "session_id c ref = (case session_heap c ref of None \<Rightarrow> 0 | Some s \<Rightarrow> ses_id s)"

lemma session_id_frame [simp]:
  "session_id (c\<lparr>m_active_sessions := t\<rparr>) = session_id c"
  "session_id (c\<lparr>waiting := w\<rparr>) = session_id c"
  by (rule ext, simp add: session_id_def)+

definition live_pairs :: "tcp_client \<Rightarrow> (u32 \<times> nat) set" where
  "live_pairs c = {(i, ref). ref \<in> fst ` set (waiting c) \<and> session_id c ref = i}"

lemma live_pairs_iff [simp]: "(i, ref) \<in> live_pairs c \<longleftrightarrow> ref \<in> fst ` set (waiting c) \<and> session_id c ref = i"
  by (simp add: live_pairs_def)

definition client_ok :: "tcp_client \<Rightarrow> bool" where
  "client_ok c \<longleftrightarrow> distinct (map fst (waiting c)) \<and>
     list_all (\<lambda>ref. ref \<in> dom (session_heap c)) (map fst (waiting c)) \<and>
     (\<forall>ref \<in> dom (session_heap c). ref < session_count c) \<and>
     (\<forall>i ref. find_session (m_active_sessions c) i = Some ref \<longleftrightarrow> (i, ref) \<in> live_pairs c)"

text \<open>The steps of a client whose user submits no id that is still in the table.\<close>

inductive fresh_step :: "tcp_client \<Rightarrow> client_event \<Rightarrow> tcp_client \<Rightarrow> bool" where
  submit: "find_session (m_active_sessions c) i = None \<Longrightarrow>
     fresh_step c (Submit aec oec d ip port cb i) (fst (client_step (Submit aec oec d ip port cb i) c))"
| cancel: "fresh_step c (Cancel ec i) (fst (client_step (Cancel ec i) c))"
| complete: "fresh_step c (Complete n r) (fst (client_step (Complete n r) c))"
| close_: "fresh_step c Close (fst (client_step Close c))"

inductive_cases fresh_stepE: "fresh_step c ev c'"

inductive reachable_client :: "tcp_client \<Rightarrow> bool" where
  start: "reachable_client new_tcp_client"
| step: "reachable_client c \<Longrightarrow> fresh_step c ev c' \<Longrightarrow> reachable_client c'"

code_pred fresh_step .

lemma onRequestComplete_id [simp]: "fst (onRequestComplete s t) = (s, erase_session t (ses_id s))"
  by (simp add: onRequestComplete_def)

text \<open>A handler either keeps the table and goes on, or erases its session and ends.\<close>

lemma session_step_table:
  "session_step k r (s, t) = ((s', t'), as) \<Longrightarrow>
   ses_id s' = ses_id s \<and>
   (conts as = [] \<and> t' = erase_session t (ses_id s) \<or> (\<exists>k'. conts as = [k']) \<and> t' = t)"
  by (cases k)
     (auto simp: session_step_def session_handler_defs Let_def case_prod_beta onRequestComplete_def
        split: if_splits option.splits)

lemma client_okD:
  assumes "client_ok c"
  shows "distinct (map fst (waiting c))" "ref \<in> fst ` set (waiting c) \<Longrightarrow> ref \<in> dom (session_heap c)"
    "ref \<in> dom (session_heap c) \<Longrightarrow> ref < session_count c"
    "find_session (m_active_sessions c) i = Some ref \<longleftrightarrow> (i, ref) \<in> live_pairs c"
  using assms by (auto simp: client_ok_def list_all_iff)

lemma client_ok_emulate:
  assumes ok: "client_ok c" and fresh: "find_session (m_active_sessions c) i = None"
  shows "client_ok (fst (emulateLongComputationOp aec oec d ip port cb i c))" (is "client_ok ?c")
proof (cases "is_error aec \<or> is_error oec")
  case False
  let ?ref = "session_count c"
  have new: "?ref \<notin> dom (session_heap c)" using client_okD(3) [OF ok] by blast
  then have new': "?ref \<notin> fst ` set (waiting c)" using client_okD(2) [OF ok] by blast
  have ids: "session_id ?c ref = (if ref = ?ref then i else session_id c ref)" for ref
    using False by (simp add: emulateLongComputationOp_def session_id_def Let_def new_session_def)
  have "fst ` set (waiting ?c) = insert ?ref (fst ` set (waiting c))"
    using False by (simp add: emulateLongComputationOp_def Let_def)
  then have live: "live_pairs ?c = live_pairs c \<union> {(i, ?ref)}"
    using new' by (auto simp: live_pairs_def ids intro: rev_image_eqI)
  have "(i, q) \<notin> live_pairs c" for q
    using fresh client_okD(4) [OF ok, of i q] by (metis option.distinct(1))
  then have "find_session (m_active_sessions ?c) j = Some q \<longleftrightarrow> (j, q) \<in> live_pairs ?c" for j q
    using tab.exact_insert [of "m_active_sessions c" "live_pairs c" i ?ref j q] client_okD(4) [OF ok] False
    by (simp add: live) (simp add: emulateLongComputationOp_def Let_def)
  moreover have "distinct (map fst (waiting ?c))"
    using client_okD(1) [OF ok] new' False by (auto simp: emulateLongComputationOp_def Let_def)
  moreover have "list_all (\<lambda>ref. ref \<in> dom (session_heap ?c)) (map fst (waiting ?c))"
    using client_okD(2) [OF ok] False
    by (fastforce simp: emulateLongComputationOp_def Let_def list_all_iff)
  moreover have "\<forall>ref \<in> dom (session_heap ?c). ref < session_count ?c"
  proof -
    have "\<forall>ref \<in> dom (session_heap c). ref < session_count c" using client_okD(3) [OF ok] by blast
    then show ?thesis using False by (auto simp: emulateLongComputationOp_def Let_def less_Suc_eq)
  qed
  ultimately show ?thesis unfolding client_ok_def by blast
qed (use ok in \<open>auto simp: emulateLongComputationOp_def\<close>)

lemma client_ok_heap:
  assumes "client_ok c" and "session_heap c ref = Some s" and "ses_id s' = ses_id s"
  shows "client_ok (c\<lparr>session_heap := (session_heap c)(ref \<mapsto> s')\<rparr>)" (is "client_ok ?c")
proof -
  have "session_id ?c = session_id c"
    using assms(2,3) by (auto simp: session_id_def)
  then have "live_pairs ?c = live_pairs c" by (simp add: live_pairs_def)
  moreover have "dom (session_heap ?c) = dom (session_heap c)" using assms(2) by auto
  ultimately show ?thesis using assms(1) by (simp add: client_ok_def)
qed

lemma client_ok_cancel: "client_ok c \<Longrightarrow> client_ok (fst (cancelRequest ec i c))"
  by (auto simp: cancelRequest_def cancel_session_def intro: client_ok_heap split: option.split)

text \<open>The waiting operation of a session is gone: the session has left the table, or its next operation waits.\<close>

lemma client_ok_ended:
  assumes ok: "client_ok c" and w: "waiting c = xs @ (ref, k) # ys"
  shows "client_ok (c\<lparr>m_active_sessions := erase_session (m_active_sessions c) (session_id c ref), waiting := xs @ ys\<rparr>)"
    (is "client_ok ?c")
proof -
  have d: "distinct (map fst xs @ ref # map fst ys)" using client_okD(1) [OF ok] by (simp add: w)
  have live: "live_pairs ?c = live_pairs c - {(session_id c ref, ref)}"
    using d by (auto simp: live_pairs_def w image_Un)
  have "(session_id c ref, ref) \<in> live_pairs c" by (simp add: w)
  then have "find_session (m_active_sessions ?c) j = Some q \<longleftrightarrow> (j, q) \<in> live_pairs ?c" for j q
    unfolding live using tab.exact_erase [of "m_active_sessions c" "live_pairs c" "session_id c ref" ref j q]
      client_okD(4) [OF ok] by simp
  with ok d show ?thesis by (auto simp: client_ok_def list_all_iff w)
qed

lemma client_ok_continues:
  assumes ok: "client_ok c" and w: "waiting c = xs @ (ref, k) # ys"
  shows "client_ok (c\<lparr>waiting := xs @ ys @ [(ref, k')]\<rparr>)" (is "client_ok ?c")
proof -
  have "live_pairs ?c = live_pairs c" by (auto simp: live_pairs_def w image_Un)
  with ok show ?thesis by (auto simp: client_ok_def list_all_iff w simp del: live_pairs_iff)
qed

text \<open>What a completion does, in a state where every waiting session exists.\<close>

lemma complete_operationE:
  assumes "client_ok c" and n: "n < length (waiting c)"
  obtains ref k s s' as where "waiting c = take n (waiting c) @ (ref, k) # drop (Suc n) (waiting c)"
    and "waiting c ! n = (ref, k)" and "session_heap c ref = Some s"
    and "session_step k r (s, m_active_sessions c)
      = ((s', if conts as = [] then erase_session (m_active_sessions c) (ses_id s) else m_active_sessions c), as)"
    and "ses_id s' = ses_id s" and "conts as = [] \<or> (\<exists>k'. conts as = [k'])"
    and "complete_operation n r c =
      (c\<lparr>m_active_sessions := (if conts as = [] then erase_session (m_active_sessions c) (ses_id s) else m_active_sessions c),
         session_heap := (session_heap c)(ref \<mapsto> s'),
         waiting := take n (waiting c) @ drop (Suc n) (waiting c) @ map (\<lambda>k'. (ref, k')) (conts as)\<rparr>, as)"
proof -
  obtain ref k where nth: "waiting c ! n = (ref, k)" by (cases "waiting c ! n")
  with n have "ref \<in> fst ` set (waiting c)" by (metis fst_conv image_eqI nth_mem)
  with client_okD(2) [OF assms(1)] obtain s where s: "session_heap c ref = Some s" by blast
  obtain s' t' as where step: "session_step k r (s, m_active_sessions c) = ((s', t'), as)" by (metis prod.exhaust)
  from session_step_table [OF step] have
    t: "t' = (if conts as = [] then erase_session (m_active_sessions c) (ses_id s) else m_active_sessions c)" by auto
  show ?thesis
    by (rule that [OF _ nth s step [unfolded t]])
       (use session_step_table [OF step] id_take_nth_drop [OF n] n nth s step in
          \<open>auto simp: complete_operation_def simp flip: t\<close>)
qed

lemma client_ok_complete:
  assumes ok: "client_ok c"
  shows "client_ok (fst (complete_operation n r c))"
proof (cases "n < length (waiting c)")
  case True
  let ?xs = "take n (waiting c)" and ?ys = "drop (Suc n) (waiting c)"
  from complete_operationE [OF ok True, of r] obtain ref k s s' as where w: "waiting c = ?xs @ (ref, k) # ?ys"
    and s: "session_heap c ref = Some s" and id: "ses_id s' = ses_id s" and one: "conts as = [] \<or> (\<exists>k'. conts as = [k'])"
    and res: "complete_operation n r c =
      (c\<lparr>m_active_sessions := (if conts as = [] then erase_session (m_active_sessions c) (ses_id s) else m_active_sessions c),
         session_heap := (session_heap c)(ref \<mapsto> s'), waiting := ?xs @ ?ys @ map (\<lambda>k'. (ref, k')) (conts as)\<rparr>, as)"
    by metis
  define c1 where "c1 = c\<lparr>session_heap := (session_heap c)(ref \<mapsto> s')\<rparr>"
  have ok1: "client_ok c1" unfolding c1_def by (rule client_ok_heap [OF ok s id])
  have w1: "waiting c1 = ?xs @ (ref, k) # ?ys" using w by (simp add: c1_def)
  have "session_id c1 ref = ses_id s" using id by (simp add: c1_def session_id_def)
  then have "fst (complete_operation n r c) =
      (if conts as = [] then c1\<lparr>m_active_sessions := erase_session (m_active_sessions c1) (session_id c1 ref), waiting := ?xs @ ?ys\<rparr>
       else c1\<lparr>waiting := ?xs @ ?ys @ map (\<lambda>k'. (ref, k')) (conts as)\<rparr>)"
    by (simp add: res c1_def)
  with client_ok_ended [OF ok1 w1] client_ok_continues [OF ok1 w1] one show ?thesis by auto
qed (use ok in \<open>simp add: complete_operation_def\<close>)

lemma client_ok_close: "client_ok c \<Longrightarrow> client_ok (close_client c)"
  by (simp add: client_ok_def close_client_def live_pairs_def session_id_def)

lemma reachable_client_ok: "reachable_client c \<Longrightarrow> client_ok c"
proof (induction rule: reachable_client.induct)
  case start
  show ?case by (simp add: client_ok_def new_tcp_client_def live_pairs_def find_session_def)
next
  case (step c ev c')
  from step.hyps(2) step.IH show ?case
    by (cases rule: fresh_step.cases)
       (simp_all add: client_ok_emulate client_ok_cancel client_ok_complete client_ok_close)
qed

text \<open>C20: As long as no id is reused while it is in the table, the table of active sessions holds exactly the
  sessions of which an operation waits, under their ids.\<close>

theorem active_sessions_exact:
  assumes "reachable_client c"
  shows "find_session (m_active_sessions c) i = Some ref \<longleftrightarrow>
    ref \<in> fst ` set (waiting c) \<and> session_id c ref = i"
  using client_okD(4) [OF reachable_client_ok [OF assms], of i ref] by simp

definition demo_submit :: "u32 \<Rightarrow> client_event" where
  "demo_submit i = Submit no_error no_error 10 ''127.0.0.1'' 3333 (Some 7) i"

lemma submit_simp:
  "fst (client_step (demo_submit i) c) =
     c\<lparr>m_active_sessions := insert_session (m_active_sessions c) i (session_count c),
       session_heap := (session_heap c)(session_count c \<mapsto>
         new_session ''127.0.0.1'' 3333 (calc_request 10) i (Some 7)),
       session_count := Suc (session_count c),
       waiting := waiting c @ [(session_count c, On_Connected)]\<rparr>"
  by (simp add: demo_submit_def emulateLongComputationOp_def Let_def)

lemma demo_reachable: "reachable_client (fst (client_step (demo_submit 1) new_tcp_client))"
  unfolding demo_submit_def
  by (rule reachable_client.step [OF reachable_client.start fresh_step.submit])
     (simp add: find_session_def new_tcp_client_def)

theorem active_sessions_exact_witness:
  "find_session (m_active_sessions (fst (client_step (demo_submit 1) new_tcp_client))) 1 = Some 0"
proof -
  let ?c = "fst (client_step (demo_submit 1) new_tcp_client)"
  have "session_id ?c 0 = 1"
    by (simp only: submit_simp) (simp add: session_id_def new_tcp_client_def new_session_def)
  moreover have "0 \<in> fst ` set (waiting ?c)"
    by (simp only: submit_simp) (simp add: new_tcp_client_def)
  ultimately show ?thesis using active_sessions_exact [OF demo_reachable, of 1 0] by blast
qed

text \<open>\<^verbatim>\<open>cancelRequest\<close> marks the one waiting session that has the given id and no other; an id that no waiting
  session has is ignored.\<close>

theorem cancelRequest_marks_one:
  assumes "reachable_client c" and "cancelRequest ec i c = (c', as)"
  shows "session_heap c' ref =
    (if ref \<in> fst ` set (waiting c) \<and> session_id c ref = i
     then map_option (\<lambda>s. s\<lparr>ses_was_cancelled := True\<rparr>) (session_heap c ref)
     else session_heap c ref)"
proof -
  note table = client_okD(4) [OF reachable_client_ok [OF assms(1)], unfolded live_pairs_iff]
  show ?thesis
  proof (cases "find_session (m_active_sessions c) i")
    case None
    with table [of i ref] assms(2) show ?thesis by (auto simp: cancelRequest_def)
  next
    case (Some q)
    with table [of i q] obtain s where s: "session_heap c q = Some s"
      using client_okD(2) [OF reachable_client_ok [OF assms(1)]] by blast
    have "(ref \<in> fst ` set (waiting c) \<and> session_id c ref = i) = (ref = q)"
      using table [of i ref] Some by auto
    with Some s assms(2) show ?thesis by (auto simp: cancelRequest_def cancel_session_def)
  qed
qed

theorem cancelRequest_marks_one_witness:
  "map_option ses_was_cancelled (session_heap (fst (cancelRequest no_error 1
     (fst (client_step (demo_submit 1) new_tcp_client)))) 0) = Some True"
proof -
  let ?c = "fst (client_step (demo_submit 1) new_tcp_client)"
  have id: "session_id ?c 0 = 1" and mem: "0 \<in> fst ` set (waiting ?c)"
    and heap: "session_heap ?c 0 = Some demo_session"
    by (simp_all only: submit_simp)
       (simp_all add: session_id_def new_tcp_client_def new_session_def demo_session_def)
  obtain c' as where c': "cancelRequest no_error 1 ?c = (c', as)" by (cases "cancelRequest no_error 1 ?c")
  from cancelRequest_marks_one [OF demo_reachable c', of 0] show ?thesis
    by (simp only: c' id mem heap) simp
qed

text \<open>C36: Reusing an id while its first request is still running loses the second one: when the first request
  completes it erases the entry of the second, which still waits for its connection but can no longer be cancelled.\<close>

theorem reused_id_not_cancellable:
  assumes "client_run [Submit no_error no_error d ip port cb i, Submit no_error no_error d' ip' port' cb' i,
      Complete (length (waiting c)) (session_answer failure [])] c = c'" and "is_error failure"
  shows "(Suc (session_count c), On_Connected) \<in> set (waiting c') \<and>
    map_option ses_id (session_heap c' (Suc (session_count c))) = Some i \<and>
    cancelRequest ec i c' = (c', [])"
proof -
  have "waiting c' = waiting c @ [(Suc (session_count c), On_Connected)]"
    and "find_session (m_active_sessions c') i = None"
    and "session_heap c' (Suc (session_count c)) = Some (new_session ip' port' (calc_request d') i cb')"
    using assms(1,2)
    by (auto simp: client_run_def emulateLongComputationOp_def Let_def complete_operation_def nth_append
        session_step_def on_connected_def onRequestComplete_def new_session_def find_session_def
        insert_session_def erase_session_def split: option.split)
  then show ?thesis by (simp add: cancelRequest_def new_session_def)
qed

theorem reused_id_not_cancellable_witness:
  "\<exists>c'. client_run [demo_submit 5, demo_submit 5, Complete 0 (session_answer asio_eof [])] new_tcp_client = c' \<and>
     cancelRequest no_error 5 c' = (c', [])"
proof -
  obtain c' where run: "client_run [demo_submit 5, demo_submit 5, Complete 0 (session_answer asio_eof [])]
      new_tcp_client = c'" by blast
  then have run': "client_run [Submit no_error no_error 10 ''127.0.0.1'' 3333 (Some 7) 5,
      Submit no_error no_error 10 ''127.0.0.1'' 3333 (Some 7) 5,
      Complete (length (waiting new_tcp_client)) (session_answer asio_eof [])] new_tcp_client = c'"
    by (simp add: demo_submit_def new_tcp_client_def)
  have "is_error asio_eof" by simp
  with run show ?thesis using reused_id_not_cancellable [OF run'] by blast
qed

text \<open>When \<^verbatim>\<open>close\<close> returns, no session waits and the table of active sessions is empty.\<close>

lemma close_leaves_no_session:
  "reachable_client c \<Longrightarrow> join_returns c \<Longrightarrow> find_session (m_active_sessions c) i = None"
  using client_okD(4) [OF reachable_client_ok, of c i]
  by (cases "find_session (m_active_sessions c) i") (auto simp: join_returns_def)

text \<open>
  A bad address or a failing \<^verbatim>\<open>open\<close> is thrown to the caller before anything is registered: the client is
  unchanged and no operation is started.
\<close>

lemma failed_submission_unchanged:
  "is_error aec \<or> is_error oec \<Longrightarrow> client_step (Submit aec oec d ip port cb i) c =
    (c, [Raise (System_Error (if is_error aec then aec else oec))])"
  by (auto simp: emulateLongComputationOp_def)

end
