(* ===== verification/Mutexes.thy ===== *)
theory Mutexes
  imports Prelude
begin

section \<open>Mutexes\<close>

text \<open>
  What the three models at the level of the mutexes share (\<open>Async_Tcp_Locks\<close>, \<open>Async_Tcp_Mt\<close>, \<open>Http_Client_Locks\<close>): threads
  are a list of places, a place holds some mutexes, and a thread acquires a mutex only while no thread holds it.
  \<^verbatim>\<open>std::unique_lock\<close> on \<^verbatim>\<open>std::mutex\<close> is used for nothing else in the code.
\<close>

definition nobody_holds :: "('p \<Rightarrow> 'm \<Rightarrow> bool) \<Rightarrow> 'm \<Rightarrow> 'p list \<Rightarrow> bool" where
  "nobody_holds holds m ps \<longleftrightarrow> list_all (\<lambda>p. \<not> holds p m) ps"

definition exclusive_holders :: "('p \<Rightarrow> 'm \<Rightarrow> bool) \<Rightarrow> 'p list \<Rightarrow> bool" where
  "exclusive_holders holds ps \<longleftrightarrow> (\<forall>m. length (filter (\<lambda>p. holds p m) ps) \<le> 1)"

lemma nobody_holds_filter: "nobody_holds holds m ps \<longleftrightarrow> filter (\<lambda>p. holds p m) ps = []"
  by (simp add: nobody_holds_def filter_empty_conv list_all_iff)

lemma exclusive_holders_Nil [simp]: "exclusive_holders holds []"
  by (simp add: exclusive_holders_def)

lemma exclusive_holders_append [simp]:
  "(\<And>m. \<not> holds p m) \<Longrightarrow> exclusive_holders holds (ps @ [p]) \<longleftrightarrow> exclusive_holders holds ps"
  by (simp add: exclusive_holders_def)

lemma exclusive_holdersD:
  assumes "exclusive_holders holds ps" and "j < length ps" and "k < length ps" and "holds (ps ! j) m" and "holds (ps ! k) m"
  shows "j = k"
proof (rule ccontr)
  assume "j \<noteq> k"
  from two_in_filter [OF assms(2,3) this, of "\<lambda>p. holds p m"] assms(4,5) have "2 \<le> length (filter (\<lambda>p. holds p m) ps)" by simp
  moreover have "length (filter (\<lambda>p. holds p m) ps) \<le> 1" using assms(1) by (simp add: exclusive_holders_def)
  ultimately show False by linarith
qed

text \<open>The same in terms of positions.\<close>

lemma exclusive_holdersI:
  assumes "\<And>m i j. i < length ps \<Longrightarrow> j < length ps \<Longrightarrow> holds (ps ! i) m \<Longrightarrow> holds (ps ! j) m \<Longrightarrow> i = j"
  shows "exclusive_holders holds ps"
  unfolding exclusive_holders_def
proof
  fix m
  have "card {i. i < length ps \<and> holds (ps ! i) m} \<le> Suc 0"
    using assms by (intro card_le_Suc0_iff_eq [THEN iffD2]) auto
  then show "length (filter (\<lambda>p. holds p m) ps) \<le> 1" by (simp add: length_filter_conv_card)
qed

text \<open>The discipline of the moves.\<close>

locale mutex_discipline =
  fixes holds :: "'p \<Rightarrow> 'm \<Rightarrow> bool"
    and moves :: "'p list \<Rightarrow> 'p \<Rightarrow> 'p \<Rightarrow> bool"
  assumes acquires: "moves ps p p' \<Longrightarrow> holds p' m \<Longrightarrow> holds p m \<or> nobody_holds holds m ps"
begin

lemma move_exclusive:
  assumes "exclusive_holders holds ps" and "j < length ps" and "moves ps (ps ! j) p"
  shows "exclusive_holders holds (ps[j := p])"
  unfolding exclusive_holders_def
proof
  fix m
  have "length (filter (\<lambda>p. holds p m) ps) \<le> 1" using assms(1) by (simp add: exclusive_holders_def)
  then show "length (filter (\<lambda>p. holds p m) (ps[j := p])) \<le> 1"
    using filter_update_length [OF assms(2), of "\<lambda>p. holds p m" p] acquires [OF assms(3), of m]
    by (auto simp: nobody_holds_filter split: if_splits)
qed

end

end
