(* ===== verification/Async_Tcp_Locks.thy ===== *)
theory Async_Tcp_Locks
  imports Async_Tcp_Client Mutexes
begin

section \<open>Asynchronous TCP client: the mutexes\<close>

text \<open>
  The locking of \<^verbatim>\<open>chapter3/asyncTCPClient/asynctcpclient.cpp\<close> and of its copy with a thread pool in
  \<^verbatim>\<open>asyncTCPClientMT\<close>: \<^verbatim>\<open>m_active_sessions_guard\<close> and one \<^verbatim>\<open>m_cancel_guard\<close> per session. An activity is the
  chain of one session (its submission, its handlers one after the other, its completion) or one call of
  \<^verbatim>\<open>cancelRequest\<close>; the constructor of an activity is the place its code has reached. Any activity whose
  next lock is free may move, so the steps cover every schedule of any number of user and I/O threads. A
  mutex is held by the activities whose place lies inside the scope of its \<^verbatim>\<open>unique_lock\<close>.
\<close>

datatype mutex = Active_Sessions_Guard | Cancel_Guard nat

datatype activity =
  Submit_Lock nat                 \<comment> \<open>\<^verbatim>\<open>emulateLongComputationOp\<close>, before its lock\<close>
| Submit_Insert nat
| Io_Pending nat nat              \<comment> \<open>operation 0, 1 or 2 of the session is waiting\<close>
| Io_Handler nat nat bool         \<comment> \<open>its lambda runs, with an error or not\<close>
| Io_Check nat nat
| Complete_Lock nat bool          \<comment> \<open>\<^verbatim>\<open>onRequestComplete\<close>; whether the caller holds \<^verbatim>\<open>cancel_lock\<close>\<close>
| Complete_Erase nat bool
| Complete_Callback nat bool
| Cancel_Lock u32                 \<comment> \<open>\<^verbatim>\<open>cancelRequest\<close>, before its first lock\<close>
| Cancel_Find u32
| Cancel_Wait u32 nat             \<comment> \<open>found the session, before its \<^verbatim>\<open>m_cancel_guard\<close>\<close>
| Cancel_Mark u32 nat
| Finished

fun holds :: "activity \<Rightarrow> mutex \<Rightarrow> bool" where
  "holds (Submit_Insert s) m = (m = Active_Sessions_Guard)"
| "holds (Io_Check s n) m = (m = Cancel_Guard s)"
| "holds (Complete_Lock s h) m = (h \<and> m = Cancel_Guard s)"
| "holds (Complete_Erase s h) m = (m = Active_Sessions_Guard \<or> (h \<and> m = Cancel_Guard s))"
| "holds (Complete_Callback s h) m = (h \<and> m = Cancel_Guard s)"
| "holds (Cancel_Find i) m = (m = Active_Sessions_Guard)"
| "holds (Cancel_Wait i s) m = (m = Active_Sessions_Guard)"
| "holds (Cancel_Mark i s) m = (m = Active_Sessions_Guard \<or> m = Cancel_Guard s)"
| "holds _ m = False"

record shared_data =
  sh_table :: "u32 \<rightharpoonup> nat"
  sh_cancelled :: "nat \<Rightarrow> bool"

definition no_sessions :: shared_data where
  "no_sessions = \<lparr>sh_table = Map.empty, sh_cancelled = (\<lambda>s. False)\<rparr>"

definition free :: "mutex \<Rightarrow> activity list \<Rightarrow> bool" where
  "free m ts \<longleftrightarrow> list_all (\<lambda>a. \<not> holds a m) ts"

text \<open>One move of one activity; \<open>ids\<close> gives the request id of a session.\<close>

inductive activity_step ::
  "(nat \<Rightarrow> u32) \<Rightarrow> activity list \<Rightarrow> activity \<Rightarrow> shared_data \<Rightarrow> activity \<Rightarrow> shared_data \<Rightarrow> bool"
  for ids :: "nat \<Rightarrow> u32" and ts :: "activity list" where
  submit_lock: "free Active_Sessions_Guard ts \<Longrightarrow> activity_step ids ts (Submit_Lock s) d (Submit_Insert s) d"
| submit_insert: "activity_step ids ts (Submit_Insert s) d (Io_Pending s 0)
    (d\<lparr>sh_table := (sh_table d)(ids s \<mapsto> s)\<rparr>)"
| io_completes: "activity_step ids ts (Io_Pending s n) d (Io_Handler s n e) d"
| io_error: "e \<or> n = 2 \<Longrightarrow> activity_step ids ts (Io_Handler s n e) d (Complete_Lock s False) d"
| io_lock: "free (Cancel_Guard s) ts \<Longrightarrow> n \<noteq> 2 \<Longrightarrow> activity_step ids ts (Io_Handler s n False) d (Io_Check s n) d"
| io_cancelled: "sh_cancelled d s \<Longrightarrow> activity_step ids ts (Io_Check s n) d (Complete_Lock s True) d"
| io_next: "\<not> sh_cancelled d s \<Longrightarrow> activity_step ids ts (Io_Check s n) d (Io_Pending s (Suc n)) d"
| complete_lock: "free Active_Sessions_Guard ts \<Longrightarrow>
    activity_step ids ts (Complete_Lock s h) d (Complete_Erase s h) d"
| complete_erase: "activity_step ids ts (Complete_Erase s h) d (Complete_Callback s h)
    (d\<lparr>sh_table := (sh_table d)(ids s := None)\<rparr>)"
| complete_callback: "activity_step ids ts (Complete_Callback s h) d Finished d"
| cancel_lock: "free Active_Sessions_Guard ts \<Longrightarrow> activity_step ids ts (Cancel_Lock i) d (Cancel_Find i) d"
| cancel_unknown: "sh_table d i = None \<Longrightarrow> activity_step ids ts (Cancel_Find i) d Finished d"
| cancel_found: "sh_table d i = Some s \<Longrightarrow> activity_step ids ts (Cancel_Find i) d (Cancel_Wait i s) d"
| cancel_guard: "free (Cancel_Guard s) ts \<Longrightarrow> activity_step ids ts (Cancel_Wait i s) d (Cancel_Mark i s) d"
| cancel_mark: "activity_step ids ts (Cancel_Mark i s) d Finished (d\<lparr>sh_cancelled := (sh_cancelled d)(s := True)\<rparr>)"

inductive_simps activity_step_simps [simp]:
  "activity_step ids ts (Submit_Lock s) d a d'" "activity_step ids ts (Submit_Insert s) d a d'"
  "activity_step ids ts (Io_Pending s n) d a d'" "activity_step ids ts (Io_Handler s n e) d a d'"
  "activity_step ids ts (Io_Check s n) d a d'" "activity_step ids ts (Complete_Lock s h) d a d'"
  "activity_step ids ts (Complete_Erase s h) d a d'" "activity_step ids ts (Complete_Callback s h) d a d'"
  "activity_step ids ts (Cancel_Lock i) d a d'" "activity_step ids ts (Cancel_Find i) d a d'"
  "activity_step ids ts (Cancel_Wait i s) d a d'" "activity_step ids ts (Cancel_Mark i s) d a d'"
  "activity_step ids ts Finished d a d'"

type_synonym lock_state = "activity list \<times> shared_data"

inductive lock_step :: "(nat \<Rightarrow> u32) \<Rightarrow> lock_state \<Rightarrow> lock_state \<Rightarrow> bool" for ids :: "nat \<Rightarrow> u32" where
  move: "k < length ts \<Longrightarrow> activity_step ids ts (ts ! k) d a d' \<Longrightarrow> lock_step ids (ts, d) (ts[k := a], d')"

inductive_cases lock_stepE: "lock_step ids (ts, d) st"

inductive lock_reachable :: "(nat \<Rightarrow> u32) \<Rightarrow> activity list \<Rightarrow> lock_state \<Rightarrow> bool"
  for ids :: "nat \<Rightarrow> u32" and ts0 :: "activity list" where
  start: "lock_reachable ids ts0 (ts0, no_sessions)"
| step: "lock_reachable ids ts0 st \<Longrightarrow> lock_step ids st st' \<Longrightarrow> lock_reachable ids ts0 st'"

definition stuck :: "(nat \<Rightarrow> u32) \<Rightarrow> lock_state \<Rightarrow> bool" where
  "stuck ids st \<longleftrightarrow> (\<nexists>st'. lock_step ids st st')"

end
