(* ===== verification/Async_Tcp_Lock_Properties.thy ===== *)
theory Async_Tcp_Lock_Properties
  imports Async_Tcp_Locks
begin

section \<open>Asynchronous TCP client: mutual exclusion, races and deadlock\<close>

text \<open>
  What the locking guarantees for any number of requests and cancelling threads (mutual exclusion; the
  unlocked read of \<^verbatim>\<open>m_was_cancelled\<close> in \<^verbatim>\<open>onRequestComplete\<close> never meets a write), and where it fails: the
  two mutexes are taken in opposite orders by \<^verbatim>\<open>cancelRequest\<close> and by a handler that finds its request
  cancelled. With one \<^verbatim>\<open>cancelRequest\<close> per id the code cannot deadlock and always finishes; with two it can.
\<close>

text \<open>The session whose chain an activity is, and the id an activity cancels.\<close>

fun chain_of :: "activity \<Rightarrow> nat option" where
  "chain_of (Submit_Lock s) = Some s"
| "chain_of (Submit_Insert s) = Some s"
| "chain_of (Io_Pending s n) = Some s"
| "chain_of (Io_Handler s n e) = Some s"
| "chain_of (Io_Check s n) = Some s"
| "chain_of (Complete_Lock s h) = Some s"
| "chain_of (Complete_Erase s h) = Some s"
| "chain_of (Complete_Callback s h) = Some s"
| "chain_of _ = None"

fun cancels_id :: "activity \<Rightarrow> u32 option" where
  "cancels_id (Cancel_Lock i) = Some i"
| "cancels_id (Cancel_Find i) = Some i"
| "cancels_id (Cancel_Wait i s) = Some i"
| "cancels_id (Cancel_Mark i s) = Some i"
| "cancels_id _ = None"

definition unique_by :: "('a \<Rightarrow> 'b option) \<Rightarrow> 'a list \<Rightarrow> bool" where
  "unique_by f xs \<longleftrightarrow> (\<forall>i < length xs. \<forall>j < length xs. i \<noteq> j \<longrightarrow> f (xs ! i) \<noteq> None \<longrightarrow> f (xs ! i) \<noteq> f (xs ! j))"

lemma unique_by_update:
  "unique_by f xs \<Longrightarrow> k < length xs \<Longrightarrow> f y = f (xs ! k) \<or> f y = None \<Longrightarrow> unique_by f (xs[k := y])"
  unfolding unique_by_def by (auto simp: nth_list_update) (metis option.distinct(1))+

text \<open>The initial activities: submissions of different sessions and calls of \<^verbatim>\<open>cancelRequest\<close>.\<close>

definition initial_activity :: "activity \<Rightarrow> bool" where
  "initial_activity a = (case a of Submit_Lock s \<Rightarrow> True | Cancel_Lock i \<Rightarrow> True | _ \<Rightarrow> False)"

definition initial_activities :: "activity list \<Rightarrow> bool" where
  "initial_activities ts \<longleftrightarrow> list_all initial_activity ts \<and> unique_by chain_of ts"

lemma activity_step_chain:
  "activity_step ids ts a d a' d' \<Longrightarrow> chain_of a' = chain_of a \<or> chain_of a' = None"
  by (cases rule: activity_step.cases) auto

lemma activity_step_cancels:
  "activity_step ids ts a d a' d' \<Longrightarrow> cancels_id a' = cancels_id a \<or> cancels_id a' = None"
  by (cases rule: activity_step.cases) auto

text \<open>A mutex newly held by a step was free.\<close>

lemma activity_step_acquires:
  "activity_step ids ts a d a' d' \<Longrightarrow> holds a' m \<Longrightarrow> holds a m \<or> free m ts"
  by (cases rule: activity_step.cases) auto

lemma unique_by_step:
  assumes "lock_step ids (ts, d) (ts', d')"
  shows "(unique_by chain_of ts \<longrightarrow> unique_by chain_of ts') \<and> (unique_by cancels_id ts \<longrightarrow> unique_by cancels_id ts')"
proof -
  from assms obtain k a where k: "k < length ts" "activity_step ids ts (ts ! k) d a d'"
    and ts': "ts' = ts[k := a]" by (auto elim: lock_stepE)
  show ?thesis unfolding ts'
    using unique_by_update [OF _ k(1) activity_step_chain [OF k(2)]]
      unique_by_update [OF _ k(1) activity_step_cancels [OF k(2)]] by blast
qed

subsection \<open>The invariant\<close>

definition exclusive :: "activity list \<Rightarrow> bool" where
  "exclusive ts \<longleftrightarrow> (\<forall>m. \<forall>i < length ts. \<forall>j < length ts. holds (ts ! i) m \<longrightarrow> holds (ts ! j) m \<longrightarrow> i = j)"

lemma exclusiveD:
  "exclusive ts \<Longrightarrow> i < length ts \<Longrightarrow> j < length ts \<Longrightarrow> holds (ts ! i) m \<Longrightarrow> holds (ts ! j) m \<Longrightarrow> i = j"
  by (auto simp: exclusive_def)

interpretation locks: mutex_discipline holds "\<lambda>ts a a'. \<exists>ids d d'. activity_step ids ts a d a' d'"
proof
  fix ts a a' m assume "\<exists>ids d d'. activity_step ids ts a d a' d'" and "holds a' m"
  then show "holds a m \<or> nobody_holds holds m ts"
    unfolding nobody_holds_def free_def [symmetric] using activity_step_acquires by blast
qed

lemma exclusive_iff: "exclusive ts \<longleftrightarrow> exclusive_holders holds ts"
  by (auto simp: exclusive_def intro: exclusive_holdersI dest: exclusive_holdersD)

lemma exclusive_step:
  assumes "exclusive ts" and "lock_step ids (ts, d) (ts', d')"
  shows "exclusive ts'"
proof -
  from assms(2) obtain k a where k: "k < length ts" "activity_step ids ts (ts ! k) d a d'" and ts': "ts' = ts[k := a]"
    by (auto elim: lock_stepE)
  from k(2) have "\<exists>ids d d'. activity_step ids ts (ts ! k) d a d'" by blast
  with locks.move_exclusive [OF _ k(1)] assms(1) show ?thesis by (simp add: exclusive_iff ts')
qed

fun activity_ok :: "(nat \<Rightarrow> u32) \<Rightarrow> shared_data \<Rightarrow> activity \<Rightarrow> bool" where
  "activity_ok ids d (Cancel_Wait i s) = (sh_table d i = Some s)"
| "activity_ok ids d (Cancel_Mark i s) = (sh_table d i = Some s)"
| "activity_ok ids d (Complete_Lock s h) = (h \<longrightarrow> sh_cancelled d s)"
| "activity_ok ids d (Complete_Erase s h) = (h \<longrightarrow> sh_cancelled d s)"
| "activity_ok ids d (Complete_Callback s h) = (sh_table d (ids s) \<noteq> Some s)"
| "activity_ok ids d _ = True"

definition lock_ok :: "(nat \<Rightarrow> u32) \<Rightarrow> lock_state \<Rightarrow> bool" where
  "lock_ok ids st = (case st of (ts, d) \<Rightarrow>
     exclusive ts \<and> unique_by chain_of ts \<and> (\<forall>i s. sh_table d i = Some s \<longrightarrow> ids s = i) \<and>
     list_all (activity_ok ids d) ts)"

text \<open>What a step does to the shared data: only a holder of the first mutex changes the table.\<close>

lemma activity_step_table:
  "activity_step ids ts a d a' d' \<Longrightarrow> sh_table d' = sh_table d \<or> holds a Active_Sessions_Guard"
  by (erule activity_step.cases) simp_all

lemma activity_step_entry:
  "activity_step ids ts a d a' d' \<Longrightarrow> sh_table d' i = Some s \<Longrightarrow> sh_table d i = Some s \<or> chain_of a = Some s"
  by (erule activity_step.cases) (auto split: if_splits)

lemma activity_step_cancelled:
  "activity_step ids ts a d a' d' \<Longrightarrow> sh_cancelled d s \<Longrightarrow> sh_cancelled d' s"
  by (erule activity_step.cases) simp_all

lemma activity_step_ok:
  assumes "activity_step ids ts a d a' d'" and "activity_ok ids d a"
  shows "activity_ok ids d' a'"
  using assms by (cases rule: activity_step.cases) simp_all

lemma activity_ok_frame:
  assumes step: "activity_step ids ts a d a' d'" and ok: "activity_ok ids d b"
    and excl: "\<And>m. \<not> (holds a m \<and> holds b m)" and chain: "chain_of a \<noteq> None \<Longrightarrow> chain_of a \<noteq> chain_of b"
  shows "activity_ok ids d' b"
proof (cases b)
  case (Complete_Callback s h)
  then show ?thesis using ok chain activity_step_entry [OF step, of "ids s" s] by auto
next
  case (Complete_Lock s h)
  then show ?thesis using ok activity_step_cancelled [OF step, of s] by simp
next
  case (Complete_Erase s h)
  then show ?thesis using ok activity_step_cancelled [OF step, of s] by simp
qed (use ok activity_step_table [OF step] excl [of Active_Sessions_Guard] in auto)

lemma lock_ok_step:
  assumes "lock_ok ids st" and "lock_step ids st st'"
  shows "lock_ok ids st'"
proof -
  obtain ts d ts' d' where st: "st = (ts, d)" "st' = (ts', d')" by (metis prod.exhaust)
  from assms(2) obtain k a where k: "k < length ts" and step: "activity_step ids ts (ts ! k) d a d'"
    and ts': "ts' = ts[k := a]" unfolding st by (auto elim: lock_stepE)
  have ok: "exclusive ts" "unique_by chain_of ts" "\<And>i s. sh_table d i = Some s \<Longrightarrow> ids s = i"
    "\<And>j. j < length ts \<Longrightarrow> activity_ok ids d (ts ! j)"
    using assms(1) by (auto simp: st lock_ok_def list_all_length)
  have "activity_ok ids d' (ts' ! j)" if "j < length ts'" for j
  proof (cases "j = k")
    case True
    then show ?thesis using activity_step_ok [OF step ok(4) [OF k]] k by (simp add: ts')
  next
    case False
    have "activity_ok ids d' (ts ! j)"
      by (rule activity_ok_frame [OF step])
         (use that False k ok in \<open>auto simp: ts' unique_by_def dest: exclusiveD\<close>)
    with False show ?thesis by (simp add: ts')
  qed
  moreover have "\<forall>i s. sh_table d' i = Some s \<longrightarrow> ids s = i"
    using step ok(3) by (cases rule: activity_step.cases) auto
  ultimately show ?thesis
    using exclusive_step unique_by_step ok(1,2) assms(2) unfolding st
    by (simp add: lock_ok_def list_all_length)
qed

lemma initial_not_holds: "initial_activity a \<Longrightarrow> \<not> holds a m"
  by (auto simp: initial_activity_def split: activity.splits)

lemma lock_reachable_ok:
  assumes "lock_reachable ids ts0 st" and "initial_activities ts0"
  shows "lock_ok ids st"
  using assms(1)
proof (induction rule: lock_reachable.induct)
  case start
  have "activity_ok ids d a" if "initial_activity a" for a d
    using that by (auto simp: initial_activity_def split: activity.splits)
  then show ?case
    using assms(2) initial_not_holds
    by (auto simp: lock_ok_def exclusive_def initial_activities_def no_sessions_def list_all_length)
qed (rule lock_ok_step)

text \<open>C23: The two mutexes are never held twice, and while a completed request reads \<^verbatim>\<open>m_was_cancelled\<close> in
  \<^verbatim>\<open>onRequestComplete\<close>, which it does without \<^verbatim>\<open>m_cancel_guard\<close> when an operation failed, no \<^verbatim>\<open>cancelRequest\<close>
  is writing it, for any number of requests, cancellations and threads.\<close>

theorem cancel_flag_race_free:
  assumes "initial_activities ts0" and "lock_reachable ids ts0 (ts, d)"
  shows "exclusive ts \<and> \<not> (Complete_Callback s h \<in> set ts \<and> Cancel_Mark i s \<in> set ts)"
proof -
  note ok = lock_reachable_ok [OF assms(2,1), unfolded lock_ok_def list_all_iff, simplified]
  have False if "Complete_Callback s h \<in> set ts" and "Cancel_Mark i s \<in> set ts"
    using ok that by (metis activity_ok.simps(2,5))
  with ok show ?thesis by blast
qed

subsection \<open>The lock order\<close>

lemma lock_reachable_move:
  "lock_reachable ids ts0 (ts, d) \<Longrightarrow> k < length ts \<Longrightarrow> activity_step ids ts (ts ! k) d a d' \<Longrightarrow>
   ts' = ts[k := a] \<Longrightarrow> lock_reachable ids ts0 (ts', d')"
  by (blast intro: lock_reachable.step lock_step.move)

definition deadlocked :: "activity list" where
  "deadlocked = [Complete_Lock 0 True, Finished, Cancel_Wait 1 0]"

text \<open>The schedule: submit, cancel, connect, second cancel finds the session, the handler sees the flag.\<close>

lemma deadlock_schedule:
  "\<exists>d. lock_reachable (\<lambda>s. 1) [Submit_Lock 0, Cancel_Lock 1, Cancel_Lock 1] (deadlocked, d)"
proof -
  let ?R = "lock_reachable (\<lambda>s. 1) [Submit_Lock 0, Cancel_Lock 1, Cancel_Lock 1]"
  let ?d = "no_sessions\<lparr>sh_table := [1 \<mapsto> 0]\<rparr>" and ?e = "no_sessions\<lparr>sh_table := [1 \<mapsto> 0], sh_cancelled := (\<lambda>s. s = 0)\<rparr>"
  have flag: "(\<lambda>s. False)(0 := True) = (\<lambda>s. s = (0::nat))" by (simp add: fun_eq_iff)
  note simps = free_def no_sessions_def flag
  have "?R ([Submit_Insert 0, Cancel_Lock 1, Cancel_Lock 1], no_sessions)"
    by (rule lock_reachable_move [OF lock_reachable.start, of 0]) (simp_all add: simps)
  then have "?R ([Io_Pending 0 0, Cancel_Lock 1, Cancel_Lock 1], ?d)"
    by (rule lock_reachable_move [where k = 0]) (simp_all add: simps)
  then have "?R ([Io_Pending 0 0, Cancel_Find 1, Cancel_Lock 1], ?d)"
    by (rule lock_reachable_move [where k = 1]) (simp_all add: simps)
  then have "?R ([Io_Pending 0 0, Cancel_Wait 1 0, Cancel_Lock 1], ?d)"
    by (rule lock_reachable_move [where k = 1]) (simp_all add: simps)
  then have "?R ([Io_Pending 0 0, Cancel_Mark 1 0, Cancel_Lock 1], ?d)"
    by (rule lock_reachable_move [where k = 1]) (simp_all add: simps)
  then have "?R ([Io_Pending 0 0, Finished, Cancel_Lock 1], ?e)"
    by (rule lock_reachable_move [where k = 1]) (simp_all add: simps)
  then have "?R ([Io_Handler 0 0 False, Finished, Cancel_Lock 1], ?e)"
    by (rule lock_reachable_move [where k = 0]) (auto simp: simps)
  then have "?R ([Io_Check 0 0, Finished, Cancel_Lock 1], ?e)"
    by (rule lock_reachable_move [where k = 0]) (simp_all add: simps)
  then have "?R ([Io_Check 0 0, Finished, Cancel_Find 1], ?e)"
    by (rule lock_reachable_move [where k = 2]) (simp_all add: simps)
  then have "?R ([Io_Check 0 0, Finished, Cancel_Wait 1 0], ?e)"
    by (rule lock_reachable_move [where k = 2]) (simp_all add: simps)
  then have "?R ([Complete_Lock 0 True, Finished, Cancel_Wait 1 0], ?e)"
    by (rule lock_reachable_move [where k = 0]) (simp_all add: simps)
  then show ?thesis unfolding deadlocked_def by blast
qed

lemma deadlocked_stuck: "stuck ids (deadlocked, d)"
  by (auto simp: stuck_def deadlocked_def free_def less_Suc_eq elim!: lock_stepE)

text \<open>C22: Two calls of \<^verbatim>\<open>cancelRequest\<close> for the same request can deadlock the client: the first cancels it, the second
  holds \<^verbatim>\<open>m_active_sessions_guard\<close> and waits for \<^verbatim>\<open>m_cancel_guard\<close>, while the handler that saw the flag holds
  \<^verbatim>\<open>m_cancel_guard\<close> and waits in \<^verbatim>\<open>onRequestComplete\<close> for \<^verbatim>\<open>m_active_sessions_guard\<close>. Neither moves again.\<close>

theorem two_cancels_deadlock:
  "\<exists>ts d. lock_reachable (\<lambda>s. 1) [Submit_Lock 0, Cancel_Lock 1, Cancel_Lock 1] (ts, d) \<and>
     stuck (\<lambda>s. 1) (ts, d) \<and> Complete_Lock 0 True \<in> set ts \<and> Cancel_Wait 1 0 \<in> set ts"
  using deadlock_schedule deadlocked_stuck by (fastforce simp: deadlocked_def)

subsection \<open>One cancellation per id\<close>

definition single_cancels :: "(nat \<Rightarrow> u32) \<Rightarrow> lock_state \<Rightarrow> bool" where
  "single_cancels ids st = (case st of (ts, d) \<Rightarrow> unique_by cancels_id ts \<and>
     (\<forall>s. sh_cancelled d s \<longrightarrow> list_all (\<lambda>a. cancels_id a \<noteq> Some (ids s)) ts))"

lemma cancelled_by_step:
  "activity_step ids ts a d a' d' \<Longrightarrow> sh_cancelled d' s \<Longrightarrow>
   sh_cancelled d s \<or> (\<exists>i. a = Cancel_Mark i s \<and> a' = Finished)"
  by (erule activity_step.cases) (auto split: if_splits)

lemma single_cancels_step:
  assumes "single_cancels ids st" and "lock_ok ids st" and "lock_step ids st st'"
  shows "single_cancels ids st'"
proof -
  obtain ts d ts' d' where st: "st = (ts, d)" "st' = (ts', d')" by (metis prod.exhaust)
  from assms(3) obtain k a where k: "k < length ts" and step: "activity_step ids ts (ts ! k) d a d'"
    and ts': "ts' = ts[k := a]" unfolding st by (auto elim: lock_stepE)
  have uniq: "unique_by cancels_id ts"
    and flag: "\<And>s j. sh_cancelled d s \<Longrightarrow> j < length ts \<Longrightarrow> cancels_id (ts ! j) \<noteq> Some (ids s)"
    using assms(1) by (auto simp: st single_cancels_def list_all_length)
  have "cancels_id (ts' ! j) \<noteq> Some (ids s)" if c: "sh_cancelled d' s" and j: "j < length ts'" for s j
  proof (cases "sh_cancelled d s")
    case True
    with flag [OF True k] flag [OF True, of j] j activity_step_cancels [OF step] k show ?thesis
      by (cases "j = k") (auto simp: ts')
  next
    case False
    with cancelled_by_step [OF step c] obtain i where mark: "ts ! k = Cancel_Mark i s" and a: "a = Finished"
      by blast
    have "activity_ok ids d (ts ! k)" and "\<And>i s. sh_table d i = Some s \<Longrightarrow> ids s = i"
      using assms(2) k by (auto simp: st lock_ok_def list_all_length)
    with mark have "ids s = i" by simp
    with uniq k j mark a show ?thesis
      by (cases "j = k") (fastforce simp: ts' unique_by_def)+
  qed
  with unique_by_step [OF assms(3) [unfolded st]] uniq show ?thesis
    by (simp add: st single_cancels_def list_all_length)
qed

lemma single_cancels_reachable:
  assumes "lock_reachable ids ts0 st" and "initial_activities ts0" and "unique_by cancels_id ts0"
  shows "single_cancels ids st"
  using assms(1)
proof (induction rule: lock_reachable.induct)
  case start
  show ?case using assms(3) by (simp add: single_cancels_def no_sessions_def)
next
  case (step st st')
  then show ?case using single_cancels_step lock_reachable_ok [OF step.hyps(1) assms(2)] by blast
qed

text \<open>The activities that can always move, and those that wait for a mutex.\<close>

definition waits_for :: "activity \<Rightarrow> mutex option" where
  "waits_for a = (case a of
     Submit_Lock s \<Rightarrow> Some Active_Sessions_Guard
   | Io_Handler s n e \<Rightarrow> if e \<or> n = 2 then None else Some (Cancel_Guard s)
   | Complete_Lock s h \<Rightarrow> Some Active_Sessions_Guard
   | Cancel_Lock i \<Rightarrow> Some Active_Sessions_Guard
   | Cancel_Wait i s \<Rightarrow> Some (Cancel_Guard s)
   | _ \<Rightarrow> None)"

lemma can_move:
  assumes "a \<noteq> Finished" and "\<And>m. waits_for a = Some m \<Longrightarrow> free m ts"
  shows "\<exists>a' d'. activity_step ids ts a d a' d'"
proof (cases a)
  case (Io_Handler s n e)
  with assms(2) show ?thesis by (cases "e \<or> n = 2") (auto simp: waits_for_def)
next
  case (Cancel_Find i)
  then show ?thesis by (cases "sh_table d i") auto
next
  case (Io_Check s n)
  then show ?thesis by (cases "sh_cancelled d s") auto
qed (use assms in \<open>auto simp: waits_for_def\<close>)

lemma stuckD:
  assumes "stuck ids (ts, d)" and "a \<in> set ts" and "a \<noteq> Finished"
  shows "\<exists>m b. waits_for a = Some m \<and> b \<in> set ts \<and> holds b m"
proof (rule ccontr)
  assume none: "\<not> ?thesis"
  from assms(2) obtain k where k: "k < length ts" "ts ! k = a" by (auto simp: in_set_conv_nth)
  have "\<exists>a' d'. activity_step ids ts a d a' d'"
    by (rule can_move [OF assms(3)]) (use none in \<open>auto simp: free_def list_all_iff\<close>)
  with k assms(1) show False by (auto simp: stuck_def intro: lock_step.move)
qed

text \<open>A holder that waits itself: a cancellation that found its session, or a completion inside a handler.\<close>

lemma holder_waits:
  "waits_for b \<noteq> None \<Longrightarrow> holds b m \<Longrightarrow>
   (\<exists>i s. b = Cancel_Wait i s \<and> m = Active_Sessions_Guard) \<or> (\<exists>s. b = Complete_Lock s True \<and> m = Cancel_Guard s)"
  by (cases b) (auto simp: waits_for_def)

text \<open>C21: When each request id is cancelled at most once the client never deadlocks: a state in which no thread can
  move is one in which every request has completed and every call has returned.\<close>

theorem single_cancel_no_deadlock:
  assumes "initial_activities ts0" and "unique_by cancels_id ts0"
    and "lock_reachable ids ts0 (ts, d)" and "stuck ids (ts, d)"
  shows "set ts \<subseteq> {Finished}"
proof (rule ccontr)
  assume "\<not> ?thesis"
  then obtain a where a: "a \<in> set ts" "a \<noteq> Finished" by blast
  have waits: "waits_for b \<noteq> None" if "b \<in> set ts" "holds b m" for b m
    using stuckD [OF assms(4) that(1)] that(2) by (cases "b = Finished") auto
  note ok = lock_reachable_ok [OF assms(3,1), unfolded lock_ok_def list_all_iff, simplified]
  note single = single_cancels_reachable [OF assms(3,1,2), unfolded single_cancels_def list_all_iff, simplified]
  have no_wait: "Cancel_Wait i s \<notin> set ts" for i s
  proof
    assume wait: "Cancel_Wait i s \<in> set ts"
    from stuckD [OF assms(4) wait] obtain b where b: "b \<in> set ts" "holds b (Cancel_Guard s)"
      by (auto simp: waits_for_def)
    with holder_waits [OF waits [OF b] b(2)] have "Complete_Lock s True \<in> set ts" by auto
    with ok have "sh_cancelled d s" by (metis activity_ok.simps(3))
    moreover from ok wait have "ids s = i" by (metis activity_ok.simps(1))
    ultimately show False using single wait by fastforce
  qed
  from stuckD [OF assms(4) a] obtain m b where b: "waits_for a = Some m" "b \<in> set ts" "holds b m" by blast
  from holder_waits [OF waits [OF b(2,3)] b(3)] no_wait b(2)
  obtain s where s: "b = Complete_Lock s True" by blast
  have "\<not> holds c Active_Sessions_Guard" if "c \<in> set ts" for c
    using holder_waits [OF waits [OF that], of Active_Sessions_Guard] no_wait that by blast
  then show False using stuckD [OF assms(4) b(2)] s by (auto simp: waits_for_def)
qed

subsection \<open>Every run is finite\<close>

fun stage_ok :: "activity \<Rightarrow> bool" where
  "stage_ok (Io_Pending s n) = (n \<le> 2)"
| "stage_ok (Io_Handler s n e) = (n \<le> 2)"
| "stage_ok (Io_Check s n) = (n < 2)"
| "stage_ok _ = True"

fun work_left :: "activity \<Rightarrow> nat" where
  "work_left (Submit_Lock s) = 15"
| "work_left (Submit_Insert s) = 14"
| "work_left (Io_Pending s n) = 13 - 3 * n"
| "work_left (Io_Handler s n e) = 12 - 3 * n"
| "work_left (Io_Check s n) = 11 - 3 * n"
| "work_left (Complete_Lock s h) = 3"
| "work_left (Complete_Erase s h) = 2"
| "work_left (Complete_Callback s h) = 1"
| "work_left (Cancel_Lock i) = 4"
| "work_left (Cancel_Find i) = 3"
| "work_left (Cancel_Wait i s) = 2"
| "work_left (Cancel_Mark i s) = 1"
| "work_left Finished = 0"

lemma activity_step_work:
  "activity_step ids ts a d a' d' \<Longrightarrow> stage_ok a \<Longrightarrow> stage_ok a' \<and> work_left a' < work_left a"
  by (erule activity_step.cases) auto

definition total_work :: "activity list \<Rightarrow> nat" where
  "total_work ts = sum_list (map work_left ts)"

lemma lock_step_work:
  assumes "lock_step ids (ts, d) (ts', d')" and "list_all stage_ok ts"
  shows "list_all stage_ok ts' \<and> total_work ts' < total_work ts"
proof -
  from assms(1) obtain k a where k: "k < length ts" "activity_step ids ts (ts ! k) d a d'"
    and ts': "ts' = ts[k := a]" by (auto elim: lock_stepE)
  have ok: "stage_ok a" and less: "work_left a < work_left (ts ! k)"
    using activity_step_work [OF k(2)] assms(2) k(1) by (auto simp: list_all_length)
  have "ts = take k ts @ ts ! k # drop (Suc k) ts" by (rule id_take_nth_drop [OF k(1)])
  then have "total_work ts = total_work (take k ts) + work_left (ts ! k) + total_work (drop (Suc k) ts)"
    unfolding total_work_def by (metis map_append list.simps(9) sum_list.append sum_list.Cons add.assoc)
  moreover have "total_work ts' = total_work (take k ts) + work_left a + total_work (drop (Suc k) ts)"
    by (simp add: ts' upd_conv_take_nth_drop [OF k(1)] total_work_def)
  ultimately show ?thesis
    using less ok assms(2) k(1) by (simp add: ts' list_all_length nth_list_update)
qed

lemma lock_steps_work:
  "(lock_step ids ^^ n) (ts, d) (ts', d') \<Longrightarrow> list_all stage_ok ts \<Longrightarrow>
   list_all stage_ok ts' \<and> n + total_work ts' \<le> total_work ts"
proof (induction n arbitrary: ts' d')
  case (Suc n)
  then obtain ts1 d1 where run: "(lock_step ids ^^ n) (ts, d) (ts1, d1)" and st: "lock_step ids (ts1, d1) (ts', d')"
    by (auto elim!: relcomppE)
  from Suc.IH [OF run Suc.prems(2)] lock_step_work [OF st] show ?case by auto
qed simp

lemma initial_work: "list_all initial_activity ts \<Longrightarrow> list_all stage_ok ts \<and> total_work ts \<le> 15 * length ts"
  by (induction ts) (auto simp: total_work_def initial_activity_def split: activity.splits)

text \<open>Every schedule of the TCP client's locks is finite: any number of requests and cancellations makes at most
  fifteen moves each, so the client never spins, and it can only stop by finishing or by a deadlock.\<close>

theorem lock_schedules_finite:
  assumes "initial_activities ts0" and "(lock_step ids ^^ n) (ts0, no_sessions) (ts, d)"
  shows "n \<le> 15 * length ts0"
  using lock_steps_work [OF assms(2)] initial_work [of ts0] assms(1) by (auto simp: initial_activities_def)

subsection \<open>The properties on concrete activities\<close>

definition demo_activities :: "activity list" where
  "demo_activities = [Submit_Lock 0, Cancel_Lock 1]"

lemma demo_initial: "initial_activities demo_activities" "unique_by cancels_id demo_activities"
  by (auto simp: demo_activities_def initial_activities_def initial_activity_def unique_by_def less_Suc_eq)

lemma demo_lock_run:
  "lock_step (\<lambda>s. 1) (demo_activities, no_sessions) ([Submit_Insert 0, Cancel_Lock 1], no_sessions)"
  using lock_step.move [of 0 demo_activities "\<lambda>s. 1" no_sessions "Submit_Insert 0" no_sessions]
  by (simp add: demo_activities_def free_def)

theorem cancel_flag_race_free_witness: "exclusive [Submit_Insert 0, Cancel_Lock 1]"
  using cancel_flag_race_free [OF demo_initial(1) lock_reachable.step [OF lock_reachable.start demo_lock_run]]
  by blast

theorem lock_schedules_finite_witness: "(1::nat) \<le> 15 * length demo_activities"
proof -
  have "(lock_step (\<lambda>s. 1) ^^ 1) (demo_activities, no_sessions) ([Submit_Insert 0, Cancel_Lock 1], no_sessions)"
    using demo_lock_run by (auto simp: relcompp_apply)
  then show ?thesis by (rule lock_schedules_finite [OF demo_initial(1)])
qed

text \<open>A request that fails to connect, then a cancellation that no longer finds it.\<close>

lemma demo_full_schedule:
  "\<exists>d. lock_reachable (\<lambda>s. 1) demo_activities ([Finished, Finished], d)"
proof -
  let ?R = "lock_reachable (\<lambda>s. 1) demo_activities"
  let ?d = "no_sessions\<lparr>sh_table := [1 \<mapsto> 0]\<rparr>"
  note simps = free_def no_sessions_def
  have "?R ([Submit_Insert 0, Cancel_Lock 1], no_sessions)"
    by (rule lock_reachable.step [OF lock_reachable.start demo_lock_run])
  then have "?R ([Io_Pending 0 0, Cancel_Lock 1], ?d)"
    by (rule lock_reachable_move [where k = 0]) (simp_all add: simps)
  then have "?R ([Io_Handler 0 0 True, Cancel_Lock 1], ?d)"
    by (rule lock_reachable_move [where k = 0]) (auto simp: simps)
  then have "?R ([Complete_Lock 0 False, Cancel_Lock 1], ?d)"
    by (rule lock_reachable_move [where k = 0]) (simp_all add: simps)
  then have "?R ([Complete_Erase 0 False, Cancel_Lock 1], ?d)"
    by (rule lock_reachable_move [where k = 0]) (simp_all add: simps)
  then have "?R ([Complete_Callback 0 False, Cancel_Lock 1], no_sessions)"
    by (rule lock_reachable_move [where k = 0]) (simp_all add: simps)
  then have "?R ([Finished, Cancel_Lock 1], no_sessions)"
    by (rule lock_reachable_move [where k = 0]) (simp_all add: simps)
  then have "?R ([Finished, Cancel_Find 1], no_sessions)"
    by (rule lock_reachable_move [where k = 1]) (simp_all add: simps)
  then have "?R ([Finished, Finished], no_sessions)"
    by (rule lock_reachable_move [where k = 1]) (simp_all add: simps)
  then show ?thesis by blast
qed

theorem single_cancel_no_deadlock_witness:
  "\<exists>d. lock_reachable (\<lambda>s. 1) demo_activities ([Finished, Finished], d) \<and> set [Finished, Finished] \<subseteq> {Finished}"
proof -
  obtain d where run: "lock_reachable (\<lambda>s. 1) demo_activities ([Finished, Finished], d)"
    using demo_full_schedule by blast
  have "stuck (\<lambda>s. 1) ([Finished, Finished], d)"
    by (auto simp: stuck_def less_Suc_eq elim!: lock_stepE)
  with run single_cancel_no_deadlock [OF demo_initial run] show ?thesis by blast
qed

end
