(* ===== verification/Thread_Pools.thy ===== *)
theory Thread_Pools
  imports Asio
begin

section \<open>The loops that start the I/O threads\<close>

text \<open>
  The servers of chapters 4 and 5 start their pool with an \<^verbatim>\<open>unsigned int\<close> counter from 0 up to, not
  including, the pool size (\<^verbatim>\<open>server.cpp\<close>, \<^verbatim>\<open>main.cpp\<close>); the multi-threaded TCP client of chapter 3 counts an
  \<^verbatim>\<open>unsigned char\<close> from 1 up to and including the requested number (\<^verbatim>\<open>asyncTCPClientMT/asynctcpclient.cpp\<close>). A
  started thread is represented by its number; all of them run \<^verbatim>\<open>io_context::run\<close>. The second loop may
  not end, so it is a partial function.
\<close>

definition DEFAULT_THREAD_POOL_SIZE :: u32 where
  "DEFAULT_THREAD_POOL_SIZE = 2"

text \<open>\<^verbatim>\<open>std::thread::hardware_concurrency() * 2\<close>, in \<^verbatim>\<open>unsigned int\<close>, and the fallback of \<^verbatim>\<open>main\<close>.\<close>

definition server_pool_size :: "u32 \<Rightarrow> u32" where
  "server_pool_size hardware_concurrency =
     (let thread_pool_size = hardware_concurrency * 2
      in if thread_pool_size = 0 then DEFAULT_THREAD_POOL_SIZE else thread_pool_size)"

lemma Suc_unat_minus_one: "x \<noteq> 0 \<Longrightarrow> Suc (unat (x - 1 :: 'a::len word)) = unat x"
proof -
  assume "x \<noteq> 0"
  then have "0 < unat x" by (metis gr0I unat_0 word_unat_eq_iff)
  with \<open>x \<noteq> 0\<close> show ?thesis by (simp add: unat_minus_one)
qed

lemma unat_minus_Suc:
  fixes i n :: "'a::len word"
  shows "i < n \<Longrightarrow> unat (n - i) = Suc (unat (n - (i + 1)))"
  using Suc_unat_minus_one [of "n - i"] by (auto simp: algebra_simps)

function start_pool :: "u32 \<Rightarrow> u32 \<Rightarrow> u32 list \<Rightarrow> u32 list" where
  "start_pool i thread_pool_size pool =
     (if i < thread_pool_size then start_pool (i + 1) thread_pool_size (pool @ [i]) else pool)"
  by auto
termination
  by (relation "measure (\<lambda>(i, n, pool). unat (n - i))") (auto simp: unat_minus_Suc)

declare start_pool.simps [simp del]

text \<open>The constructor of \<^verbatim>\<open>AsyncTCPClient\<close> with a pool.\<close>

partial_function (option) start_client_threads :: "u8 \<Rightarrow> u8 \<Rightarrow> nat list \<Rightarrow> nat list option" where
  "start_client_threads i num_of_threads ts =
     (if i \<le> num_of_threads then start_client_threads (i + 1) num_of_threads (ts @ [unat i]) else Some ts)"

definition new_client_pool :: "u8 \<Rightarrow> nat list option" where
  "new_client_pool num_of_threads = start_client_threads 1 num_of_threads []"

subsection \<open>The servers' pools\<close>

lemma start_pool_length:
  "i \<le> n \<Longrightarrow> length (start_pool i n pool) = length pool + unat (n - i)"
proof (induction i n pool rule: start_pool.induct)
  case (1 i n pool)
  show ?case
  proof (cases "i < n")
    case True
    then have "i + 1 \<le> n" by (simp add: inc_le)
    with 1 True show ?thesis by (subst start_pool.simps) (simp add: unat_minus_Suc)
  next
    case False
    with 1 have "i = n" by simp
    then show ?thesis by (subst start_pool.simps) simp
  qed
qed

text \<open>The servers start exactly as many threads as \<^verbatim>\<open>main\<close> asks for, which is never 0: twice the number of
  hardware threads, or 2 where that is unknown (or where doubling it wraps to 0), so the assertion of
  \<^verbatim>\<open>Server::Start\<close> always holds.\<close>

theorem server_pool_started:
  "0 < server_pool_size hc \<and> length (start_pool 0 (server_pool_size hc) []) = unat (server_pool_size hc)"
  using start_pool_length [of 0 "server_pool_size hc" "[]"]
  by (simp add: server_pool_size_def DEFAULT_THREAD_POOL_SIZE_def Let_def word_gt_0)

subsection \<open>The client's pool\<close>

lemma unat_Suc_u8: "i \<noteq> (255 :: u8) \<Longrightarrow> unat (i + 1) = Suc (unat i)"
proof -
  assume "i \<noteq> 255"
  then have "unat i \<noteq> unat (255 :: u8)" by (simp only: word_unat_eq_iff) simp
  moreover have "unat i < 256" using unsigned_less [of i, where ?'a = nat] by simp
  ultimately show ?thesis by (simp add: unat_word_ariths)
qed

lemma start_client_threads_stops:
  assumes "num \<noteq> 255"
  shows "\<exists>ts'. start_client_threads i num ts = Some ts' \<and> length ts' = length ts + (Suc (unat num) - unat i)"
proof (induction "Suc (unat num) - unat i" arbitrary: i ts)
  case 0
  then have "\<not> i \<le> num" by (simp add: word_le_nat_alt)
  then show ?case by (subst start_client_threads.simps) (use 0 in simp)
next
  case (Suc k)
  then have le: "i \<le> num" by (simp add: word_le_nat_alt)
  have "unat num \<noteq> unat (255 :: u8)" using assms by (simp only: word_unat_eq_iff) simp
  moreover have "unat num < 256" using unsigned_less [of num, where ?'a = nat] by simp
  ultimately have "unat i < 255" using le by (simp add: word_le_nat_alt)
  then have "i \<noteq> 255" by auto
  then have next_i: "unat (i + 1) = Suc (unat i)" by (rule unat_Suc_u8)
  with Suc.hyps(2) have "k = Suc (unat num) - unat (i + 1)" by simp
  from Suc.hyps(1) [OF this, of "ts @ [unat i]"] le next_i Suc.hyps(2) show ?case
    by (subst start_client_threads.simps) auto
qed

lemma start_client_threads_255: "start_client_threads i n ts = Some r \<Longrightarrow> n \<noteq> 255"
proof (rule start_client_threads.raw_induct [where P = "\<lambda>i n ts r. n \<noteq> 255"])
  fix f :: "u8 \<Rightarrow> u8 \<Rightarrow> nat list \<Rightarrow> nat list option" and i n :: u8 and ts r
  assume ih: "\<And>i n ts r. f i n ts = Some r \<Longrightarrow> n \<noteq> 255"
    and eq: "(if i \<le> n then f (i + 1) n (ts @ [unat i]) else Some ts) = Some r"
  show "n \<noteq> 255"
  proof
    assume n: "n = 255"
    have "i \<le> n" unfolding n using unsigned_less [of i, where ?'a = nat] by (simp add: word_le_nat_alt)
    with eq ih n show False by auto
  qed
qed

text \<open>C39: \<^verbatim>\<open>AsyncTCPClient(num_of_threads)\<close> starts exactly \<^verbatim>\<open>num_of_threads\<close> I/O threads for every number but 255,
  for which the \<^verbatim>\<open>unsigned char\<close> counter wraps and the constructor never stops starting threads.\<close>

theorem client_pool_started:
  "if num_of_threads = 255 then new_client_pool num_of_threads = None
   else \<exists>ts. new_client_pool num_of_threads = Some ts \<and> length ts = unat num_of_threads"
  using start_client_threads_255 [of 1 num_of_threads "[]"] start_client_threads_stops [of num_of_threads 1 "[]"]
  by (cases "new_client_pool num_of_threads") (auto simp: new_client_pool_def)

end
