(* ===== verification/Async_Server.thy ===== *)
theory Async_Server
  imports Async_Chain Thread_Pools
begin

section \<open>Asynchronous servers: acceptor and server\<close>

text \<open>
  The acceptors of \<^verbatim>\<open>chapter5/HTTPServer/acceptor.cpp\<close> and \<^verbatim>\<open>chapter4/asyncParallel/acceptor.cpp\<close> (the same code up
  to the \<^verbatim>\<open>Service\<close> class they create), the servers around them (\<^verbatim>\<open>server.cpp\<close>), and a whole running
  server: its acceptor, the connections being served, and the \<^verbatim>\<open>io_context\<close>. The service class is an argument
  (\<open>start\<close>: what \<^verbatim>\<open>(new Service(sock))->start_handling()\<close> gives; \<open>handler\<close>: its completion handlers) and is
  instantiated by the models of both services.
\<close>

datatype accept_handler = On_Accept

record acceptor =
  m_isStopped :: bool

type_synonym accept_action = "(accept_handler, unit) action"

definition new_acceptor :: acceptor where
  "new_acceptor = \<lparr>m_isStopped = False\<rparr>"

definition InitAccept :: "acceptor \<Rightarrow> acceptor \<times> accept_action list" where
  "InitAccept a = (a, [Start On_Accept Async_Accept])"

text \<open>\<^verbatim>\<open>Start\<close>; \<open>listen_ec\<close> is the result of \<^verbatim>\<open>listen\<close>, of which the throwing overload is used.\<close>

definition Acceptor_Start :: "error_code \<Rightarrow> acceptor \<Rightarrow> acceptor \<times> accept_action list" where
  "Acceptor_Start listen_ec a =
     (if is_error listen_ec then (a, [Listen, Raise (System_Error listen_ec)])
      else case InitAccept a of (a1, as) \<Rightarrow> (a1, Listen # as))"

definition Acceptor_Stop :: "unit \<Rightarrow> acceptor \<Rightarrow> acceptor \<times> accept_action list" where
  "Acceptor_Stop u a = (a\<lparr>m_isStopped := True\<rparr>, [])"

text \<open>\<^verbatim>\<open>onAccept\<close>; \<open>close_ec\<close> is the result of the acceptor's throwing \<^verbatim>\<open>close\<close>.\<close>

definition onAccept :: "error_code \<Rightarrow> error_code \<Rightarrow> acceptor \<Rightarrow> acceptor \<times> accept_action list" where
  "onAccept close_ec ec a =
     (let served = (if \<not> is_error ec then [New_Service] else [Log ec])
      in if \<not> m_isStopped a then (case InitAccept a of (a1, as) \<Rightarrow> (a1, served @ as))
         else (a, served @ [if is_error close_ec then Throw (System_Error close_ec) else Close_Acceptor]))"

record accept_result =
  ac_ec :: error_code
  ac_close :: error_code

definition accept_step :: "accept_handler \<Rightarrow> accept_result \<Rightarrow> acceptor \<Rightarrow> acceptor \<times> accept_action list" where
  "accept_step k r a = (case k of On_Accept \<Rightarrow> onAccept (ac_close r) (ac_ec r) a)"

definition acceptor_run ::
  "(accept_result, unit) event list \<Rightarrow> (accept_handler, acceptor, unit) chain_state" where
  "acceptor_run evs = chain_run accept_step Acceptor_Stop evs (chain_begin (InitAccept new_acceptor))"

interpretation acc: async_chain accept_step Acceptor_Stop
  by unfold_locales
     (simp_all add: accept_step_def onAccept_def InitAccept_def Acceptor_Stop_def next_or_end_def quiet_def
       Let_def split: accept_handler.split)

subsection \<open>The server around its acceptor\<close>

text \<open>
  \<^verbatim>\<open>Server::Start\<close>: the assertion, the acceptor (its constructor opens and binds: \<open>bind_ec\<close>), \<^verbatim>\<open>listen\<close>, and the
  thread pool. The result is the fault that leaves it, or the actions of the acceptor and the threads. \<open>thread_ec i\<close> is the
  result of creating thread \<open>i\<close>; the first failure ends the loop with a \<^verbatim>\<open>std::system_error\<close>, which is not one of Boost's.
\<close>

definition Server_Start ::
  "error_code \<Rightarrow> error_code \<Rightarrow> (u32 \<Rightarrow> error_code) \<Rightarrow> u32 \<Rightarrow> fault + (accept_action list \<times> u32 list)" where
  "Server_Start bind_ec listen_ec thread_ec thread_pool_size =
     (if \<not> thread_pool_size > 0 then Inl Assertion_Failure
      else if is_error bind_ec then Inl (System_Error bind_ec)
      else if is_error listen_ec then Inl (System_Error listen_ec)
      else let pool = start_pool 0 thread_pool_size []
           in case find (\<lambda>i. is_error (thread_ec i)) pool of
                Some i \<Rightarrow> Inl (Std_System_Error (thread_ec i))
              | None \<Rightarrow> Inr (snd (Acceptor_Start listen_ec new_acceptor), pool))"

text \<open>A running server. A connection being served is the handler it waits for and its service object.\<close>

record ('k, 's) server =
  srv_acceptor :: acceptor
  srv_accepting :: bool
  srv_serving :: "('k \<times> 's) list"
  srv_created :: nat
  srv_deleted :: nat
  srv_stopped :: bool
  srv_crashed :: bool

definition new_server :: "('k, 's) server" where
  "new_server = \<lparr>srv_acceptor = new_acceptor, srv_accepting = True, srv_serving = [], srv_created = 0,
     srv_deleted = 0, srv_stopped = False, srv_crashed = False\<rparr>"

datatype 'r server_event =
  Accepted accept_result
| Service_Completes nat 'r
| Stop_Acceptor
| Stop_Io_Context

text \<open>\<^verbatim>\<open>Server::Stop\<close>: the two calls; joining the threads waits for handlers that already run.\<close>

definition Server_Stop :: "'r server_event list" where
  "Server_Stop = [Stop_Acceptor, Stop_Io_Context]"

definition throws :: "('k, 'cb) action list \<Rightarrow> bool" where
  "throws as \<longleftrightarrow> list_ex (\<lambda>a. case a of Throw _ \<Rightarrow> True | _ \<Rightarrow> False) as"

definition deletions :: "('k, 'cb) action list \<Rightarrow> nat" where
  "deletions as = length (filter (\<lambda>a. case a of Delete_This \<Rightarrow> True | _ \<Rightarrow> False) as)"

definition new_services :: "('k, 'cb) action list \<Rightarrow> nat" where
  "new_services as = length (filter (\<lambda>a. case a of New_Service \<Rightarrow> True | _ \<Rightarrow> False) as)"

text \<open>
  One event. No handler runs once \<^verbatim>\<open>Stop\<close> has called \<^verbatim>\<open>m_ios.stop()\<close>, and none once an exception has left a
  handler: it leaves \<^verbatim>\<open>run\<close> and the thread function, and the program terminates.
\<close>

definition server_step ::
  "'s \<times> ('k, 'cb) action list \<Rightarrow> ('k \<Rightarrow> 'r \<Rightarrow> 's \<Rightarrow> 's \<times> ('k, 'cb) action list) \<Rightarrow>
   'r server_event \<Rightarrow> ('k, 's) server \<Rightarrow> ('k, 's) server" where
  "server_step start handler ev srv =
     (if srv_stopped srv \<or> srv_crashed srv then srv
      else case ev of
        Accepted r \<Rightarrow>
          if srv_accepting srv
          then (case accept_step On_Accept r (srv_acceptor srv) of
                  (a, as) \<Rightarrow>
                    srv\<lparr>srv_acceptor := a,
                        srv_accepting := conts as \<noteq> [],
                        srv_serving := srv_serving srv @
                          concat (replicate (new_services as) (map (\<lambda>k. (k, fst start)) (conts (snd start)))),
                        srv_created := srv_created srv + new_services as,
                        srv_crashed := throws as\<rparr>)
          else srv
      | Service_Completes i r \<Rightarrow>
          if i < length (srv_serving srv)
          then (case srv_serving srv ! i of
                  (k, s) \<Rightarrow>
                    (case handler k r s of
                       (s', as) \<Rightarrow>
                         srv\<lparr>srv_serving := take i (srv_serving srv) @ drop (Suc i) (srv_serving srv) @
                                             map (\<lambda>k'. (k', s')) (conts as),
                             srv_deleted := srv_deleted srv + deletions as,
                             srv_crashed := throws as\<rparr>))
          else srv
      | Stop_Acceptor \<Rightarrow> srv\<lparr>srv_acceptor := fst (Acceptor_Stop () (srv_acceptor srv))\<rparr>
      | Stop_Io_Context \<Rightarrow> srv\<lparr>srv_stopped := True\<rparr>)"

definition server_run ::
  "'s \<times> ('k, 'cb) action list \<Rightarrow> ('k \<Rightarrow> 'r \<Rightarrow> 's \<Rightarrow> 's \<times> ('k, 'cb) action list) \<Rightarrow>
   'r server_event list \<Rightarrow> ('k, 's) server \<Rightarrow> ('k, 's) server" where
  "server_run start handler evs srv = fold (server_step start handler) evs srv"

lemma server_run_simps [simp]:
  "server_run st h [] srv = srv"
  "server_run st h (ev # evs) srv = server_run st h evs (server_step st h ev srv)"
  by (simp_all add: server_run_def)

subsection \<open>What a server needs of its service class\<close>

text \<open>
  \<open>I\<close> is the invariant of a waiting service. A handler of a service either waits for its next operation, or
  deletes the service, or lets an exception escape.
\<close>

locale connection_service =
  fixes start :: "'s \<times> ('k, 'cb) action list"
    and handler :: "'k \<Rightarrow> 'r \<Rightarrow> 's \<Rightarrow> 's \<times> ('k, 'cb) action list"
    and I :: "'s \<Rightarrow> bool"
  assumes start_waits: "length (conts (snd start)) = 1" and start_ok: "I (fst start)"
    and handler_waits: "I s \<Longrightarrow> \<not> throws (snd (handler k r s)) \<Longrightarrow>
      length (conts (snd (handler k r s))) + deletions (snd (handler k r s)) = 1"
    and handler_ok: "I s \<Longrightarrow> conts (snd (handler k r s)) \<noteq> [] \<Longrightarrow> I (fst (handler k r s))"
begin

definition balanced :: "('k, 's) server \<Rightarrow> bool" where
  "balanced srv \<longleftrightarrow> list_all (\<lambda>ks. I (snd ks)) (srv_serving srv) \<and>
     (\<not> srv_crashed srv \<longrightarrow> srv_created srv = srv_deleted srv + length (srv_serving srv))"

lemma new_service_list:
  "length (concat (replicate n (map (\<lambda>k. (k, fst start)) (conts (snd start))))) = n"
  "list_all (\<lambda>ks. I (snd ks)) (concat (replicate n (map (\<lambda>k. (k, fst start)) (conts (snd start)))))"
  using start_waits start_ok by (induction n) (auto simp: list_all_iff)

lemma balanced_step:
  assumes "balanced srv"
  shows "balanced (server_step start handler ev srv)"
proof (cases ev)
  case (Accepted r)
  with assms show ?thesis
    by (auto simp: server_step_def balanced_def new_service_list split: prod.split)
next
  case (Service_Completes i r)
  show ?thesis
  proof (cases "srv_stopped srv \<or> srv_crashed srv \<or> \<not> i < length (srv_serving srv)")
    case False
    then have i: "i < length (srv_serving srv)" and run: "\<not> srv_crashed srv" by simp_all
    obtain k s where ks: "srv_serving srv ! i = (k, s)" by (cases "srv_serving srv ! i")
    obtain s' as where h: "handler k r s = (s', as)" by (cases "handler k r s")
    have s: "I s" using assms i ks by (force simp: balanced_def list_all_length)
    have "throws as \<or> length (conts as) + deletions as = 1"
      using handler_waits [OF s, of k r] h by auto
    moreover have "list_all (\<lambda>ks. I (snd ks)) (map (\<lambda>k'. (k', s')) (conts as))"
      using handler_ok [OF s, of k r] h by (cases "conts as = []") (auto simp: list_all_iff)
    ultimately show ?thesis
      using assms False i ks h run
      by (auto simp: server_step_def Service_Completes balanced_def list_all_iff dest: in_set_takeD in_set_dropD)
  qed (use assms Service_Completes in \<open>auto simp: server_step_def\<close>)
next
  case Stop_Acceptor
  with assms show ?thesis by (simp add: server_step_def balanced_def)
next
  case Stop_Io_Context
  with assms show ?thesis by (simp add: server_step_def balanced_def)
qed

lemma balanced_run: "balanced srv \<Longrightarrow> balanced (server_run start handler evs srv)"
  by (induction evs arbitrary: srv) (simp_all add: balanced_step)

theorem every_service_accounted:
  "balanced (server_run start handler evs new_server)"
  by (rule balanced_run) (simp add: balanced_def new_server_def)

end

lemma server_frozen:
  "srv_stopped srv \<or> srv_crashed srv \<Longrightarrow> server_run st h evs srv = srv"
  by (induction evs) (auto simp: server_step_def)

end
