(* ===== verification/Echo_Service.thy ===== *)
theory Echo_Service
  imports Async_Server
begin

section \<open>Asynchronous parallel server of chapter 4: the service\<close>

text \<open>
  \<^verbatim>\<open>chapter4/asyncParallel/service.h\<close> and \<^verbatim>\<open>service.cpp\<close>: read a line, emulate some work, answer
  \<^verbatim>\<open>Response\<close>, delete the service.
\<close>

datatype echo_handler = On_Request_Received | On_Echo_Sent

record echo_service =
  echo_request :: bytes
  echo_response :: string

type_synonym echo_action = "(echo_handler, unit) action"

definition new_echo_service :: echo_service where
  "new_echo_service = \<lparr>echo_request = [], echo_response = []\<rparr>"

definition StartHandling :: "echo_service \<Rightarrow> echo_service \<times> echo_action list" where
  "StartHandling s = (s, [Start On_Request_Received (Async_Read_Until [LF])])"

text \<open>\<^verbatim>\<open>int i = 0; while (i != 1000000) i++;\<close>\<close>

function emulate_cpu :: "32 word \<Rightarrow> 32 word" where
  "emulate_cpu i = (if i \<noteq> 1000000 then emulate_cpu (i + 1) else i)"
  by auto
termination
proof (relation "measure (\<lambda>i. unat (1000000 - i))")
  fix i :: "32 word"
  assume "i \<noteq> 1000000"
  with Suc_unat_minus_one [of "1000000 - i"] have "Suc (unat (1000000 - i - 1)) = unat (1000000 - i)" by auto
  then show "(i + 1, i) \<in> measure (\<lambda>i. unat (1000000 - i))" by (simp add: algebra_simps)
qed simp

declare emulate_cpu.simps [simp del]

definition ProcessRequest :: "bytes \<Rightarrow> string" where
  "ProcessRequest request = (let i = emulate_cpu 0; response = ''Response'' @ [LF] in response)"

definition echo_on_finish :: "echo_service \<Rightarrow> echo_service \<times> echo_action list" where
  "echo_on_finish s = (s, [Delete_This])"

definition onRequestReceived :: "error_code \<Rightarrow> echo_service \<Rightarrow> echo_service \<times> echo_action list" where
  "onRequestReceived ec s =
     (if is_error ec then (case echo_on_finish s of (s1, as) \<Rightarrow> (s1, Log ec # as))
      else let s1 = s\<lparr>echo_response := ProcessRequest (echo_request s)\<rparr>
           in (s1, [Start On_Echo_Sent (Async_Write [echo_response s1])]))"

definition onResponseSent :: "error_code \<Rightarrow> echo_service \<Rightarrow> echo_service \<times> echo_action list" where
  "onResponseSent ec s =
     (case echo_on_finish s of (s1, as) \<Rightarrow> (s1, (if is_error ec then [Log ec] else []) @ as))"

record echo_result =
  er_ec :: error_code
  er_data :: bytes

definition echo_step :: "echo_handler \<Rightarrow> echo_result \<Rightarrow> echo_service \<Rightarrow> echo_service \<times> echo_action list" where
  "echo_step k r s =
     (let s1 = s\<lparr>echo_request := echo_request s @ er_data r\<rparr>
      in case k of
           On_Request_Received \<Rightarrow> onRequestReceived (er_ec r) s1
         | On_Echo_Sent \<Rightarrow> onResponseSent (er_ec r) s1)"

definition echo_run :: "(echo_result, unit) event list \<Rightarrow> (echo_handler, echo_service, unit) chain_state" where
  "echo_run evs = chain_run echo_step no_external evs (chain_begin (StartHandling new_echo_service))"

definition echo_rank :: "echo_handler \<Rightarrow> nat" where
  "echo_rank k = (case k of On_Request_Received \<Rightarrow> 0 | On_Echo_Sent \<Rightarrow> 1)"

lemmas echo_defs = echo_step_def onRequestReceived_def onResponseSent_def echo_on_finish_def Let_def

interpretation echo: ranked_chain echo_step no_external echo_rank 2
  by unfold_locales
     (auto simp: echo_defs echo_rank_def next_or_end_def split: echo_handler.splits if_splits)

interpretation echo_conn: connection_service "StartHandling new_echo_service" echo_step "\<lambda>s. True"
  by unfold_locales
     (auto simp: StartHandling_def echo_defs throws_def deletions_def split: echo_handler.split)

subsection \<open>The emulated work ends\<close>

lemma emulate_cpu_result: "emulate_cpu i = 1000000"
  by (induction i rule: emulate_cpu.induct) (subst emulate_cpu.simps, simp)

end
