(* ===== verification/Async_Server_Properties.thy ===== *)
theory Async_Server_Properties
  imports Http_Service Echo_Service
begin

section \<open>Asynchronous servers: properties\<close>

text \<open>
  The acceptor shared by the two servers, the echo service, and whole servers with their concrete service
  classes (interpretations \<open>http_conn\<close> and \<open>echo_conn\<close> of \<open>connection_service\<close>): every service that is
  created is deleted or still waits, what stops a server, and what one bad connection does to it.
\<close>

subsection \<open>The acceptor\<close>

lemma new_services_simps [simp]:
  "new_services [] = 0" "new_services (New_Service # as) = Suc (new_services as)"
  "new_services (Start k op # as) = new_services as" "new_services (Log ec # as) = new_services as"
  "new_services (Close_Acceptor # as) = new_services as" "new_services (Throw f # as) = new_services as"
  "new_services (as @ bs) = new_services as + new_services bs"
  by (simp_all add: new_services_def)

definition accepts :: "accept_result list \<Rightarrow> nat" where
  "accepts rs = length (filter (\<lambda>r. \<not> is_error (ac_ec r)) rs)"

lemma accepting_run:
  "\<not> m_isStopped a \<Longrightarrow> \<exists>tr'. chain_run accept_step Acceptor_Stop (map (Completes 0) rs) ([On_Accept], a, tr)
     = ([On_Accept], a, tr @ tr') \<and> new_services tr' = accepts rs"
proof (induction rs arbitrary: tr)
  case (Cons r rs)
  let ?as = "(if \<not> is_error (ac_ec r) then [New_Service] else [Log (ac_ec r)]) @ [Start On_Accept Async_Accept]"
  have "chain_step accept_step Acceptor_Stop (Completes 0 r) ([On_Accept], a, tr) = ([On_Accept], a, tr @ ?as)"
    using Cons.prems by (simp add: chain_step_def accept_step_def onAccept_def InitAccept_def Let_def)
  moreover obtain tr' where "chain_run accept_step Acceptor_Stop (map (Completes 0) rs) ([On_Accept], a, tr @ ?as)
      = ([On_Accept], a, (tr @ ?as) @ tr')" "new_services tr' = accepts rs"
    using Cons.IH [OF Cons.prems] by blast
  ultimately show ?case
    by (intro exI [of _ "?as @ tr'"]) (simp add: accepts_def)
qed (simp add: accepts_def)

text \<open>The acceptor survives every accept error and creates one service per accepted connection; once \<^verbatim>\<open>Stop\<close>
  has been called, the accept already under way is still served (if it succeeds) and is the last one: the
  acceptor is closed and no accept is started any more.\<close>

theorem acceptor_accepts_until_stopped:
  assumes "acceptor_run (map (Completes 0) rs) = (p, a, tr)"
    and "acceptor_run (map (Completes 0) rs @ [External (), Completes 0 r]) = (p', a', tr')"
  shows "p = [On_Accept] \<and> new_services tr = accepts rs \<and>
    p' = [] \<and> new_services tr' = accepts (rs @ [r]) \<and>
    last tr' = (if is_error (ac_close r) then Throw (System_Error (ac_close r)) else Close_Acceptor)"
proof -
  have "chain_begin (InitAccept new_acceptor)
      = ([On_Accept], new_acceptor, [Start On_Accept Async_Accept])" (is "?b = (_, _, ?s)")
    by (simp add: chain_begin_def InitAccept_def)
  moreover obtain t where "chain_run accept_step Acceptor_Stop (map (Completes 0) rs) ([On_Accept], new_acceptor, ?s)
      = ([On_Accept], new_acceptor, ?s @ t)" and "new_services t = accepts rs"
    using accepting_run [of new_acceptor rs ?s] by (auto simp: new_acceptor_def)
  ultimately show ?thesis using assms
    by (auto simp: acceptor_run_def chain_run_append chain_step_def accept_step_def onAccept_def Acceptor_Stop_def
        Let_def accepts_def)
qed

definition accept_ok :: accept_result where
  "accept_ok = \<lparr>ac_ec = no_error, ac_close = no_error\<rparr>"

theorem acceptor_accepts_until_stopped_witness:
  "\<exists>a' tr'. acceptor_run (map (Completes 0) [accept_ok] @ [External (), Completes 0 accept_ok]) = ([], a', tr') \<and>
     new_services tr' = 2 \<and> last tr' = Close_Acceptor"
proof -
  obtain p a tr where 1: "acceptor_run (map (Completes 0) [accept_ok]) = (p, a, tr)"
    by (cases "acceptor_run (map (Completes 0) [accept_ok])")
  obtain p' a' tr' where 2: "acceptor_run (map (Completes 0) [accept_ok] @ [External (), Completes 0 accept_ok])
      = (p', a', tr')"
    by (cases "acceptor_run (map (Completes 0) [accept_ok] @ [External (), Completes 0 accept_ok])")
  from acceptor_accepts_until_stopped [OF 1 2] 2 show ?thesis by (simp add: accepts_def accept_ok_def)
qed

subsection \<open>The echo service\<close>

text \<open>The service of the asynchronous parallel server answers any received line with exactly
  \<^verbatim>\<open>Response\<close> and a newline, writes nothing when reading failed, and deletes itself exactly once in
  both cases.\<close>

theorem echo_service_responds:
  assumes "echo_run [Completes 0 r1, Completes 0 r2] = (p, s, tr)"
  shows "p = [] \<and> end_count tr = 1 \<and> last tr = Delete_This \<and>
    written tr = (if is_error (er_ec r1) then [] else ''Response'' @ [LF])"
  using assms
  by (auto simp: echo_run_def chain_begin_def StartHandling_def chain_step_def echo_defs ProcessRequest_def
      split: if_splits)

definition echo_read :: "bytes \<Rightarrow> echo_result" where
  "echo_read d = \<lparr>er_ec = no_error, er_data = d\<rparr>"

theorem echo_service_responds_witness:
  "written (snd (snd (echo_run [Completes 0 (echo_read ''hello''), Completes 0 (echo_read [])]))) = ''Response'' @ [LF]"
  using echo_service_responds [of "echo_read ''hello''" "echo_read []"]
  by (cases "echo_run [Completes 0 (echo_read ''hello''), Completes 0 (echo_read [])]") (simp add: echo_read_def)

subsection \<open>Whole servers\<close>

lemma deletions_simps [simp]:
  "deletions [] = 0" "deletions (Delete_This # as) = Suc (deletions as)"
  "deletions (Start k op # as) = deletions as" "deletions (Log ec # as) = deletions as"
  "deletions (Shutdown h # as) = deletions as"
  "deletions (as @ bs) = deletions as + deletions bs"
  by (simp_all add: deletions_def)

lemma throws_simps [simp]:
  "\<not> throws []" "throws (Throw f # as)" "throws (Start k op # as) = throws as" "throws (Log ec # as) = throws as"
  "throws (Shutdown h # as) = throws as" "throws (Delete_This # as) = throws as"
  "throws (New_Service # as) = throws as" "throws (Close_Acceptor # as) = throws as"
  "throws (as @ bs) = (throws as \<or> throws bs)"
  by (simp_all add: throws_def)

text \<open>A list of actions that waits once, deletes once, or throws.\<close>

definition served :: "('k, 'cb) action list \<Rightarrow> bool" where
  "served as \<longleftrightarrow> throws as \<or> length (conts as) + deletions as = 1"

lemma served_simps [simp]:
  "served [Start k op]" "served [Throw f]" "served [Delete_This]"
  "served (Log ec # as) = served as" "served (Shutdown h # as) = served as"
  by (simp_all add: served_def)

lemma send_response_served: "service_ok s \<Longrightarrow> served (snd (send_response env s))"
  by (auto simp: send_response_def resource_view_def service_ok_def Let_def split: option.split)

lemma service_step_served:
  assumes "service_ok s"
  shows "served (snd (service_step k r s))"
proof (cases k)
  case On_Request_Line_Received
  then show ?thesis using assms send_response_served
    by (simp add: service_step_def on_request_line_received_def on_finish_def service_ok_status Let_def case_prod_beta)
next
  case On_Headers_Received
  let ?s = "s\<lparr>m_request := m_request s @ res_data r\<rparr>"
  have ok: "service_ok ?s" using assms by simp
  show ?thesis
  proof (cases "is_error (res_ec r)")
    case True
    with ok On_Headers_Received send_response_served show ?thesis
      by (simp add: service_step_def on_headers_received_def on_finish_def service_ok_status Let_def case_prod_beta)
  next
    case False
    obtain st h where loop:
      "request_header_loop (open_istream (m_request ?s)) [] [] (m_request_headers ?s) = Some (st, h)"
      using request_header_loop_total [of "open_istream (m_request ?s)"] by force
    let ?s1 = "?s\<lparr>m_request := rdbuf st, m_request_headers := h\<rparr>"
    obtain s2 f where pr: "process_request (res_env r) ?s1 = (s2, f)"
      by (cases "process_request (res_env r) ?s1")
    from process_request_ok [OF _ pr] ok have "f = None \<longrightarrow> service_ok s2" by simp
    then show ?thesis
      using False loop pr send_response_served [of s2 "res_env r"] On_Headers_Received
      by (cases f) (auto simp: service_step_def on_headers_received_def Let_def)
  qed
next
  case On_Response_Sent
  then show ?thesis by (simp add: service_step_def on_response_sent_def on_finish_def Let_def)
qed

interpretation http_conn: connection_service "start_handling new_service" service_step service_ok
proof unfold_locales
  fix s k r
  assume s: "service_ok s"
  show "length (conts (snd (service_step k r s))) + deletions (snd (service_step k r s)) = 1"
    if "\<not> throws (snd (service_step k r s))"
    using service_step_served [OF s, of k r] that by (simp add: served_def)
  show "service_ok (fst (service_step k r s))" if "conts (snd (service_step k r s)) \<noteq> []"
    using service_step_ok [OF s] that by blast
qed (simp_all add: start_handling_def new_service_ok)

definition http_server_run ::
  "service_result server_event list \<Rightarrow> (service_handler, service) server" where
  "http_server_run evs = server_run (start_handling new_service) service_step evs new_server"

definition echo_server_run ::
  "echo_result server_event list \<Rightarrow> (echo_handler, echo_service) server" where
  "echo_server_run evs = server_run (StartHandling new_echo_service) echo_step evs new_server"

text \<open>In every run of the HTTP server, however accepts, completions of different connections and \<^verbatim>\<open>Stop\<close>
  interleave, a service that was created has been deleted or waits for exactly one operation, unless an
  exception has terminated the program.\<close>

theorem http_server_accounts_for_services:
  "srv_crashed (http_server_run evs) \<or>
   srv_created (http_server_run evs) = srv_deleted (http_server_run evs) + length (srv_serving (http_server_run evs))"
  using http_conn.every_service_accounted [of evs]
  by (auto simp: http_conn.balanced_def http_server_run_def)

text \<open>One connection whose \<^verbatim>\<open>shutdown\<close> fails, for instance because the peer has reset it, terminates the whole HTTP
  server: the exception leaves \<^verbatim>\<open>on_response_sent\<close>, and no event of any other connection is handled any more.\<close>

theorem one_connection_terminates_server:
  assumes "http_server_run evs = srv" and "\<not> srv_stopped srv" and "\<not> srv_crashed srv"
    and "i < length (srv_serving srv)" and "srv_serving srv ! i = (On_Response_Sent, s)"
    and "is_error (env_shutdown (res_env r))"
  shows "srv_crashed (http_server_run (evs @ Service_Completes i r # later)) \<and>
    srv_serving (http_server_run (evs @ Service_Completes i r # later)) =
      take i (srv_serving srv) @ drop (Suc i) (srv_serving srv)"
proof -
  let ?step = "server_step (start_handling new_service) service_step"
  have "http_server_run (evs @ Service_Completes i r # later)
      = server_run (start_handling new_service) service_step later (?step (Service_Completes i r) srv)"
    using assms(1) by (simp add: http_server_run_def server_run_def)
  moreover have "srv_crashed (?step (Service_Completes i r) srv)"
    and "srv_serving (?step (Service_Completes i r) srv) = take i (srv_serving srv) @ drop (Suc i) (srv_serving srv)"
    using assms(2-6) by (simp_all add: server_step_def service_step_def on_response_sent_def Let_def)
  ultimately show ?thesis by (simp add: server_frozen)
qed

lemma server_stop_run:
  "server_run st h (evs @ Server_Stop @ later) srv0
     = (let srv = server_run st h evs srv0
        in if srv_stopped srv \<or> srv_crashed srv then srv
           else srv\<lparr>srv_acceptor := fst (Acceptor_Stop () (srv_acceptor srv)), srv_stopped := True\<rparr>)"
proof -
  define srv where "srv = server_run st h evs srv0"
  have "server_run st h (evs @ Server_Stop @ later) srv0 = server_run st h later (server_run st h Server_Stop srv)"
    by (simp add: srv_def server_run_def)
  moreover have "server_run st h Server_Stop srv = (if srv_stopped srv \<or> srv_crashed srv then srv
      else srv\<lparr>srv_acceptor := fst (Acceptor_Stop () (srv_acceptor srv)), srv_stopped := True\<rparr>)"
    by (simp add: Server_Stop_def server_step_def)
  ultimately show ?thesis by (simp add: server_frozen srv_def Let_def)
qed

text \<open>\<^verbatim>\<open>Stop\<close> of the HTTP server abandons the connections being served: nothing that completes later is handled, so
  their responses are never sent and their services are never deleted.\<close>

theorem server_stop_abandons_services:
  "srv_serving (http_server_run (evs @ Server_Stop @ later)) = srv_serving (http_server_run evs) \<and>
   srv_deleted (http_server_run (evs @ Server_Stop @ later)) = srv_deleted (http_server_run evs)"
  by (simp add: http_server_run_def server_stop_run Let_def)

definition closes_cleanly :: "'r server_event \<Rightarrow> bool" where
  "closes_cleanly ev = (case ev of Accepted r \<Rightarrow> \<not> is_error (ac_close r) | _ \<Rightarrow> True)"

lemma echo_step_never_throws: "\<not> throws (snd (echo_step k r s))"
  by (simp add: echo_defs split: echo_handler.split)

lemma echo_server_step_alive:
  "\<not> srv_crashed srv \<Longrightarrow> closes_cleanly ev \<Longrightarrow> \<not> srv_crashed (server_step st echo_step ev srv)"
  using echo_step_never_throws
  by (cases ev)
     (auto simp: server_step_def closes_cleanly_def accept_step_def onAccept_def InitAccept_def Let_def
       split: prod.split, metis snd_conv)

lemma echo_server_alive:
  "list_all closes_cleanly evs \<Longrightarrow> \<not> srv_crashed srv \<Longrightarrow> \<not> srv_crashed (server_run st echo_step evs srv)"
  by (induction evs arbitrary: srv) (simp_all add: echo_server_step_alive)

text \<open>The handlers of the echo server never throw: as long as closing the acceptor does not fail the server keeps
  running through every error, and every service it created has been deleted or waits.\<close>

theorem echo_server_survives:
  assumes "list_all closes_cleanly evs"
  shows "\<not> srv_crashed (echo_server_run evs) \<and>
    srv_created (echo_server_run evs) = srv_deleted (echo_server_run evs) + length (srv_serving (echo_server_run evs))"
proof -
  have "\<not> srv_crashed (echo_server_run evs)"
    using echo_server_alive [OF assms] by (simp add: echo_server_run_def new_server_def)
  with echo_conn.every_service_accounted [of evs] show ?thesis
    by (simp add: echo_conn.balanced_def echo_server_run_def)
qed

definition connection_reset :: error_code where
  "connection_reset = \<lparr>ec_value = 104, ec_category = System_Category\<rparr>"

definition demo_echo_events :: "echo_result server_event list" where
  "demo_echo_events = [Accepted accept_ok, Service_Completes 0 \<lparr>er_ec = connection_reset, er_data = []\<rparr>]"

theorem echo_server_survives_witness:
  "srv_created (echo_server_run demo_echo_events) = 1 \<and> \<not> srv_crashed (echo_server_run demo_echo_events) \<and>
   srv_created (echo_server_run demo_echo_events)
     = srv_deleted (echo_server_run demo_echo_events) + length (srv_serving (echo_server_run demo_echo_events))"
proof -
  have "list_all closes_cleanly demo_echo_events"
    by (simp add: demo_echo_events_def closes_cleanly_def accept_ok_def)
  moreover have "srv_created (echo_server_run demo_echo_events) = 1"
    by (simp add: echo_server_run_def demo_echo_events_def server_step_def new_server_def accept_step_def onAccept_def
        accept_ok_def InitAccept_def new_acceptor_def StartHandling_def Let_def split: prod.split)
  ultimately show ?thesis using echo_server_survives by blast
qed

text \<open>A connection whose request line is refused, with a peer that resets before the final shutdown.\<close>

definition reset_env :: service_env where
  "reset_env = \<lparr>env_shutdown = connection_reset, env_fs = (\<lambda>p. Fs_Absent), env_alloc = (\<lambda>n. True)\<rparr>"

definition quiet_env :: service_env where
  "quiet_env = reset_env\<lparr>env_shutdown := no_error\<rparr>"

definition demo_http_events :: "service_result server_event list" where
  "demo_http_events = [Accepted accept_ok, Accepted accept_ok,
     Service_Completes 0 \<lparr>res_ec = asio_not_found, res_data = [], res_env = quiet_env\<rparr>]"

lemma demo_http_server:
  "\<not> srv_stopped (http_server_run demo_http_events)" "\<not> srv_crashed (http_server_run demo_http_events)"
  "length (srv_serving (http_server_run demo_http_events)) = 2"
  "fst (srv_serving (http_server_run demo_http_events) ! 1) = On_Response_Sent"
  by (simp_all add: http_server_run_def demo_http_events_def server_step_def new_server_def accept_step_def
      onAccept_def accept_ok_def InitAccept_def new_acceptor_def start_handling_def service_step_def
      on_request_line_received_def send_response_def quiet_env_def reset_env_def http_status_table_def new_service_def
      resource_view_def Let_def)

theorem one_connection_terminates_server_witness:
  "\<exists>r. srv_crashed (http_server_run (demo_http_events @ Service_Completes 1 r # []))"
proof -
  have i: "1 < length (srv_serving (http_server_run demo_http_events))" using demo_http_server(3) by simp
  obtain s where s: "srv_serving (http_server_run demo_http_events) ! 1 = (On_Response_Sent, s)"
    using demo_http_server(4) by (metis prod.collapse)
  have "is_error (env_shutdown (res_env \<lparr>res_ec = no_error, res_data = [], res_env = reset_env\<rparr>))"
    by (simp add: reset_env_def connection_reset_def is_error_def)
  from one_connection_terminates_server [OF refl demo_http_server(1,2) i s this] show ?thesis by blast
qed

end
