(* ===== verification/Console_Handlers.thy ===== *)
theory Console_Handlers
  imports Http_Client_Properties Async_Tcp_Client
begin

section \<open>The console callbacks of the clients\<close>

text \<open>
  The functions \<^verbatim>\<open>handler\<close> that the three asynchronous clients pass as callbacks
  (\<^verbatim>\<open>chapter5/HTTPClient/httpclient.cpp\<close>, \<^verbatim>\<open>chapter3/asyncTCPClient/function.cpp\<close>,
  \<^verbatim>\<open>chapter3/asyncTCPClientMT/function.cpp\<close>) on a model of \<^verbatim>\<open>std::cout\<close>: its text and its failure state. A stream
  that has failed ignores output. Inserting a stream buffer moves its characters to the output and fails
  when there is none. The message of an error code is the library's: the argument \<open>message\<close>.
\<close>

record ostream =
  os_text :: string
  os_fail :: bool

definition put :: "string \<Rightarrow> ostream \<Rightarrow> ostream" where
  "put s os = (if os_fail os then os else os\<lparr>os_text := os_text os @ s\<rparr>)"

text \<open>\<^verbatim>\<open>os << buf\<close>: the buffer is emptied, an empty one sets \<^verbatim>\<open>failbit\<close>.\<close>

definition put_buffer :: "bytes \<Rightarrow> ostream \<Rightarrow> ostream \<times> bytes" where
  "put_buffer buf os =
     (if os_fail os then (os, buf)
      else if buf = [] then (os\<lparr>os_fail := True\<rparr>, [])
      else (os\<lparr>os_text := os_text os @ buf\<rparr>, []))"

definition int_to_dec :: "int \<Rightarrow> string" where
  "int_to_dec i = (if i < 0 then CHR ''-'' # to_dec (nat (- i)) else to_dec (nat i))"

definition cancelled_text :: "u32 \<Rightarrow> string" where
  "cancelled_text i = ''Request #'' @ to_string_u32 i @ '' has been cancelled by the user.'' @ [LF]"

definition failed_text :: "(error_code \<Rightarrow> string) \<Rightarrow> u32 \<Rightarrow> error_code \<Rightarrow> string" where
  "failed_text message i ec = ''Request #'' @ to_string_u32 i @ '' failed! Error code = '' @
     int_to_dec (ec_value ec) @ ''. Error message = '' @ message ec @ [LF]"

text \<open>The callback of the HTTP client; the response's stream shares the buffer of the response.\<close>

definition http_handler ::
  "(error_code \<Rightarrow> string) \<Rightarrow> http_request \<Rightarrow> http_response \<Rightarrow> error_code \<Rightarrow> ostream \<Rightarrow> ostream \<times> http_response" where
  "http_handler message rq rsp ec os =
     (if \<not> is_error ec
      then case put_buffer (m_response_buf rsp)
                  (put (''Request #'' @ to_string_u32 (m_id rq) @ '' has completed. Response: '') os) of
             (os1, buf) \<Rightarrow> (os1, rsp\<lparr>m_response_buf := buf\<rparr>)
      else if ec = operation_aborted then (put (cancelled_text (m_id rq)) os, rsp)
      else (put (failed_text message (m_id rq) ec) os, rsp))"

text \<open>The callback of the TCP client: it compares only the value of the error code.\<close>

definition tcp_handler ::
  "(error_code \<Rightarrow> string) \<Rightarrow> u32 \<Rightarrow> string \<Rightarrow> error_code \<Rightarrow> ostream \<Rightarrow> ostream" where
  "tcp_handler message request_id response ec os =
     (if ec_value ec = 0
      then put (''Request #'' @ to_string_u32 request_id @ '' has completed. Response: '' @ response @ [LF]) os
      else if ec_value ec = ec_value operation_aborted then put (cancelled_text request_id) os
      else put (failed_text message request_id ec) os)"

text \<open>The callback of the multi-threaded TCP client: it compares value and category.\<close>

definition tcp_mt_handler ::
  "(error_code \<Rightarrow> string) \<Rightarrow> u32 \<Rightarrow> string \<Rightarrow> error_code \<Rightarrow> ostream \<Rightarrow> ostream" where
  "tcp_mt_handler message request_id response ec os =
     (if ec_value ec = 0
      then put (''Request #'' @ to_string_u32 request_id @ '' has completed. Response: '' @ response @ [LF]) os
      else if ec = operation_aborted then put (cancelled_text request_id) os
      else put (failed_text message request_id ec) os)"

subsection \<open>Properties\<close>

text \<open>Nothing is printed on a failed stream.\<close>

lemma put_failed [simp]: "os_fail os \<Longrightarrow> put s os = os"
  by (simp add: put_def)

lemma http_handler_failed: "os_fail os \<Longrightarrow> fst (http_handler message rq rsp ec os) = os"
  by (simp add: http_handler_def put_buffer_def)

lemma http_handler_prints:
  "\<not> os_fail os \<Longrightarrow> \<not> is_error ec \<Longrightarrow> m_response_buf rsp \<noteq> [] \<Longrightarrow>
   http_handler message rq rsp ec os =
     (os\<lparr>os_text := os_text os @ ''Request #'' @ to_string_u32 (m_id rq) @ '' has completed. Response: '' @
        m_response_buf rsp\<rparr>, rsp\<lparr>m_response_buf := []\<rparr>)"
  by (simp add: http_handler_def put_def put_buffer_def)

text \<open>When the HTTP client's callback prints a successful response without a body it puts \<^verbatim>\<open>std::cout\<close> into its
  failed state, and nothing that later callbacks print appears any more.\<close>

theorem empty_response_silences_console:
  assumes "\<not> is_error ec" and "m_response_buf rsp = []"
    and "http_handler message rq rsp ec os = (os1, rsp1)"
    and "http_handler message rq' rsp' ec' os1 = (os2, rsp2)"
  shows "os2 = os1"
proof -
  have "os_fail os1"
    using assms(1-3) by (auto simp: http_handler_def put_buffer_def put_def split: if_splits)
  from http_handler_failed [OF this, of message rq' rsp' ec'] assms(4) show ?thesis by simp
qed

theorem empty_response_silences_console_witness:
  "\<exists>rsp1 rsp2. http_handler (\<lambda>ec. []) demo_request new_response no_error \<lparr>os_text = [], os_fail = False\<rparr>
     = (\<lparr>os_text = ''Request #1 has completed. Response: '', os_fail = True\<rparr>, rsp1) \<and>
   http_handler (\<lambda>ec. []) demo_request new_response asio_eof
     \<lparr>os_text = ''Request #1 has completed. Response: '', os_fail = True\<rparr>
     = (\<lparr>os_text = ''Request #1 has completed. Response: '', os_fail = True\<rparr>, rsp2)"
proof -
  let ?c = "\<lparr>os_text = ''Request #1 has completed. Response: '', os_fail = True\<rparr>"
  have first: "http_handler (\<lambda>ec. []) demo_request new_response no_error \<lparr>os_text = [], os_fail = False\<rparr>
      = (?c, new_response\<lparr>m_response_buf := []\<rparr>)"
    by (simp add: http_handler_def put_def put_buffer_def demo_request_def create_request_def set_callback_def
        set_uri_def set_host_def to_string_u32_def to_dec_eval new_response_def)
  obtain os2 rsp2 where second: "http_handler (\<lambda>ec. []) demo_request new_response asio_eof ?c = (os2, rsp2)"
    by (metis prod.exhaust)
  have "os2 = ?c"
    by (rule empty_response_silences_console [OF _ _ first second]) (simp_all add: new_response_def)
  with first second show ?thesis by blast
qed

lemma cancelled_not_failed: "cancelled_text i \<noteq> failed_text message i ec"
  by (simp add: cancelled_text_def failed_text_def)

text \<open>The callbacks of the two TCP clients print the same text except for an error whose value equals that of
  \<^verbatim>\<open>operation_aborted\<close> in another category, which the single-threaded client reports as a cancellation.\<close>

theorem tcp_handlers_agree:
  "tcp_handler message i response ec os = tcp_mt_handler message i response ec os \<longleftrightarrow>
   \<not> (\<not> os_fail os \<and> ec_value ec = 125 \<and> ec_category ec \<noteq> System_Category)"
  using cancelled_not_failed [of i message ec]
  by (cases ec; cases os) (auto simp: tcp_handler_def tcp_mt_handler_def operation_aborted_def put_def)

end
