(* ===== verification/Http_Client_Object.thy ===== *)
theory Http_Client_Object
  imports Http_Client_Properties
begin

section \<open>HTTP client: the client object and its I/O thread\<close>

text \<open>
  \<^verbatim>\<open>HTTPClient\<close> of \<^verbatim>\<open>chapter5/HTTPClient/httpclient.cpp\<close> and the script of its \<^verbatim>\<open>main.cpp\<close>: the requests that have been
  created, the work guard, and the I/O thread, which leaves \<^verbatim>\<open>run\<close> when the guard is gone and no operation
  waits. The user's calls and the completions come in any order. A request object is a slot of the
  list; \<open>slot_executed\<close> counts the calls of \<^verbatim>\<open>execute\<close>.
\<close>

record request_slot =
  slot_waiting :: "request_handler list"
  slot_request :: http_request
  slot_trace :: "request_action list"
  slot_executed :: nat

record http_client =
  hc_work :: bool
  hc_requests :: "request_slot list"

definition new_http_client :: http_client where
  "new_http_client = \<lparr>hc_work = True, hc_requests = []\<rparr>"

definition client_create_request :: "u32 \<Rightarrow> http_client \<Rightarrow> http_client" where
  "client_create_request i c =
     c\<lparr>hc_requests := hc_requests c @
        [\<lparr>slot_waiting = [], slot_request = create_request i, slot_trace = [], slot_executed = 0\<rparr>]\<rparr>"

text \<open>\<^verbatim>\<open>close\<close> drops the guard and joins; the join returns when the thread has left \<^verbatim>\<open>run\<close>.\<close>

definition client_close :: "http_client \<Rightarrow> http_client" where
  "client_close c = c\<lparr>hc_work := False\<rparr>"

definition http_join_returns :: "http_client \<Rightarrow> bool" where
  "http_join_returns c \<longleftrightarrow> \<not> hc_work c \<and> list_all (\<lambda>s. slot_waiting s = []) (hc_requests c)"

definition on_slot :: "nat \<Rightarrow> (request_slot \<Rightarrow> request_slot) \<Rightarrow> http_client \<Rightarrow> http_client" where
  "on_slot i f c =
     (if i < length (hc_requests c) then c\<lparr>hc_requests := (hc_requests c)[i := f (hc_requests c ! i)]\<rparr> else c)"

definition slot_call ::
  "(http_request \<Rightarrow> http_request \<times> request_action list) \<Rightarrow> request_slot \<Rightarrow> request_slot" where
  "slot_call f s =
     (case f (slot_request s) of
        (rq, as) \<Rightarrow> s\<lparr>slot_waiting := slot_waiting s @ conts as, slot_request := rq, slot_trace := slot_trace s @ as\<rparr>)"

definition slot_completes :: "nat \<Rightarrow> request_result \<Rightarrow> request_slot \<Rightarrow> request_slot" where
  "slot_completes k r s =
     (case chain_step request_step request_external (Completes k r) (slot_waiting s, slot_request s, slot_trace s) of
        (p, rq, tr) \<Rightarrow> s\<lparr>slot_waiting := p, slot_request := rq, slot_trace := tr\<rparr>)"

datatype http_event =
  Create_Request u32
| Configure nat "http_request \<Rightarrow> http_request"
| Execute_Request nat
| Cancel_Request nat request_call
| Request_Completes nat nat request_result
| Close_Client

fun http_client_step :: "http_event \<Rightarrow> http_client \<Rightarrow> http_client" where
  "http_client_step (Create_Request i) c = client_create_request i c"
| "http_client_step (Configure n f) c = on_slot n (slot_call (\<lambda>rq. (f rq, []))) c"
| "http_client_step (Execute_Request n) c =
     on_slot n (\<lambda>s. (slot_call execute s)\<lparr>slot_executed := Suc (slot_executed s)\<rparr>) c"
| "http_client_step (Cancel_Request n call) c = on_slot n (slot_call (request_external call)) c"
| "http_client_step (Request_Completes n k r) c = on_slot n (slot_completes k r) c"
| "http_client_step Close_Client c = client_close c"

definition http_client_run :: "http_event list \<Rightarrow> http_client" where
  "http_client_run evs = fold http_client_step evs new_http_client"

text \<open>The calls that \<^verbatim>\<open>main\<close> makes, with the completions \<open>first\<close> of the first three seconds and \<open>rest\<close> of the
  last fifteen.\<close>

definition http_main :: "(http_request \<Rightarrow> http_request) \<Rightarrow> http_event list \<Rightarrow> request_call \<Rightarrow> http_event list \<Rightarrow> http_event list" where
  "http_main callback first cancellation rest =
     [Create_Request 1, Configure 0 (set_host ''localhost''), Configure 0 (set_uri ''/index.html''),
      Configure 0 (set_port 3333), Configure 0 callback, Execute_Request 0] @ first @
     [Create_Request 1, Configure 1 (set_host ''localhost''), Configure 1 (set_uri ''/example.html''),
      Configure 1 (set_port 3333), Configure 1 callback, Execute_Request 1, Cancel_Request 1 cancellation] @ rest @
     [Close_Client]"

subsection \<open>Closing the client\<close>

definition slot_ok :: "request_slot \<Rightarrow> bool" where
  "slot_ok s \<longleftrightarrow> length (slot_waiting s) + end_count (slot_trace s) = slot_executed s"

lemma slot_completes_ok: "slot_ok s \<Longrightarrow> slot_ok (slot_completes k r s)"
proof (cases "k < length (slot_waiting s)")
  case True
  obtain rq as where h: "request_step (slot_waiting s ! k) r (slot_request s) = (rq, as)"
    by (cases "request_step (slot_waiting s ! k) r (slot_request s)")
  have "next_or_end as" using request_step_shape [of "slot_waiting s ! k" r "slot_request s"] h by simp
  moreover assume "slot_ok s"
  ultimately show ?thesis using True h
    by (auto simp: slot_ok_def slot_completes_def chain_step_def next_or_end_def)
qed (simp add: slot_ok_def slot_completes_def chain_step_def)

lemma slot_call_quiet: "quiet (snd (f (slot_request s))) \<Longrightarrow> slot_ok s \<Longrightarrow> slot_ok (slot_call f s)"
  by (cases "f (slot_request s)") (simp add: slot_ok_def slot_call_def quiet_def)

lemma slot_execute_ok:
  "slot_ok s \<Longrightarrow> slot_ok ((slot_call execute s)\<lparr>slot_executed := Suc (slot_executed s)\<rparr>)"
  using execute_shape [of "slot_request s"]
  by (cases "execute (slot_request s)") (simp add: slot_ok_def slot_call_def next_or_end_def)

lemma on_slot_ok:
  "(\<And>s. slot_ok s \<Longrightarrow> slot_ok (f s)) \<Longrightarrow> list_all slot_ok (hc_requests c) \<Longrightarrow> list_all slot_ok (hc_requests (on_slot n f c))"
  by (auto simp: on_slot_def list_all_length nth_list_update)

lemma new_slot_ok: "slot_ok \<lparr>slot_waiting = [], slot_request = rq, slot_trace = [], slot_executed = 0\<rparr>"
  by (simp add: slot_ok_def)

lemma configure_quiet: "quiet (snd ((\<lambda>rq. (f rq, [])) rq))"
  by (simp add: quiet_def)

lemma http_client_step_ok:
  "list_all slot_ok (hc_requests c) \<Longrightarrow> list_all slot_ok (hc_requests (http_client_step ev c))"
  by (cases ev)
     (auto simp: client_create_request_def client_close_def new_slot_ok
       intro!: on_slot_ok slot_execute_ok slot_completes_ok slot_call_quiet rq.external_quiet configure_quiet)

lemma http_client_run_ok: "list_all slot_ok (hc_requests (http_client_run evs))"
proof -
  have "list_all slot_ok (hc_requests c) \<Longrightarrow> list_all slot_ok (hc_requests (fold http_client_step evs c))" for c
    by (induction evs arbitrary: c) (simp_all add: http_client_step_ok)
  then show ?thesis by (simp add: http_client_run_def new_http_client_def)
qed

text \<open>\<^verbatim>\<open>close\<close> returns only when every request that was ever executed has ended, once for each call of
  \<^verbatim>\<open>execute\<close>: with its callback, or with an exception that has terminated the program before.\<close>

theorem close_waits_for_requests:
  assumes "http_join_returns (http_client_run evs)" and "s \<in> set (hc_requests (http_client_run evs))"
  shows "end_count (slot_trace s) = slot_executed s"
  using http_client_run_ok [of evs] assms by (auto simp: http_join_returns_def list_all_iff slot_ok_def)

definition closing_run :: "http_event list" where
  "closing_run = [Create_Request 1, Configure 0 (set_host ''h''), Configure 0 (set_uri ''/a''),
     Configure 0 (set_callback (Some 7)), Execute_Request 0, Request_Completes 0 0 (failed_result asio_eof), Close_Client]"

lemma closing_run_ends:
  "http_join_returns (http_client_run closing_run)"
  "\<exists>s. hc_requests (http_client_run closing_run) = [s] \<and> slot_executed s = 1"
  by (simp_all add: http_client_run_def closing_run_def new_http_client_def client_create_request_def client_close_def
      on_slot_def slot_call_def slot_completes_def http_join_returns_def chain_step_def execute_def
      start_unless_cancelled_def request_step_def on_host_name_resolved_def request_on_finish_def
      create_request_def set_callback_def set_uri_def set_host_def DEFAULT_PORT_def)

theorem close_waits_for_requests_witness:
  "\<exists>s. hc_requests (http_client_run closing_run) = [s] \<and> end_count (slot_trace s) = 1"
proof -
  obtain s where s: "hc_requests (http_client_run closing_run) = [s]" "slot_executed s = 1"
    using closing_run_ends(2) by blast
  from close_waits_for_requests [OF closing_run_ends(1), of s] s show ?thesis by simp
qed

end
