(* ===== verification/Async_Tcp_Mains.thy ===== *)
theory Async_Tcp_Mains
  imports Async_Tcp_Properties Thread_Pools
begin

section \<open>Asynchronous TCP clients: their main programs\<close>

text \<open>
  The scripts of \<^verbatim>\<open>chapter3/asyncTCPClient/main.cpp\<close> and \<^verbatim>\<open>chapter3/asyncTCPClientMT/main.cpp\<close>: the user's calls, with the
  completions of each pause between them as arguments. The ids of the script are fresh, so it stays within
  the hypotheses under which the table of active sessions is exact.
\<close>

definition submission :: "u32 \<Rightarrow> 16 word \<Rightarrow> u32 \<Rightarrow> error_code \<times> error_code \<Rightarrow> client_event" where
  "submission duration port i ecs =
     Submit (fst ecs) (snd ecs) duration ''127.0.0.1'' port (Some 0) i"

definition completions_of :: "(nat \<times> session_result) list \<Rightarrow> client_event list" where
  "completions_of rs = map (\<lambda>(n, r). Complete n r) rs"

definition tcp_main ::
  "error_code \<times> error_code \<Rightarrow> (nat \<times> session_result) list \<Rightarrow> error_code \<times> error_code \<Rightarrow> error_code \<Rightarrow>
   (nat \<times> session_result) list \<Rightarrow> error_code \<times> error_code \<Rightarrow> (nat \<times> session_result) list \<Rightarrow> client_event list" where
  "tcp_main ecs1 five_seconds ecs2 cancel_ec six_seconds ecs3 fifteen_seconds =
     [submission 10 3333 1 ecs1] @ completions_of five_seconds @
     [submission 11 3334 2 ecs2, Cancel cancel_ec 1] @ completions_of six_seconds @
     [submission 12 3335 3 ecs3] @ completions_of fifteen_seconds @ [Close]"

text \<open>The multi-threaded program starts four threads and makes the same calls.\<close>

definition tcp_mt_main ::
  "error_code \<times> error_code \<Rightarrow> (nat \<times> session_result) list \<Rightarrow> error_code \<times> error_code \<Rightarrow> error_code \<Rightarrow>
   (nat \<times> session_result) list \<Rightarrow> error_code \<times> error_code \<Rightarrow> (nat \<times> session_result) list \<Rightarrow>
   nat list option \<times> client_event list" where
  "tcp_mt_main ecs1 five_seconds ecs2 cancel_ec six_seconds ecs3 fifteen_seconds =
     (new_client_pool 4,
      [submission 10 3333 1 ecs1] @ completions_of five_seconds @
      [submission 11 3334 2 ecs2, Cancel cancel_ec 1] @ completions_of six_seconds @
      [submission 12 3335 3 ecs3] @ completions_of fifteen_seconds @ [Close])"

text \<open>The ids in the table; only a submission adds one.\<close>

definition table_ids :: "tcp_client \<Rightarrow> u32 set" where
  "table_ids c = {i. find_session (m_active_sessions c) i \<noteq> None}"

lemma table_ids_step:
  "table_ids (fst (client_step ev c)) \<subseteq> table_ids c \<union> (case ev of Submit aec oec d ip port cb i \<Rightarrow> {i} | _ \<Rightarrow> {})"
proof (cases ev)
  case (Submit aec oec d ip port cb i)
  then show ?thesis
    by (auto simp: table_ids_def emulateLongComputationOp_def Let_def tab.find_insert split: if_splits)
next
  case (Complete n r)
  have "table_ids (fst (complete_operation n r c)) \<subseteq> table_ids c"
  proof (cases "n < length (waiting c)")
    case True
    obtain ref k where nth: "waiting c ! n = (ref, k)" by (cases "waiting c ! n")
    show ?thesis
    proof (cases "session_heap c ref")
      case (Some s)
      obtain s' t' as where step: "session_step k r (s, m_active_sessions c) = ((s', t'), as)"
        by (metis prod.exhaust)
      have "m_active_sessions (fst (complete_operation n r c)) = t'"
        using True nth Some step by (simp add: complete_operation_def)
      with session_step_table [OF step] show ?thesis
        by (auto simp: table_ids_def tab.find_erase split: if_splits)
    qed (use True nth in \<open>simp add: complete_operation_def\<close>)
  qed (simp add: complete_operation_def)
  with Complete show ?thesis by simp
qed (auto simp: table_ids_def cancelRequest_def cancel_session_def close_client_def split: option.splits)

lemma client_run_simps [simp]:
  "client_run [] c = c" "client_run (ev # evs) c = client_run evs (fst (client_step ev c))"
  "client_run (xs @ ys) c = client_run ys (client_run xs c)"
  by (simp_all add: client_run_def)

lemma completions_reachable:
  "reachable_client c \<Longrightarrow> reachable_client (client_run (completions_of rs) c) \<and>
     table_ids (client_run (completions_of rs) c) \<subseteq> table_ids c"
proof (induction rs arbitrary: c)
  case (Cons x rs)
  obtain n r where x: "x = (n, r)" by (cases x)
  let ?c = "fst (client_step (Complete n r) c)"
  have "reachable_client ?c" by (rule reachable_client.step [OF Cons.prems fresh_step.complete])
  moreover have "table_ids ?c \<subseteq> table_ids c" using table_ids_step [of "Complete n r" c] by simp
  ultimately show ?case using Cons.IH [of ?c] by (auto simp: completions_of_def x)
qed (simp add: completions_of_def)

lemma submission_reachable:
  assumes "reachable_client c" and "i \<notin> table_ids c"
  shows "reachable_client (fst (client_step (submission d port i ecs) c)) \<and>
    table_ids (fst (client_step (submission d port i ecs) c)) \<subseteq> insert i (table_ids c)"
proof -
  have "find_session (m_active_sessions c) i = None" using assms(2) by (simp add: table_ids_def)
  from fresh_step.submit [OF this] have "reachable_client (fst (client_step (submission d port i ecs) c))"
    unfolding submission_def by (rule reachable_client.step [OF assms(1)])
  with table_ids_step [of "submission d port i ecs" c] show ?thesis by (auto simp: submission_def)
qed

text \<open>Whatever the library answers during its pauses, the script reaches only states in which the table of
  active sessions is exact, and when \<^verbatim>\<open>close\<close> returns at its end no session is left in it.\<close>

theorem tcp_main_clean_end:
  assumes "client_run (tcp_main ecs1 five ecs2 cancel_ec six ecs3 fifteen) new_tcp_client = c"
  shows "reachable_client c \<and> (join_returns c \<longrightarrow> table_ids c = {})"
proof -
  note completed = completions_reachable
  let ?c1 = "fst (client_step (submission 10 3333 1 ecs1) new_tcp_client)"
  have 1: "reachable_client ?c1 \<and> table_ids ?c1 \<subseteq> {1}"
    using submission_reachable [OF reachable_client.start, of 1] by (auto simp: table_ids_def new_tcp_client_def find_session_def)
  let ?c2 = "client_run (completions_of five) ?c1"
  have 2: "reachable_client ?c2 \<and> table_ids ?c2 \<subseteq> {1}" using completed 1 by blast
  let ?c3 = "fst (client_step (submission 11 3334 2 ecs2) ?c2)"
  have 3: "reachable_client ?c3 \<and> table_ids ?c3 \<subseteq> {1, 2}"
  proof -
    have "2 \<notin> table_ids ?c2" using 2 by (auto dest: subsetD)
    with submission_reachable [of ?c2 2 11 3334 ecs2] 2 show ?thesis by blast
  qed
  let ?c4 = "fst (client_step (Cancel cancel_ec 1) ?c3)"
  have 4: "reachable_client ?c4 \<and> table_ids ?c4 \<subseteq> {1, 2}"
    using reachable_client.step [OF _ fresh_step.cancel] table_ids_step [of "Cancel cancel_ec 1" ?c3] 3 by auto
  let ?c5 = "client_run (completions_of six) ?c4"
  have 5: "reachable_client ?c5 \<and> table_ids ?c5 \<subseteq> {1, 2}" using completed 4 by blast
  let ?c6 = "fst (client_step (submission 12 3335 3 ecs3) ?c5)"
  have "3 \<notin> table_ids ?c5" using 5 by (auto dest: subsetD)
  with submission_reachable [of ?c5 3 12 3335 ecs3] 5 have 6: "reachable_client ?c6" by blast
  have 7: "reachable_client (client_run (completions_of fifteen) ?c6)" using completed 6 by blast
  have c: "c = fst (client_step Close (client_run (completions_of fifteen) ?c6))"
    using assms by (simp add: tcp_main_def)
  have reach: "reachable_client c" unfolding c by (rule reachable_client.step [OF 7 fresh_step.close_])
  moreover have "table_ids c = {}" if "join_returns c"
    using close_leaves_no_session [OF reach that] by (simp add: table_ids_def)
  ultimately show ?thesis by blast
qed

end
