(* ===== verification/Sync_Io.thy ===== *)
theory Sync_Io
  imports Asio Cpp_Stream
begin

section \<open>Blocking programs: calls, exceptions and their order\<close>

text \<open>
  The synchronous programs are sequences of blocking calls into Boost.Asio, most of them through the
  overloads that throw. The library is an oracle: given all calls made so far and the present one it
  answers with an error code and, for calls that read, the bytes. A program is a function of the calls made
  so far that gives a result or the fault it ends with, and the longer list of calls; so what a program did,
  in which order, and what it did not do any more after a failure can all be stated.
\<close>

datatype sync_call =
  Parse_Address string
| Open_Socket
| New_Acceptor
| Bind_Call
| Listen_Call
| Accept_Call
| Connect_Call string "16 word"
| Resolve_Call string string
| Ssl_Setup
| Client_Handshake bool bool   \<comment> \<open>what the verification callback says of an untrusted and of a trusted certificate\<close>
| Server_Handshake
| Ssl_Shutdown
| Write_All bytes
| Write_Part bytes
| Read_Delim bytes
| Read_Exactly nat
| Read_To_End
| Read_Part nat
| Send_To string "16 word" bytes
| Receive_From nat
| Shutdown_Call shutdown_type
| Close_Socket
| Load_Stop
| Spawn_Thread
| Sleep
| Print string
| Print_Error error_code
| Delete_Service

record sync_answer =
  ans_ec :: error_code
  ans_data :: bytes
  ans_count :: nat
  ans_flag :: bool

type_synonym environment = "sync_call list \<Rightarrow> sync_call \<Rightarrow> sync_answer"
type_synonym 'a io = "environment \<Rightarrow> sync_call list \<Rightarrow> (fault + 'a) \<times> sync_call list"

definition io_return :: "'a \<Rightarrow> 'a io" where
  "io_return x env cs = (Inr x, cs)"

definition io_throw :: "fault \<Rightarrow> 'a io" where
  "io_throw f env cs = (Inl f, cs)"

definition io_bind :: "'a io \<Rightarrow> ('a \<Rightarrow> 'b io) \<Rightarrow> 'b io" where
  "io_bind m k env cs =
     (case m env cs of
        (Inl f, cs') \<Rightarrow> (Inl f, cs')
      | (Inr x, cs') \<Rightarrow> k x env cs')"

definition io_then :: "'a io \<Rightarrow> 'b io \<Rightarrow> 'b io" where
  "io_then m n = io_bind m (\<lambda>x. n)"

text \<open>A block of statements.\<close>

fun io_block :: "unit io list \<Rightarrow> unit io" where
  "io_block [] = io_return ()"
| "io_block (m # ms) = io_then m (io_block ms)"

text \<open>
  A call whose error code is looked at, and the overload that throws it. Output, the atomic flag, sleeping and
  deleting an object report no error code.
\<close>

definition call :: "sync_call \<Rightarrow> sync_answer io" where
  "call c env cs = (Inr (env cs c), cs @ [c])"

definition reports_errors :: "sync_call \<Rightarrow> bool" where
  "reports_errors c = (case c of Print s \<Rightarrow> False | Print_Error ec \<Rightarrow> False | Load_Stop \<Rightarrow> False
     | Sleep \<Rightarrow> False | Delete_Service \<Rightarrow> False | _ \<Rightarrow> True)"

definition failure_of :: "environment \<Rightarrow> sync_call list \<Rightarrow> sync_call \<Rightarrow> error_code option" where
  "failure_of env cs c =
     (if reports_errors c \<and> is_error (ans_ec (env cs c)) then Some (ans_ec (env cs c)) else None)"

definition call_throwing :: "sync_call \<Rightarrow> sync_answer io" where
  "call_throwing c env cs =
     (case failure_of env cs c of
        None \<Rightarrow> (Inr (env cs c), cs @ [c])
      | Some ec \<Rightarrow> (Inl (System_Error ec), cs @ [c]))"

definition perform :: "sync_call \<Rightarrow> unit io" where
  "perform c = io_bind (call_throwing c) (\<lambda>a. io_return ())"

definition perform_ignoring :: "sync_call \<Rightarrow> unit io" where
  "perform_ignoring c = io_bind (call c) (\<lambda>a. io_return ())"

text \<open>\<^verbatim>\<open>try { m } catch (boost::system::system_error &e) { h e.code() }\<close>: other exceptions pass.\<close>

definition io_catch :: "'a io \<Rightarrow> (error_code \<Rightarrow> 'a io) \<Rightarrow> 'a io" where
  "io_catch m h env cs =
     (case m env cs of
        (Inl (System_Error ec), cs') \<Rightarrow> h ec env cs'
      | r \<Rightarrow> r)"

text \<open>
  The shape of the \<^verbatim>\<open>main\<close> functions: a body in \<^verbatim>\<open>try\<close>, a handler that prints the error and returns its
  value as the exit code.
\<close>

definition main_returning_code :: "unit io \<Rightarrow> int io" where
  "main_returning_code body =
     io_catch (io_then body (io_return 0))
       (\<lambda>ec. io_then (perform (Print_Error ec)) (io_return (ec_value ec)))"

subsection \<open>Laws of sequencing\<close>

text \<open>What reasoning about programs with exceptions uses, as an interface.\<close>

locale exception_monad =
  fixes return :: "'a \<Rightarrow> 'm" and bind :: "'m \<Rightarrow> ('a \<Rightarrow> 'm) \<Rightarrow> 'm" and throw :: "'e \<Rightarrow> 'm"
  assumes return_bind: "bind (return x) k = k x"
    and bind_return: "bind m return = m"
    and bind_assoc: "bind (bind m k) l = bind m (\<lambda>x. bind (k x) l)"
    and throw_bind: "bind (throw e) k = throw e"
begin

lemma throw_then_anything: "bind (bind m (\<lambda>x. throw e)) k = bind m (\<lambda>x. throw e)"
  by (simp add: bind_assoc throw_bind)

lemma bind_congruence: "bind m (\<lambda>x. bind (return x) k) = bind m k"
  by (simp add: return_bind)

end

interpretation io: exception_monad io_return io_bind io_throw
  by unfold_locales
     (auto simp: fun_eq_iff io_return_def io_bind_def io_throw_def split: prod.splits sum.splits)

subsection \<open>Straight sequences of calls\<close>

text \<open>The outcome of a sequence of throwing calls: the first failure ends it.\<close>

fun run_calls :: "sync_call list \<Rightarrow> environment \<Rightarrow> sync_call list \<Rightarrow> error_code option \<times> sync_call list" where
  "run_calls [] env cs = (None, cs)"
| "run_calls (c # rest) env cs =
     (case failure_of env cs c of
        None \<Rightarrow> run_calls rest env (cs @ [c])
      | Some ec \<Rightarrow> (Some ec, cs @ [c]))"

lemma perform_simp [simp]:
  "perform c env cs =
     (case failure_of env cs c of None \<Rightarrow> (Inr (), cs @ [c]) | Some ec \<Rightarrow> (Inl (System_Error ec), cs @ [c]))"
  by (simp add: perform_def call_throwing_def io_bind_def io_return_def split: option.split)

lemma perform_ignoring_simp [simp]: "perform_ignoring c env cs = (Inr (), cs @ [c])"
  by (simp add: perform_ignoring_def io_bind_def call_def io_return_def)

lemma call_simp [simp]: "call c env cs = (Inr (env cs c), cs @ [c])"
  by (simp add: call_def)

lemma failure_of_silent [simp]:
  "failure_of env cs (Print s) = None" "failure_of env cs (Print_Error ec) = None"
  "failure_of env cs Load_Stop = None" "failure_of env cs Sleep = None" "failure_of env cs Delete_Service = None"
  by (simp_all add: failure_of_def reports_errors_def)

lemma failure_of_is_error: "failure_of env cs c = Some ec \<Longrightarrow> is_error ec"
  by (auto simp: failure_of_def split: if_splits)

lemma io_block_performs:
  "io_block (map perform cs) env h =
     (case run_calls cs env h of (None, h') \<Rightarrow> (Inr (), h') | (Some ec, h') \<Rightarrow> (Inl (System_Error ec), h'))"
  by (induction cs arbitrary: h) (auto simp: io_return_def io_then_def io_bind_def split: option.split)

lemma run_calls_append:
  "run_calls (cs @ ds) env h =
     (case run_calls cs env h of (None, h') \<Rightarrow> run_calls ds env h' | (Some ec, h') \<Rightarrow> (Some ec, h'))"
  by (induction cs arbitrary: h) (auto split: option.split)

lemma run_calls_complete: "run_calls cs env h = (None, h') \<Longrightarrow> h' = h @ cs"
  by (induction cs arbitrary: h) (fastforce split: option.splits)+

lemma run_calls_failure:
  "run_calls cs env h = (Some ec, h') \<Longrightarrow>
   is_error ec \<and> (\<exists>n < length cs. h' = h @ take (Suc n) cs \<and> failure_of env (h @ take n cs) (cs ! n) = Some ec)"
proof (induction cs arbitrary: h)
  case (Cons c cs)
  show ?case
  proof (cases "failure_of env h c")
    case None
    with Cons.prems have "run_calls cs env (h @ [c]) = (Some ec, h')" by simp
    from Cons.IH [OF this] obtain n where "is_error ec" "n < length cs" "h' = (h @ [c]) @ take (Suc n) cs"
      "failure_of env ((h @ [c]) @ take n cs) (cs ! n) = Some ec" by blast
    then show ?thesis by (intro conjI exI [of _ "Suc n"]) simp_all
  next
    case (Some e)
    with Cons.prems failure_of_is_error [OF Some] show ?thesis by (intro conjI exI [of _ 0]) auto
  qed
qed simp

subsection \<open>Programs that are one sequence of calls\<close>

text \<open>
  Most example programs are a \<^verbatim>\<open>main\<close> that makes a fixed sequence of calls, in which a later call may carry
  data of an earlier answer, and returns the value of the first error; \<open>ignored\<close> are final calls whose errors the
  program does not look at.
\<close>

locale sequential_program =
  fixes main :: "int io" and calls :: "environment \<Rightarrow> sync_call list" and ignored :: "sync_call list"
  assumes follows: "main env [] =
    (case run_calls (calls env) env [] of
       (None, h) \<Rightarrow> (Inr 0, h @ ignored)
     | (Some ec, h) \<Rightarrow> (Inr (ec_value ec), h @ [Print_Error ec]))"
begin

lemma outcome:
  "(main env [] = (Inr 0, calls env @ ignored)) \<or>
   (\<exists>n ec. n < length (calls env) \<and> failure_of env (take n (calls env)) (calls env ! n) = Some ec \<and> ec_value ec \<noteq> 0 \<and>
      main env [] = (Inr (ec_value ec), take (Suc n) (calls env) @ [Print_Error ec]))"
proof (cases "run_calls (calls env) env []")
  case (Pair r h)
  show ?thesis
  proof (cases r)
    case None
    with Pair run_calls_complete [of "calls env" env "[]" h] show ?thesis by (simp add: follows)
  next
    case (Some ec)
    with Pair run_calls_failure [of "calls env" env "[]" ec h] show ?thesis
      by (auto simp: follows is_error_def)
  qed
qed

lemma no_exception_escapes: "\<exists>code h. main env [] = (Inr code, h)"
  using outcome by blast

lemma success_iff_all_calls_succeed:
  "fst (main env []) = Inr 0 \<longleftrightarrow> list_all (\<lambda>n. failure_of env (take n (calls env)) (calls env ! n) = None) [0..<length (calls env)]"
  (is "?l \<longleftrightarrow> ?r")
proof
  assume ?r
  with outcome [of env] show ?l by (auto simp: list_all_iff)
next
  have *: "run_calls cs env h = (None, h') \<Longrightarrow> n < length cs \<Longrightarrow> failure_of env (h @ take n cs) (cs ! n) = None"
    for cs h h' n
  proof (induction cs arbitrary: h n)
    case (Cons c cs)
    then show ?case by (cases n) (fastforce split: option.splits)+
  qed simp
  assume ?l
  then have "fst (run_calls (calls env) env []) = None"
    using run_calls_failure [of "calls env" env "[]"]
    by (cases "run_calls (calls env) env []"; cases "fst (run_calls (calls env) env [])")
       (auto simp: follows is_error_def split: option.splits)
  then show ?r using * [of "calls env" "[]"]
    by (cases "run_calls (calls env) env []") (auto simp: list_all_iff)
qed

end

end
