(* ===== verification/Sync_Clients.thy ===== *)
theory Sync_Clients
  imports Sync_Io
begin

section \<open>The synchronous clients\<close>

text \<open>
  \<^verbatim>\<open>chapter3/syncTCPClient\<close>, \<^verbatim>\<open>chapter3/syncUDPClient\<close> and \<^verbatim>\<open>chapter5/syncSSLClient\<close>: one definition per member
  function and one for each \<^verbatim>\<open>main\<close>. An object is the endpoint it was created with. Each \<^verbatim>\<open>main\<close> is shown to be a fixed
  sequence of calls (interpretations of \<open>sequential_program\<close>), in which the last output carries the response.
\<close>

type_synonym endpoint = "string \<times> 16 word"

definition comp_request :: "u32 \<Rightarrow> bytes" where
  "comp_request duration_sec = ''EMULATE_LONG_COMP_OP '' @ to_string_u32 duration_sec @ [LF]"

text \<open>The line that \<^verbatim>\<open>std::getline\<close> takes from a fresh stream on the received bytes.\<close>

definition first_line :: "bytes \<Rightarrow> string" where
  "first_line buf = fst (getline LF (open_istream buf) [])"

lemma first_line_simp: "LF \<notin> set line \<Longrightarrow> first_line (line @ LF # rest) = line"
  using lf.read_open [of line rest "[]"] by (simp add: first_line_def)

subsection \<open>TCP\<close>

definition SyncTCPClient :: "string \<Rightarrow> 16 word \<Rightarrow> endpoint io" where
  "SyncTCPClient raw_ip_address port_num =
     io_then (perform (Parse_Address raw_ip_address)) (io_then (perform Open_Socket) (io_return (raw_ip_address, port_num)))"

definition tcp_connect :: "endpoint \<Rightarrow> unit io" where
  "tcp_connect ep = perform (Connect_Call (fst ep) (snd ep))"

definition tcp_close :: "unit io" where
  "tcp_close = io_then (perform (Shutdown_Call shutdown_both)) (perform Close_Socket)"

definition sendRequest :: "string \<Rightarrow> unit io" where
  "sendRequest request = perform (Write_All request)"

definition receiveResponse :: "string io" where
  "receiveResponse = io_bind (call_throwing (Read_Delim [LF])) (\<lambda>a. io_return (first_line (ans_data a)))"

definition tcp_emulateLongComputationOp :: "u32 \<Rightarrow> string io" where
  "tcp_emulateLongComputationOp duration_sec =
     (let request = comp_request duration_sec in io_then (sendRequest request) receiveResponse)"

definition sync_tcp_main :: "int io" where
  "sync_tcp_main = main_returning_code
     (io_bind (SyncTCPClient ''127.0.0.1'' 3333) (\<lambda>client.
        io_then (tcp_connect client)
       (io_then (perform (Print ''Sending request to the server... ''))
       (io_bind (tcp_emulateLongComputationOp 10) (\<lambda>response.
        io_then (perform (Print (''Response received: '' @ response))) tcp_close)))))"

definition sync_tcp_calls :: "environment \<Rightarrow> sync_call list" where
  "sync_tcp_calls env =
     (let asked = [Parse_Address ''127.0.0.1'', Open_Socket, Connect_Call ''127.0.0.1'' 3333,
                   Print ''Sending request to the server... '', Write_All (comp_request 10)]
      in asked @ [Read_Delim [LF], Print (''Response received: '' @ first_line (ans_data (env asked (Read_Delim [LF])))),
                  Shutdown_Call shutdown_both, Close_Socket])"

lemmas io_defs = io_then_def io_bind_def io_return_def io_catch_def main_returning_code_def call_throwing_def

interpretation sync_tcp: sequential_program sync_tcp_main sync_tcp_calls "[]"
  by unfold_locales
     (simp add: sync_tcp_main_def sync_tcp_calls_def SyncTCPClient_def tcp_connect_def tcp_close_def
        tcp_emulateLongComputationOp_def sendRequest_def receiveResponse_def io_defs Let_def split: option.split)

subsection \<open>UDP\<close>

definition SyncUDPClient :: "unit io" where
  "SyncUDPClient = perform Open_Socket"

definition udp_sendRequest :: "endpoint \<Rightarrow> string \<Rightarrow> unit io" where
  "udp_sendRequest ep request = perform (Send_To (fst ep) (snd ep) request)"

text \<open>The buffer has six characters; the answer to \<^verbatim>\<open>receive_from\<close> holds the bytes that were stored in it.\<close>

definition udp_receiveResponse :: "string io" where
  "udp_receiveResponse =
     io_bind (call_throwing (Receive_From 6)) (\<lambda>a.
       io_then (perform (Shutdown_Call shutdown_both)) (io_return (ans_data a)))"

definition udp_emulateLongComputationOp :: "u32 \<Rightarrow> string \<Rightarrow> 16 word \<Rightarrow> string io" where
  "udp_emulateLongComputationOp duration_sec raw_ip_address port_num =
     (let request = comp_request duration_sec
      in io_then (perform (Parse_Address raw_ip_address))
        (io_then (udp_sendRequest (raw_ip_address, port_num) request) udp_receiveResponse))"

definition sync_udp_main :: "int io" where
  "sync_udp_main = main_returning_code
     (io_then SyncUDPClient
     (io_then (perform (Print ''Sending request to the server #1 ... ''))
     (io_bind (udp_emulateLongComputationOp 10 ''127.0.0.1'' 3333) (\<lambda>response.
      io_then (perform (Print (''Response from the serever #1 received: '' @ response)))
     (io_then (perform (Print ''Sending request to the server #2... ''))
     (io_bind (udp_emulateLongComputationOp 10 ''192.168.1.10'' 3334) (\<lambda>response.
      perform (Print (''Response from the server #2 received: '' @ response)))))))))"

definition sync_udp_calls :: "environment \<Rightarrow> sync_call list" where
  "sync_udp_calls env =
     (let first = [Open_Socket, Print ''Sending request to the server #1 ... '', Parse_Address ''127.0.0.1'',
                   Send_To ''127.0.0.1'' 3333 (comp_request 10)];
          second = first @ [Receive_From 6, Shutdown_Call shutdown_both,
                   Print (''Response from the serever #1 received: '' @ ans_data (env first (Receive_From 6))),
                   Print ''Sending request to the server #2... '', Parse_Address ''192.168.1.10'',
                   Send_To ''192.168.1.10'' 3334 (comp_request 10)]
      in second @ [Receive_From 6, Shutdown_Call shutdown_both,
                   Print (''Response from the server #2 received: '' @ ans_data (env second (Receive_From 6)))])"

interpretation sync_udp: sequential_program sync_udp_main sync_udp_calls "[]"
  by unfold_locales
     (simp add: sync_udp_main_def sync_udp_calls_def SyncUDPClient_def udp_emulateLongComputationOp_def
        udp_sendRequest_def udp_receiveResponse_def io_defs Let_def split: option.split)

subsection \<open>TLS\<close>

text \<open>\<^verbatim>\<open>on_peer_verify\<close> accepts every certificate, whatever the library found out about it.\<close>

definition on_peer_verify :: "bool \<Rightarrow> bool" where
  "on_peer_verify preverified = True"

definition SyncSSLClient :: "string \<Rightarrow> 16 word \<Rightarrow> endpoint io" where
  "SyncSSLClient raw_ip_address port_num =
     io_then (perform (Parse_Address raw_ip_address)) (io_then (perform Ssl_Setup) (io_return (raw_ip_address, port_num)))"

text \<open>The handshake asks the callback that the constructor has set.\<close>

definition ssl_connect :: "endpoint \<Rightarrow> unit io" where
  "ssl_connect ep =
     io_then (perform (Connect_Call (fst ep) (snd ep))) (perform (Client_Handshake (on_peer_verify False) (on_peer_verify True)))"

definition ssl_close :: "unit io" where
  "ssl_close = io_then (perform_ignoring Ssl_Shutdown)
     (io_then (perform_ignoring (Shutdown_Call shutdown_both)) (perform_ignoring Close_Socket))"

definition send_request :: "string \<Rightarrow> unit io" where
  "send_request request = perform (Write_All request)"

definition receive_response :: "string io" where
  "receive_response = io_bind (call_throwing (Read_Delim [LF])) (\<lambda>a. io_return (first_line (ans_data a)))"

definition emulate_long_computation_op :: "u32 \<Rightarrow> string io" where
  "emulate_long_computation_op duration_sec =
     (let request = comp_request duration_sec in io_then (send_request request) receive_response)"

definition sync_ssl_main :: "int io" where
  "sync_ssl_main = main_returning_code
     (io_bind (SyncSSLClient ''127.0.0.1'' 3333) (\<lambda>client.
        io_then (ssl_connect client)
       (io_then (perform (Print ''Sending request to the server... ''))
       (io_bind (emulate_long_computation_op 10) (\<lambda>response.
        io_then (perform (Print (''Response received: '' @ response))) ssl_close)))))"

definition sync_ssl_calls :: "environment \<Rightarrow> sync_call list" where
  "sync_ssl_calls env =
     (let asked = [Parse_Address ''127.0.0.1'', Ssl_Setup, Connect_Call ''127.0.0.1'' 3333, Client_Handshake True True,
                   Print ''Sending request to the server... '', Write_All (comp_request 10)]
      in asked @ [Read_Delim [LF], Print (''Response received: '' @ first_line (ans_data (env asked (Read_Delim [LF]))))])"

interpretation sync_ssl: sequential_program sync_ssl_main sync_ssl_calls
    "[Ssl_Shutdown, Shutdown_Call shutdown_both, Close_Socket]"
  by unfold_locales
     (simp add: sync_ssl_main_def sync_ssl_calls_def SyncSSLClient_def ssl_connect_def ssl_close_def on_peer_verify_def
        emulate_long_computation_op_def send_request_def receive_response_def io_defs Let_def split: option.split)

subsection \<open>Properties\<close>

text \<open>The synchronous TCP client makes its calls in the one order connect, write, read, print, shut down, close; it
  exits with 0 after the last one, or stops at the first call that fails, prints that error and exits with
  its value, which is not 0. No exception leaves \<^verbatim>\<open>main\<close>.\<close>

theorem sync_tcp_client_outcome:
  "sync_tcp_main env [] = (Inr 0, sync_tcp_calls env) \<or>
   (\<exists>n ec. n < length (sync_tcp_calls env) \<and>
      failure_of env (take n (sync_tcp_calls env)) (sync_tcp_calls env ! n) = Some ec \<and> ec_value ec \<noteq> 0 \<and>
      sync_tcp_main env [] = (Inr (ec_value ec), take (Suc n) (sync_tcp_calls env) @ [Print_Error ec]))"
  using sync_tcp.outcome [of env] by simp

text \<open>What the synchronous TCP client prints as the response is exactly the first line the server sent.\<close>

theorem sync_tcp_client_prints_first_line:
  assumes "fst (sync_tcp_main env []) = Inr 0" and "LF \<notin> set line"
    and "ans_data (env (take 5 (sync_tcp_calls env)) (Read_Delim [LF])) = line @ LF # rest"
  shows "Print (''Response received: '' @ line) \<in> set (snd (sync_tcp_main env []))"
proof -
  from sync_tcp.outcome [of env] assms(1) have run: "snd (sync_tcp_main env []) = sync_tcp_calls env" by auto
  have "env (take 5 (sync_tcp_calls env)) = env [Parse_Address ''127.0.0.1'', Open_Socket,
      Connect_Call ''127.0.0.1'' 3333, Print ''Sending request to the server... '', Write_All (comp_request 10)]"
    by (simp add: sync_tcp_calls_def Let_def numeral_eq_Suc)
  with assms(2,3) show ?thesis
    unfolding run by (simp add: sync_tcp_calls_def Let_def first_line_simp)
qed

text \<open>An environment for examples: every call succeeds, every read delivers the given bytes.\<close>

definition good_environment :: "bytes \<Rightarrow> environment" where
  "good_environment d h c = \<lparr>ans_ec = no_error, ans_data = d, ans_count = 0, ans_flag = False\<rparr>"

lemma good_environment_succeeds [simp]: "failure_of (good_environment d) h c = None"
  by (simp add: failure_of_def good_environment_def)

lemma good_environment_data [simp]: "ans_data (good_environment d h c) = d"
  by (simp add: good_environment_def)

theorem sync_tcp_client_prints_first_line_witness:
  "Print (''Response received: '' @ ''OK'') \<in> set (snd (sync_tcp_main (good_environment (''OK'' @ LF # ''x'')) []))"
proof (rule sync_tcp_client_prints_first_line [where rest = "''x''"])
  show "fst (sync_tcp_main (good_environment (''OK'' @ LF # ''x'')) []) = Inr 0"
    using sync_tcp.success_iff_all_calls_succeed [of "good_environment (''OK'' @ LF # ''x'')"]
    by (simp add: list_all_iff)
qed simp_all

text \<open>A UDP request whose reply has been received is lost when the shutdown of the socket then fails, as it does for
  a socket that was never connected: the error is thrown instead of the response being returned.\<close>

theorem udp_response_lost:
  assumes "failure_of env (h @ [Parse_Address ip, Send_To ip port (comp_request d), Receive_From 6])
      (Shutdown_Call shutdown_both) = Some ec"
    and "failure_of env h (Parse_Address ip) = None"
    and "failure_of env (h @ [Parse_Address ip]) (Send_To ip port (comp_request d)) = None"
    and "failure_of env (h @ [Parse_Address ip, Send_To ip port (comp_request d)]) (Receive_From 6) = None"
  shows "fst (udp_emulateLongComputationOp d ip port env h) = Inl (System_Error ec)"
  using assms
  by (simp add: udp_emulateLongComputationOp_def udp_sendRequest_def udp_receiveResponse_def io_defs Let_def)

text \<open>A UDP response is what fits into six bytes: with a library that never stores more than the buffer holds,
  \<^verbatim>\<open>emulateLongComputationOp\<close> returns at most six characters, however long the datagram was.\<close>

theorem udp_response_truncated:
  assumes "\<And>h n. length (ans_data (env h (Receive_From n))) \<le> n"
    and "udp_emulateLongComputationOp d ip port env h = (Inr response, h')"
  shows "length response \<le> 6"
proof -
  have "response = ans_data (env (h @ [Parse_Address ip, Send_To ip port (comp_request d)]) (Receive_From 6))"
    using assms(2)
    by (auto simp: udp_emulateLongComputationOp_def udp_sendRequest_def udp_receiveResponse_def io_defs Let_def
        split: option.splits prod.splits)
  with assms(1) show ?thesis by simp
qed

text \<open>The answer of a kernel to shutting down an unconnected UDP socket.\<close>

definition udp_environment :: environment where
  "udp_environment h c =
     \<lparr>ans_ec = (if c = Shutdown_Call shutdown_both then \<lparr>ec_value = 107, ec_category = System_Category\<rparr> else no_error),
      ans_data = (case c of Receive_From n \<Rightarrow> take n ''Response'' | _ \<Rightarrow> []), ans_count = 0, ans_flag = False\<rparr>"

lemma udp_environment_failures:
  "failure_of udp_environment h (Shutdown_Call shutdown_both) = Some \<lparr>ec_value = 107, ec_category = System_Category\<rparr>"
  "failure_of udp_environment h (Parse_Address ip) = None" "failure_of udp_environment h (Send_To ip port d) = None"
  "failure_of udp_environment h (Receive_From n) = None"
  by (simp_all add: failure_of_def reports_errors_def udp_environment_def is_error_def no_error_def)

theorem udp_response_lost_witness:
  "fst (udp_emulateLongComputationOp 10 ''127.0.0.1'' 3333 udp_environment [])
     = Inl (System_Error \<lparr>ec_value = 107, ec_category = System_Category\<rparr>)"
  by (rule udp_response_lost) (simp_all add: udp_environment_failures)

theorem udp_response_truncated_witness:
  "\<exists>r h'. udp_emulateLongComputationOp 10 ''127.0.0.1'' 3333 (\<lambda>h c. (udp_environment h c)\<lparr>ans_ec := no_error\<rparr>) []
     = (Inr r, h') \<and> r = ''Respon'' \<and> length r \<le> 6"
proof -
  let ?env = "\<lambda>h c. (udp_environment h c)\<lparr>ans_ec := no_error\<rparr>"
  have contract: "\<And>h n. length (ans_data (?env h (Receive_From n))) \<le> n" by (simp add: udp_environment_def)
  have ok: "failure_of ?env h c = None" for h c by (simp add: failure_of_def)
  have run: "udp_emulateLongComputationOp 10 ''127.0.0.1'' 3333 ?env []
      = (Inr ''Respon'', [Parse_Address ''127.0.0.1'', Send_To ''127.0.0.1'' 3333 (comp_request 10), Receive_From 6,
          Shutdown_Call shutdown_both])"
    by (simp add: udp_emulateLongComputationOp_def udp_sendRequest_def udp_receiveResponse_def io_defs Let_def ok)
       (simp add: udp_environment_def)
  from udp_response_truncated [OF contract run] run show ?thesis by blast
qed

end
