(* ===== verification/Sync_Servers.thy ===== *)
theory Sync_Servers
  imports Sync_Io Echo_Service
begin

section \<open>The synchronous servers\<close>

text \<open>
  \<^verbatim>\<open>chapter4/syncIterative\<close>, \<^verbatim>\<open>chapter4/syncParallel\<close> and \<^verbatim>\<open>chapter5/syncSSLServer\<close>: handling one client, accepting,
  and the loop of the server's thread, which ends when the flag that \<^verbatim>\<open>Stop\<close> sets is read as true. That loop
  may run for ever, so it is a partial function; each read of the flag is a call of its own, answered by
  the environment, because another thread writes it. The parallel server handles a client in a detached
  thread; its \<^verbatim>\<open>HandleClient\<close> is a program of its own.
\<close>

subsection \<open>Handling one client\<close>

definition response_text :: bytes where
  "response_text = ''Response'' @ [LF]"

text \<open>\<^verbatim>\<open>int i = 0; while (i != 1000000) i++;\<close> and the pause.\<close>

definition emulate_processing :: "unit io" where
  "emulate_processing = (let i = emulate_cpu 0 in perform Sleep)"

definition log_error :: "error_code \<Rightarrow> unit io" where
  "log_error ec = perform (Print_Error ec)"

definition iterative_HandleClient :: "unit io" where
  "iterative_HandleClient = io_catch
     (io_then (perform (Read_Delim [LF])) (io_then emulate_processing (perform (Write_All response_text))))
     log_error"

definition parallel_HandleClient :: "unit io" where
  "parallel_HandleClient = io_then
     (io_catch
       (io_then (perform (Read_Delim [LF])) (io_then emulate_processing (perform (Write_All response_text))))
       log_error)
     (perform Delete_Service)"

definition ssl_handle_client :: "unit io" where
  "ssl_handle_client = io_catch
     (io_then (perform Server_Handshake)
     (io_then (perform (Read_Delim [LF])) (io_then emulate_processing (perform (Write_All response_text)))))
     log_error"

subsection \<open>Accepting\<close>

definition iterative_Acceptor :: "unit io" where
  "iterative_Acceptor = io_block (map perform [New_Acceptor, Listen_Call])"

definition iterative_Accept :: "unit io" where
  "iterative_Accept = io_then (perform Accept_Call) iterative_HandleClient"

definition parallel_Acceptor :: "unit io" where
  "parallel_Acceptor = io_block (map perform [New_Acceptor, Listen_Call])"

text \<open>Creating the thread can fail; its \<^verbatim>\<open>std::system_error\<close> is not one of Boost's.\<close>

definition StartHandligClient :: "unit io" where
  "StartHandligClient = perform Spawn_Thread"

definition parallel_Accept :: "unit io" where
  "parallel_Accept = io_then (perform Accept_Call) StartHandligClient"

definition get_password :: "nat \<Rightarrow> string" where
  "get_password max_length = ''pass''"

definition ssl_Acceptor :: "unit io" where
  "ssl_Acceptor = io_block (map perform [New_Acceptor, Ssl_Setup, Listen_Call])"

definition ssl_accept :: "unit io" where
  "ssl_accept = io_then (perform Accept_Call) ssl_handle_client"

subsection \<open>The loop of the server thread\<close>

partial_function (option) accept_loop ::
  "unit io \<Rightarrow> environment \<Rightarrow> sync_call list \<Rightarrow> ((fault + unit) \<times> sync_call list) option" where
  "accept_loop accept env cs =
     (let stop = ans_flag (env cs Load_Stop); cs1 = cs @ [Load_Stop]
      in if stop then Some (Inr (), cs1)
         else case accept env cs1 of
                (Inl f, cs2) \<Rightarrow> Some (Inl f, cs2)
              | (Inr u, cs2) \<Rightarrow> accept_loop accept env cs2)"

definition server_thread ::
  "unit io \<Rightarrow> unit io \<Rightarrow> environment \<Rightarrow> sync_call list \<Rightarrow> ((fault + unit) \<times> sync_call list) option" where
  "server_thread acceptor accept env cs =
     (case acceptor env cs of
        (Inl f, cs1) \<Rightarrow> Some (Inl f, cs1)
      | (Inr u, cs1) \<Rightarrow> accept_loop accept env cs1)"

type_synonym thread_result = "((fault + unit) \<times> sync_call list) option"

definition iterative_Run :: "environment \<Rightarrow> thread_result" where
  "iterative_Run env = server_thread iterative_Acceptor iterative_Accept env []"

definition parallel_Run :: "environment \<Rightarrow> thread_result" where
  "parallel_Run env = server_thread parallel_Acceptor parallel_Accept env []"

definition ssl_run :: "environment \<Rightarrow> thread_result" where
  "ssl_run env = server_thread ssl_Acceptor ssl_accept env []"

text \<open>
  What becomes of the program: \<^verbatim>\<open>main\<close> starts the thread (\<open>thread_ec\<close> is the result of creating it; a failure is no exception of
  Boost, and \<^verbatim>\<open>main\<close> does not catch it), sleeps, sets the flag and joins. A fault that leaves the thread function terminates the process (the \<^verbatim>\<open>catch\<close> of \<^verbatim>\<open>main\<close> is in another thread); a thread that
  never ends keeps \<^verbatim>\<open>main\<close> in \<^verbatim>\<open>join\<close>.
\<close>

datatype program_end = Exits int | Terminated fault | Joins_For_Ever

definition sync_server_main :: "error_code \<Rightarrow> thread_result \<Rightarrow> program_end" where
  "sync_server_main thread_ec result =
     (if is_error thread_ec then Terminated (Std_System_Error thread_ec)
      else case result of
        None \<Rightarrow> Joins_For_Ever
      | Some (Inl f, cs) \<Rightarrow> Terminated f
      | Some (Inr u, cs) \<Rightarrow> Exits 0)"

lemmas sync_defs = io_then_def io_bind_def io_return_def io_catch_def

subsection \<open>One client\<close>

lemma emulate_processing_simp [simp]: "emulate_processing env h = (Inr (), h @ [Sleep])"
  by (simp add: emulate_processing_def Let_def)

lemma log_error_simp [simp]: "log_error ec env h = (Inr (), h @ [Print_Error ec])"
  by (simp add: log_error_def)

lemma iterative_HandleClient_run:
  "iterative_HandleClient env h = (Inr (), h @ (case failure_of env h (Read_Delim [LF]) of
     Some ec \<Rightarrow> [Read_Delim [LF], Print_Error ec]
   | None \<Rightarrow> [Read_Delim [LF], Sleep, Write_All response_text] @
       (case failure_of env (h @ [Read_Delim [LF], Sleep]) (Write_All response_text) of
          None \<Rightarrow> [] | Some ec \<Rightarrow> [Print_Error ec])))"
  by (simp add: iterative_HandleClient_def sync_defs split: option.split)

lemma parallel_HandleClient_run:
  "parallel_HandleClient env h =
     (Inr (), snd (iterative_HandleClient env h) @ [Delete_Service])"
  by (simp add: parallel_HandleClient_def iterative_HandleClient_run sync_defs split: option.split)

lemma ssl_handle_client_run:
  "ssl_handle_client env h = (case failure_of env h Server_Handshake of
     Some ec \<Rightarrow> (Inr (), h @ [Server_Handshake, Print_Error ec])
   | None \<Rightarrow> iterative_HandleClient env (h @ [Server_Handshake]))"
  by (simp add: ssl_handle_client_def iterative_HandleClient_run sync_defs split: option.split)

text \<open>However the connection behaves, handling a client never throws in any of the three synchronous servers; the
  response is written if and only if the request (with TLS also the handshake) has been received; and the parallel
  server deletes its service object exactly once, as its last act.\<close>

theorem sync_client_handled:
  "\<exists>cs ds es.
     iterative_HandleClient env h = (Inr (), h @ cs) \<and>
     parallel_HandleClient env h = (Inr (), h @ ds) \<and>
     ssl_handle_client env h = (Inr (), h @ es) \<and>
     (Write_All response_text \<in> set cs \<longleftrightarrow> failure_of env h (Read_Delim [LF]) = None) \<and>
     ds = cs @ [Delete_Service] \<and> Delete_Service \<notin> set cs \<and>
     (Write_All response_text \<in> set es \<longleftrightarrow> failure_of env h Server_Handshake = None \<and>
        failure_of env (h @ [Server_Handshake]) (Read_Delim [LF]) = None)"
  by (simp add: parallel_HandleClient_run ssl_handle_client_run iterative_HandleClient_run split: option.split)

subsection \<open>The loop\<close>

text \<open>What the loop needs of one round: it only appends calls, and can only fail in \<^verbatim>\<open>accept\<close> or what follows it.\<close>

definition round_ok :: "unit io \<Rightarrow> bool" where
  "round_ok accept \<longleftrightarrow> (\<forall>env h r h'. accept env h = (r, h') \<longrightarrow>
     (\<exists>cs. h' = h @ cs \<and> (\<forall>f. r = Inl f \<longrightarrow> cs \<noteq> [] \<and> last cs \<in> {Accept_Call, Spawn_Thread} \<and>
        (\<exists>ec. failure_of env (butlast h') (last cs) = Some ec \<and> f = System_Error ec))))"

lemma iterative_round_ok: "round_ok iterative_Accept"
  by (auto simp: round_ok_def iterative_Accept_def sync_defs iterative_HandleClient_run split: option.splits)

lemma parallel_round_ok: "round_ok parallel_Accept"
  by (auto simp: round_ok_def parallel_Accept_def StartHandligClient_def sync_defs butlast_append split: option.splits)

lemma ssl_round_ok: "round_ok ssl_accept"
  by (auto simp: round_ok_def ssl_accept_def sync_defs ssl_handle_client_run iterative_HandleClient_run
      split: option.splits)

definition loop_end :: "environment \<Rightarrow> (fault + unit) \<Rightarrow> sync_call list \<Rightarrow> bool" where
  "loop_end env r h \<longleftrightarrow> h \<noteq> [] \<and>
     (case r of
        Inr u \<Rightarrow> last h = Load_Stop \<and> ans_flag (env (butlast h) Load_Stop)
      | Inl f \<Rightarrow> last h \<in> {Accept_Call, Spawn_Thread} \<and> failure_of env (butlast h) (last h) \<noteq> None)"

lemma accept_loop_end:
  assumes "accept_loop accept env cs = Some res"
  shows "round_ok accept \<longrightarrow> loop_end env (fst res) (snd res)"
proof (rule accept_loop.raw_induct [where P = "\<lambda>accept env cs res. round_ok accept \<longrightarrow> loop_end env (fst res) (snd res)",
      OF _ assms])
  fix loop :: "unit io \<Rightarrow> environment \<Rightarrow> sync_call list \<Rightarrow> thread_result" and accept env cs res
  assume ih: "\<And>accept env cs res. loop accept env cs = Some res \<Longrightarrow>
      round_ok accept \<longrightarrow> loop_end env (fst res) (snd res)"
    and eq: "(let stop = ans_flag (env cs Load_Stop); cs1 = cs @ [Load_Stop]
      in if stop then Some (Inr (), cs1)
         else case accept env cs1 of
                (Inl f, cs2) \<Rightarrow> Some (Inl f, cs2)
              | (Inr u, cs2) \<Rightarrow> loop accept env cs2) = Some res"
  show "round_ok accept \<longrightarrow> loop_end env (fst res) (snd res)"
  proof
    assume ok: "round_ok accept"
    show "loop_end env (fst res) (snd res)"
    proof (cases "ans_flag (env cs Load_Stop)")
      case True
      with eq show ?thesis by (auto simp: loop_end_def Let_def)
    next
      case False
      obtain r h where round: "accept env (cs @ [Load_Stop]) = (r, h)" by (metis prod.exhaust)
      show ?thesis
      proof (cases r)
        case (Inr u)
        with eq False round have "loop accept env h = Some res" by (simp add: Let_def)
        with ih ok show ?thesis by blast
      next
        case (Inl f)
        obtain new where h: "h = (cs @ [Load_Stop]) @ new" and new: "new \<noteq> []"
          and bad: "last new \<in> {Accept_Call, Spawn_Thread}" "failure_of env (butlast h) (last new) \<noteq> None"
          using ok round Inl unfolding round_ok_def by blast
        from eq False round Inl have "res = (Inl f, h)" by (simp add: Let_def)
        with h new bad show ?thesis by (simp add: loop_end_def)
      qed
    qed
  qed
qed

text \<open>How often the flag has been read.\<close>

definition loads :: "sync_call list \<Rightarrow> nat" where
  "loads h = length (filter (\<lambda>c. c = Load_Stop) h)"

lemma loads_simps [simp]:
  "loads (g @ h) = loads g + loads h" "loads (Load_Stop # h) = Suc (loads h)" "loads [] = 0"
  by (simp_all add: loads_def)

lemma accept_loop_returns:
  assumes "round_ok accept" and "\<And>h. n \<le> loads h \<Longrightarrow> ans_flag (env h Load_Stop)"
  shows "\<exists>res. accept_loop accept env cs = Some res"
proof (induction "n - loads cs" arbitrary: cs rule: less_induct)
  case less
  show ?case
  proof (cases "ans_flag (env cs Load_Stop)")
    case True
    then show ?thesis by (subst accept_loop.simps) (simp add: Let_def)
  next
    case False
    then have "loads cs < n" using assms(2) by (meson not_le)
    obtain r h where round: "accept env (cs @ [Load_Stop]) = (r, h)" by (metis prod.exhaust)
    show ?thesis
    proof (cases r)
      case (Inl f)
      with False round show ?thesis by (subst accept_loop.simps) (simp add: Let_def)
    next
      case (Inr u)
      obtain new where h: "h = (cs @ [Load_Stop]) @ new" using assms(1) round unfolding round_ok_def by blast
      from this \<open>loads cs < n\<close> have "n - loads h < n - loads cs" by simp
      from less.hyps [OF this] False round Inr show ?thesis
        by (subst accept_loop.simps) (simp add: Let_def)
    qed
  qed
qed

definition server_end :: "environment \<Rightarrow> (fault + unit) \<Rightarrow> sync_call list \<Rightarrow> bool" where
  "server_end env r h \<longleftrightarrow>
     (case r of
        Inr u \<Rightarrow> last h = Load_Stop \<and> ans_flag (env (butlast h) Load_Stop)
      | Inl f \<Rightarrow> last h \<in> {New_Acceptor, Ssl_Setup, Listen_Call, Accept_Call, Spawn_Thread} \<and>
          failure_of env (butlast h) (last h) \<noteq> None)"

lemma server_thread_end:
  assumes "server_thread (io_block (map perform prelude)) accept env [] = Some (r, h)" and "round_ok accept"
    and "set prelude \<subseteq> {New_Acceptor, Ssl_Setup, Listen_Call}"
  shows "server_end env r h"
proof (cases "run_calls prelude env []")
  case (Pair e h0)
  show ?thesis
  proof (cases e)
    case None
    with assms(1) Pair have "accept_loop accept env h0 = Some (r, h)"
      by (simp add: server_thread_def io_block_performs)
    from accept_loop_end [OF this] assms(2) show ?thesis
      by (auto simp: loop_end_def server_end_def split: sum.splits)
  next
    case (Some ec)
    with assms(1) Pair have r: "r = Inl (System_Error ec)" "h = h0"
      by (simp_all add: server_thread_def io_block_performs)
    from run_calls_failure [of prelude env "[]" ec h] Pair Some r obtain n where n: "n < length prelude"
      "h = take (Suc n) prelude" "failure_of env (take n prelude) (prelude ! n) = Some ec" by auto
    then have h: "h = take n prelude @ [prelude ! n]" by (simp add: take_Suc_conv_app_nth)
    moreover have "prelude ! n \<in> {New_Acceptor, Ssl_Setup, Listen_Call}" using assms(3) nth_mem [OF n(1)] by blast
    ultimately show ?thesis using n(3) r by (auto simp: server_end_def)
  qed
qed

text \<open>The thread of a synchronous server ends in two ways only: the stop flag was read as true, or accepting, creating
  the acceptor or creating a client's thread failed. A client never ends it, whatever its connection does.\<close>

theorem server_thread_ends:
  assumes "Some (r, h) \<in> {iterative_Run env, parallel_Run env, ssl_run env}"
  shows "server_end env r h"
proof -
  consider "iterative_Run env = Some (r, h)" | "parallel_Run env = Some (r, h)" | "ssl_run env = Some (r, h)"
    using assms by auto
  then show ?thesis
  proof cases
    case 1
    then show ?thesis unfolding iterative_Run_def iterative_Acceptor_def
      by (rule server_thread_end) (simp_all add: iterative_round_ok)
  next
    case 2
    then show ?thesis unfolding parallel_Run_def parallel_Acceptor_def
      by (rule server_thread_end) (simp_all add: parallel_round_ok)
  next
    case 3
    then show ?thesis unfolding ssl_run_def ssl_Acceptor_def
      by (rule server_thread_end) (simp_all add: ssl_round_ok)
  qed
qed

text \<open>C38: All three servers stop when asked to: if the flag is true from its \<open>n\<close>-th reading on, their thread returns after
  finitely many clients, provided each call of the library returns; the flag is only read between clients.\<close>

theorem sync_servers_stop:
  assumes "\<And>h. n \<le> loads h \<Longrightarrow> ans_flag (env h Load_Stop)"
  shows "iterative_Run env \<noteq> None \<and> parallel_Run env \<noteq> None \<and> ssl_run env \<noteq> None"
proof -
  have "server_thread acceptor accept env [] \<noteq> None" if "round_ok accept" for acceptor accept
    using accept_loop_returns [OF that, of n env] assms
    by (auto simp: server_thread_def split: prod.split sum.split)
  then show ?thesis
    using iterative_round_ok parallel_round_ok ssl_round_ok
    by (simp add: iterative_Run_def parallel_Run_def ssl_run_def)
qed

text \<open>When the port is in use the acceptor cannot be created, and none of the synchronous servers reports it: the exception
  leaves the server's thread, which terminates the program, although \<^verbatim>\<open>main\<close> has a handler that
  would print it.\<close>

theorem failed_bind_terminates_program:
  assumes "failure_of env [] New_Acceptor = Some ec" and "\<not> is_error thread_ec"
  shows "{sync_server_main thread_ec (iterative_Run env), sync_server_main thread_ec (parallel_Run env),
      sync_server_main thread_ec (ssl_run env)}
     = {Terminated (System_Error ec)}"
  using assms
  by (simp add: sync_server_main_def iterative_Run_def parallel_Run_def ssl_run_def server_thread_def
      iterative_Acceptor_def parallel_Acceptor_def ssl_Acceptor_def sync_defs)

subsection \<open>The properties at work\<close>

text \<open>An environment in which everything succeeds and the flag is true from its third reading on.\<close>

definition stopping_environment :: environment where
  "stopping_environment h c = \<lparr>ans_ec = no_error, ans_data = [], ans_count = 0, ans_flag = (2 \<le> loads h)\<rparr>"

theorem sync_servers_stop_witness:
  "iterative_Run stopping_environment \<noteq> None \<and> parallel_Run stopping_environment \<noteq> None \<and>
   ssl_run stopping_environment \<noteq> None"
  by (rule sync_servers_stop [where n = 2]) (simp add: stopping_environment_def)

definition refusing_environment :: "error_code \<Rightarrow> environment" where
  "refusing_environment ec h c = \<lparr>ans_ec = ec, ans_data = [], ans_count = 0, ans_flag = False\<rparr>"

definition address_in_use :: error_code where
  "address_in_use = \<lparr>ec_value = 98, ec_category = System_Category\<rparr>"

lemma refused_acceptor: "failure_of (refusing_environment address_in_use) [] New_Acceptor = Some address_in_use"
  by (simp add: failure_of_def reports_errors_def refusing_environment_def address_in_use_def is_error_def)

theorem failed_bind_terminates_program_witness:
  "sync_server_main no_error (iterative_Run (refusing_environment address_in_use)) = Terminated (System_Error address_in_use)"
  using failed_bind_terminates_program [OF refused_acceptor, of no_error] by (auto simp: doubleton_eq_iff)

theorem server_thread_ends_witness:
  "iterative_Run (refusing_environment address_in_use) = Some (Inl (System_Error address_in_use), [New_Acceptor]) \<and>
   server_end (refusing_environment address_in_use) (Inl (System_Error address_in_use)) [New_Acceptor]"
proof -
  have run: "iterative_Run (refusing_environment address_in_use) = Some (Inl (System_Error address_in_use), [New_Acceptor])"
    by (simp add: iterative_Run_def server_thread_def iterative_Acceptor_def sync_defs refused_acceptor)
  then have "Some (Inl (System_Error address_in_use), [New_Acceptor]) \<in>
      {iterative_Run (refusing_environment address_in_use), parallel_Run (refusing_environment address_in_use),
       ssl_run (refusing_environment address_in_use)}" by simp
  from server_thread_ends [OF this] run show ?thesis by simp
qed

end
