(* ===== verification/Socket_Loops.thy ===== *)
theory Socket_Loops
  imports Sync_Io
begin

section \<open>Reading and writing in parts\<close>

text \<open>
  The examples of chapter 2: the blocking loops of \<^verbatim>\<open>writingToTCPSockSync\<close> and \<^verbatim>\<open>readingFromTCPSockSync\<close> around
  \<^verbatim>\<open>write_some\<close> and \<^verbatim>\<open>read_some\<close>, and the shutdown pair \<^verbatim>\<open>sockShutdownClient\<close>, \<^verbatim>\<open>sockShutdownServer\<close>. The library
  promises that a successful \<^verbatim>\<open>write_some\<close> or \<^verbatim>\<open>read_some\<close> transfers at least one byte and at most
  what it was offered; the theorems have this as a hypothesis.
\<close>

subsection \<open>Blocking loops\<close>

text \<open>\<^verbatim>\<open>writeToSocket\<close>; the loop ends only by transferring everything or by an exception, so it is partial.\<close>

partial_function (option) write_loop ::
  "environment \<Rightarrow> bytes \<Rightarrow> size_t \<Rightarrow> sync_call list \<Rightarrow> ((fault + unit) \<times> sync_call list) option" where
  "write_loop env buf total_bytes_written cs =
     (if total_bytes_written \<noteq> word_of_nat (length buf)
      then (case call_throwing (Write_Part (drop (unat total_bytes_written) buf)) env cs of
              (Inl f, cs') \<Rightarrow> Some (Inl f, cs')
            | (Inr a, cs') \<Rightarrow> write_loop env buf (total_bytes_written + word_of_nat (ans_count a)) cs')
      else Some (Inr (), cs))"

definition sync_writeToSocket ::
  "environment \<Rightarrow> sync_call list \<Rightarrow> ((fault + unit) \<times> sync_call list) option" where
  "sync_writeToSocket env cs = write_loop env ''Hello'' 0 cs"

definition writeToSocketEnhanced :: "unit io" where
  "writeToSocketEnhanced = perform (Write_All ''Hello'')"

text \<open>\<^verbatim>\<open>readFromSocket\<close>; \<open>buf\<close> is the part of the array that has been filled.\<close>

partial_function (option) read_loop ::
  "environment \<Rightarrow> u8 \<Rightarrow> size_t \<Rightarrow> bytes \<Rightarrow> sync_call list \<Rightarrow> ((fault + string) \<times> sync_call list) option" where
  "read_loop env message_size total_bytes_read buf cs =
     (if total_bytes_read \<noteq> ucast message_size
      then (case call_throwing (Read_Part (unat (ucast message_size - total_bytes_read))) env cs of
              (Inl f, cs') \<Rightarrow> Some (Inl f, cs')
            | (Inr a, cs') \<Rightarrow>
                read_loop env message_size (total_bytes_read + word_of_nat (length (ans_data a))) (buf @ ans_data a) cs')
      else Some (Inr (take (unat total_bytes_read) buf), cs))"

definition sync_readFromSocket ::
  "environment \<Rightarrow> sync_call list \<Rightarrow> ((fault + string) \<times> sync_call list) option" where
  "sync_readFromSocket env cs = read_loop env 7 0 [] cs"

definition readFromSocketEnhanced :: "string io" where
  "readFromSocketEnhanced = io_bind (call_throwing (Read_Exactly 7)) (\<lambda>a. io_return (ans_data a))"

definition readFromSocketDelim :: "string io" where
  "readFromSocketDelim = io_bind (call_throwing (Read_Delim [LF]))
     (\<lambda>a. let (message, input_stream) = getline LF (open_istream (ans_data a)) [] in io_return message)"

text \<open>The bytes that the peer gets out of a list of partial writes.\<close>

fun accepted :: "environment \<Rightarrow> sync_call list \<Rightarrow> sync_call list \<Rightarrow> bytes" where
  "accepted env h [] = []"
| "accepted env h (c # cs) =
     (case c of
        Write_Part b \<Rightarrow> if failure_of env h c = None then take (ans_count (env h c)) b else []
      | _ \<Rightarrow> []) @ accepted env (h @ [c]) cs"

definition writes_progress :: "environment \<Rightarrow> bool" where
  "writes_progress env \<longleftrightarrow> (\<forall>h b. b \<noteq> [] \<longrightarrow> failure_of env h (Write_Part b) = None \<longrightarrow>
     1 \<le> ans_count (env h (Write_Part b)) \<and> ans_count (env h (Write_Part b)) \<le> length b)"

definition reads_progress :: "environment \<Rightarrow> bool" where
  "reads_progress env \<longleftrightarrow> (\<forall>h n. 0 < n \<longrightarrow> failure_of env h (Read_Part n) = None \<longrightarrow>
     1 \<le> length (ans_data (env h (Read_Part n))) \<and> length (ans_data (env h (Read_Part n))) \<le> n)"

text \<open>One round of the loop, and what the peer has got after it.\<close>

lemma write_loop_round:
  assumes "n < length buf" and "length buf < 2 ^ 64"
  shows "write_loop env buf (word_of_nat n) cs =
    (let c = Write_Part (drop n buf)
     in case failure_of env cs c of
          Some ec \<Rightarrow> Some (Inl (System_Error ec), cs @ [c])
        | None \<Rightarrow> write_loop env buf (word_of_nat (n + ans_count (env cs c))) (cs @ [c]))"
proof -
  have n: "unat (word_of_nat n :: size_t) = n" and len: "unat (word_of_nat (length buf) :: size_t) = length buf"
    using assms by (simp_all add: unat_size_of_nat)
  then have "word_of_nat n \<noteq> (word_of_nat (length buf) :: size_t)" using assms(1) by (metis less_irrefl)
  then show ?thesis
    by (subst write_loop.simps) (simp add: n call_throwing_def Let_def split: option.split)
qed

lemma write_loop_done: "write_loop env buf (word_of_nat (length buf)) cs = Some (Inr (), cs)"
  by (subst write_loop.simps) simp

lemma accepted_round:
  assumes "failure_of env cs (Write_Part (drop n buf)) = None"
    and "k = ans_count (env cs (Write_Part (drop n buf)))"
    and "case r of Inr u \<Rightarrow> accepted env (cs @ [Write_Part (drop n buf)]) new = drop (n + k) buf
      | Inl f \<Rightarrow> strict_prefix (accepted env (cs @ [Write_Part (drop n buf)]) new) (drop (n + k) buf)"
  shows "case r of Inr u \<Rightarrow> accepted env cs (Write_Part (drop n buf) # new) = drop n buf
    | Inl f \<Rightarrow> strict_prefix (accepted env cs (Write_Part (drop n buf) # new)) (drop n buf)"
proof -
  have split: "drop n buf = take k (drop n buf) @ drop (n + k) buf"
    by (metis append_take_drop_id drop_drop add.commute)
  have "accepted env cs (Write_Part (drop n buf) # new)
      = take k (drop n buf) @ accepted env (cs @ [Write_Part (drop n buf)]) new"
    using assms(1,2) by simp
  with assms(3) show ?thesis
    by (simp only:, subst split, subst (2) split) (auto split: sum.splits simp: strict_prefix_def)
qed

lemma write_loop_total:
  assumes "writes_progress env" and "length buf < 2 ^ 64"
  shows "n \<le> length buf \<Longrightarrow>
    \<exists>r new. write_loop env buf (word_of_nat n) cs = Some (r, cs @ new) \<and> length new \<le> length buf - n \<and>
      (case r of Inr u \<Rightarrow> accepted env cs new = drop n buf
       | Inl f \<Rightarrow> strict_prefix (accepted env cs new) (drop n buf))"
proof (induction "length buf - n" arbitrary: n cs rule: less_induct)
  case less
  show ?case
  proof (cases "n = length buf")
    case True
    then show ?thesis by (simp add: write_loop_done exI [of _ "[]"])
  next
    case False
    with less.prems have n: "n < length buf" by simp
    note round = write_loop_round [OF n assms(2), of env cs, unfolded Let_def]
    let ?c = "Write_Part (drop n buf)"
    show ?thesis
    proof (cases "failure_of env cs ?c")
      case (Some ec)
      with n round show ?thesis
        by (intro exI [of _ "Inl (System_Error ec)"] exI [of _ "[?c]"]) (simp add: strict_prefix_def)
    next
      case None
      let ?k = "ans_count (env cs ?c)"
      from n have "drop n buf \<noteq> []" by simp
      with None assms(1) have k: "1 \<le> ?k" "?k \<le> length (drop n buf)" unfolding writes_progress_def by blast+
      then have "length buf - (n + ?k) < length buf - n" "n + ?k \<le> length buf" by simp_all
      from less.hyps [OF this, of "cs @ [?c]"] obtain r new where
        run: "write_loop env buf (word_of_nat (n + ?k)) (cs @ [?c]) = Some (r, (cs @ [?c]) @ new)"
          "length new \<le> length buf - (n + ?k)"
        and post: "case r of Inr u \<Rightarrow> accepted env (cs @ [?c]) new = drop (n + ?k) buf
          | Inl f \<Rightarrow> strict_prefix (accepted env (cs @ [?c]) new) (drop (n + ?k) buf)" by blast
      from run k round None accepted_round [OF None refl post] show ?thesis
        by (intro exI [of _ r] exI [of _ "?c # new"]) simp
    qed
  qed
qed

text \<open>C31: With a library that makes progress, the blocking write loop returns after at most five calls: either the peer
  has been given exactly the five bytes of the message in order, or a call failed, its error is thrown and the peer
  has got a proper prefix.\<close>

theorem write_loop_delivers:
  assumes "writes_progress env"
  shows "\<exists>r new. sync_writeToSocket env cs = Some (r, cs @ new) \<and> length new \<le> 5 \<and>
    (case r of Inr u \<Rightarrow> accepted env cs new = ''Hello''
     | Inl f \<Rightarrow> strict_prefix (accepted env cs new) ''Hello'')"
proof -
  obtain r new where "write_loop env ''Hello'' 0 cs = Some (r, cs @ new)" "length new \<le> 5"
    and "case r of Inr u \<Rightarrow> accepted env cs new = drop 0 ''Hello''
      | Inl f \<Rightarrow> strict_prefix (accepted env cs new) (drop 0 ''Hello'')"
    using write_loop_total [OF assms, of "''Hello''" 0 cs] by auto
  then show ?thesis
    by (intro exI [of _ r] exI [of _ new]) (cases r; simp add: sync_writeToSocket_def)
qed

text \<open>The bytes a list of partial reads delivers.\<close>

fun delivered :: "environment \<Rightarrow> sync_call list \<Rightarrow> sync_call list \<Rightarrow> bytes" where
  "delivered env h [] = []"
| "delivered env h (c # cs) =
     (case c of
        Read_Part n \<Rightarrow> if failure_of env h c = None then ans_data (env h c) else []
      | _ \<Rightarrow> []) @ delivered env (h @ [c]) cs"

lemma read_loop_done:
  assumes "length buf = unat sz"
  shows "read_loop env sz (ucast sz) buf cs = Some (Inr buf, cs)"
proof -
  have "unat sz < 256" using unsigned_less [of sz, where ?'a = nat] by simp
  then have "unat (ucast sz :: size_t) = unat sz" by (simp add: unsigned_ucast_eq take_bit_nat_eq_self)
  with assms show ?thesis by (subst read_loop.simps) simp
qed

lemma read_loop_round:
  assumes "n < unat sz"
  shows "read_loop env sz (word_of_nat n) buf cs =
    (let c = Read_Part (unat sz - n)
     in case failure_of env cs c of
          Some ec \<Rightarrow> Some (Inl (System_Error ec), cs @ [c])
        | None \<Rightarrow> read_loop env sz (word_of_nat (n + length (ans_data (env cs c)))) (buf @ ans_data (env cs c)) (cs @ [c]))"
proof -
  have "unat sz < 256" using unsigned_less [of sz, where ?'a = nat] by simp
  then have n: "unat (word_of_nat n :: size_t) = n" and sz: "unat (ucast sz :: size_t) = unat sz"
    using assms by (simp_all add: unat_size_of_nat unsigned_ucast_eq take_bit_nat_eq_self)
  then have ne: "word_of_nat n \<noteq> (ucast sz :: size_t)" using assms by (metis less_irrefl)
  have "unat (ucast sz - word_of_nat n :: size_t) = unat sz - n"
    using assms n sz by (simp add: unat_sub word_le_nat_alt)
  with ne show ?thesis
    by (subst read_loop.simps) (simp add: call_throwing_def Let_def split: option.split)
qed

lemma read_loop_total:
  assumes "reads_progress env"
  shows "n \<le> unat sz \<Longrightarrow> length buf = n \<Longrightarrow>
    \<exists>r new. read_loop env sz (word_of_nat n) buf cs = Some (r, cs @ new) \<and> length new \<le> unat sz - n \<and>
      (case r of Inr message \<Rightarrow> message = buf @ delivered env cs new \<and> length message = unat sz
       | Inl f \<Rightarrow> True)"
proof (induction "unat sz - n" arbitrary: n buf cs rule: less_induct)
  case less
  show ?case
  proof (cases "n = unat sz")
    case True
    with less.prems read_loop_done [of buf sz env cs] show ?thesis
      by (intro exI [of _ "Inr buf"] exI [of _ "[]"]) simp
  next
    case False
    with less.prems have n: "n < unat sz" by simp
    note round = read_loop_round [OF n, of env buf cs, unfolded Let_def]
    let ?c = "Read_Part (unat sz - n)"
    show ?thesis
    proof (cases "failure_of env cs ?c")
      case (Some ec)
      with n round show ?thesis
        by (intro exI [of _ "Inl (System_Error ec)"] exI [of _ "[?c]"]) simp
    next
      case None
      let ?d = "ans_data (env cs ?c)"
      from n have "0 < unat sz - n" by simp
      with None assms have d: "1 \<le> length ?d" "length ?d \<le> unat sz - n" unfolding reads_progress_def by blast+
      then have "unat sz - (n + length ?d) < unat sz - n" "n + length ?d \<le> unat sz"
        "length (buf @ ?d) = n + length ?d" using n less.prems by simp_all
      from less.hyps [OF this, of "cs @ [?c]"] obtain r new where
        run: "read_loop env sz (word_of_nat (n + length ?d)) (buf @ ?d) (cs @ [?c]) = Some (r, (cs @ [?c]) @ new)"
          "length new \<le> unat sz - (n + length ?d)"
        and post: "case r of Inr message \<Rightarrow> message = (buf @ ?d) @ delivered env (cs @ [?c]) new \<and>
            length message = unat sz | Inl f \<Rightarrow> True" by blast
      from run d round post None show ?thesis
        by (intro exI [of _ r] exI [of _ "?c # new"]) (auto split: sum.splits)
    qed
  qed
qed

text \<open>With a library that makes progress, the blocking read loop returns after at most seven calls, with an exception or
  with exactly the first seven bytes the peer has sent.\<close>

theorem read_loop_collects:
  assumes "reads_progress env"
  shows "\<exists>r new. sync_readFromSocket env cs = Some (r, cs @ new) \<and> length new \<le> 7 \<and>
    (case r of Inr message \<Rightarrow> message = delivered env cs new \<and> length message = 7 | Inl f \<Rightarrow> True)"
proof -
  obtain r new where "read_loop env 7 0 [] cs = Some (r, cs @ new)" "length new \<le> 7"
    and "case r of Inr message \<Rightarrow> message = [] @ delivered env cs new \<and> length message = unat (7 :: u8) | Inl f \<Rightarrow> True"
    using read_loop_total [OF assms, of 0 7 "[]" cs] by auto
  then show ?thesis
    by (intro exI [of _ r] exI [of _ new]) (cases r; simp add: sync_readFromSocket_def)
qed

text \<open>
  The \<^verbatim>\<open>main\<close> functions of the two blocking examples: connect, run the loop, return the value of the error that
  is thrown; the message that was read is dropped.
\<close>

definition loop_main ::
  "(environment \<Rightarrow> sync_call list \<Rightarrow> ((fault + 'a) \<times> sync_call list) option) \<Rightarrow> environment \<Rightarrow>
   ((fault + int) \<times> sync_call list) option" where
  "loop_main body env =
     (case run_calls [Parse_Address ''127.0.0.1'', Open_Socket, Connect_Call ''127.0.0.1'' 3333] env [] of
        (Some ec, h) \<Rightarrow> Some (Inr (ec_value ec), h @ [Print_Error ec])
      | (None, h) \<Rightarrow>
          (case body env h of
             None \<Rightarrow> None
           | Some (Inr x, h') \<Rightarrow> Some (Inr 0, h')
           | Some (Inl (System_Error ec), h') \<Rightarrow> Some (Inr (ec_value ec), h' @ [Print_Error ec])
           | Some (Inl f, h') \<Rightarrow> Some (Inl f, h')))"

definition sync_write_main :: "environment \<Rightarrow> ((fault + int) \<times> sync_call list) option" where
  "sync_write_main env = loop_main sync_writeToSocket env"

definition sync_read_main :: "environment \<Rightarrow> ((fault + int) \<times> sync_call list) option" where
  "sync_read_main env = loop_main sync_readFromSocket env"

lemma loop_main_returns:
  assumes "\<And>h. body env h \<noteq> None"
  shows "loop_main body env \<noteq> None"
proof -
  obtain r h where run: "run_calls [Parse_Address ''127.0.0.1'', Open_Socket, Connect_Call ''127.0.0.1'' 3333] env []
      = (r, h)" by (metis prod.exhaust)
  obtain x h' where "body env h = Some (x, h')" using assms [of h] by auto
  then show ?thesis
    unfolding loop_main_def run by (simp split: option.split sum.split fault.split)
qed

lemma blocking_mains_return:
  "writes_progress env \<Longrightarrow> sync_write_main env \<noteq> None" "reads_progress env \<Longrightarrow> sync_read_main env \<noteq> None"
proof -
  assume "writes_progress env"
  from write_loop_total [OF this, of "''Hello''" 0] have "sync_writeToSocket env h \<noteq> None" for h
    by (auto simp: sync_writeToSocket_def dest: meta_spec [of _ h])
  then show "sync_write_main env \<noteq> None" unfolding sync_write_main_def by (rule loop_main_returns)
next
  assume "reads_progress env"
  from read_loop_total [OF this, of 0 7 "[]"] have "sync_readFromSocket env h \<noteq> None" for h
    by (auto simp: sync_readFromSocket_def dest: meta_spec [of _ h])
  then show "sync_read_main env \<noteq> None" unfolding sync_read_main_def by (rule loop_main_returns)
qed

subsection \<open>Witnesses for the blocking loops\<close>

text \<open>A socket that takes at most two bytes at a time, and one that delivers at most three.\<close>

definition slow_socket :: environment where
  "slow_socket h c =
     \<lparr>ans_ec = no_error, ans_data = (case c of Read_Part n \<Rightarrow> replicate (min 3 n) CHR ''x'' | _ \<Rightarrow> []),
      ans_count = (case c of Write_Part b \<Rightarrow> min 2 (length b) | _ \<Rightarrow> 0), ans_flag = False\<rparr>"

lemma slow_socket_progress: "writes_progress slow_socket" "reads_progress slow_socket"
  by (auto simp: writes_progress_def reads_progress_def slow_socket_def Suc_le_eq)

theorem write_loop_delivers_witness:
  "\<exists>r new. sync_writeToSocket slow_socket [] = Some (r, [] @ new) \<and> length new \<le> 5 \<and>
    (case r of Inr u \<Rightarrow> accepted slow_socket [] new = ''Hello''
     | Inl f \<Rightarrow> strict_prefix (accepted slow_socket [] new) ''Hello'')"
  by (rule write_loop_delivers [OF slow_socket_progress(1)])

theorem read_loop_collects_witness:
  "\<exists>r new. sync_readFromSocket slow_socket [] = Some (r, [] @ new) \<and> length new \<le> 7 \<and>
    (case r of Inr message \<Rightarrow> message = delivered slow_socket [] new \<and> length message = 7 | Inl f \<Rightarrow> True)"
  by (rule read_loop_collects [OF slow_socket_progress(2)])

subsection \<open>Shutting down one direction\<close>

text \<open>\<^verbatim>\<open>communicate\<close> and \<^verbatim>\<open>processRequest\<close>: the end of a message is the end of the peer's stream.\<close>

definition shutdown_request :: bytes where
  "shutdown_request = [CHR 0x48, CHR 0x65, CHR 0x00, CHR 0x6c, CHR 0x6c, CHR 0x6f]"

definition shutdown_response :: bytes where
  "shutdown_response = [CHR 0x48, CHR 0x69, CHR 0x21]"

definition communicate :: "unit io" where
  "communicate =
     io_then (perform (Write_All shutdown_request))
    (io_then (perform (Shutdown_Call shutdown_send))
    (io_bind (call Read_To_End) (\<lambda>a.
       if ans_ec a = asio_eof then io_return () else io_throw (System_Error (ans_ec a)))))"

definition processRequest :: "unit io" where
  "processRequest =
     io_bind (call Read_To_End) (\<lambda>a.
       if ans_ec a \<noteq> asio_eof then io_throw (System_Error (ans_ec a))
       else io_then (perform (Write_All shutdown_response)) (perform (Shutdown_Call shutdown_send)))"

definition shutdown_client_main :: "int io" where
  "shutdown_client_main = main_returning_code
     (io_then (perform (Parse_Address ''127.0.0.1''))
     (io_then (perform Open_Socket) (io_then (perform (Connect_Call ''127.0.0.1'' 3333)) communicate)))"

definition shutdown_server_main :: "int io" where
  "shutdown_server_main = main_returning_code
     (io_then (perform New_Acceptor) (io_then (perform Accept_Call) processRequest))"

text \<open>
  The client half-closes before it reads and accepts only a response that ends with the end of the stream; the
  server answers only a request whose end it has seen.
\<close>

lemma communicate_outcome:
  "fst (communicate env h) = Inr () \<longleftrightarrow>
     run_calls [Write_All shutdown_request, Shutdown_Call shutdown_send] env h
       = (None, h @ [Write_All shutdown_request, Shutdown_Call shutdown_send]) \<and>
     ans_ec (env (h @ [Write_All shutdown_request, Shutdown_Call shutdown_send]) Read_To_End) = asio_eof"
  by (auto simp: communicate_def io_then_def io_bind_def io_return_def io_throw_def split: option.splits)

lemma processRequest_outcome:
  "processRequest env h = (Inr (), h') \<Longrightarrow>
   ans_ec (env h Read_To_End) = asio_eof \<and> h' = h @ [Read_To_End, Write_All shutdown_response, Shutdown_Call shutdown_send]"
  by (auto simp: processRequest_def io_then_def io_bind_def io_throw_def split: if_splits option.splits)

end
