(* ===== verification/Socket_Async.thy ===== *)
theory Socket_Async
  imports Socket_Loops Async_Chain
begin

section \<open>Reading and writing in parts, asynchronously\<close>

text \<open>
  The asynchronous examples of chapter 2: the chains of \<^verbatim>\<open>writingToTCPSockAsync\<close> and \<^verbatim>\<open>readingFromTCPSockAsync\<close>, their
  \<^verbatim>\<open>Enhanced\<close> variants with one partial operation, \<^verbatim>\<open>cancellingAsyncOperations\<close>, and the \<^verbatim>\<open>main\<close> functions of all
  five. A session lives as long as the \<^verbatim>\<open>shared_ptr\<close> that the callback carries: a callback that starts nothing
  ends it (\<open>Delete_This\<close>).
\<close>

subsection \<open>Chains of partial operations\<close>

datatype part_handler = On_Part

type_synonym part_action = "(part_handler, unit) action"

record write_session =
  ws_buf :: string
  ws_total_bytes_written :: size_t

record part_result =
  pt_ec :: error_code
  pt_count :: nat
  pt_data :: bytes

text \<open>\<^verbatim>\<open>callback\<close>: when it starts nothing, the last reference to the session is gone with its return.\<close>

definition write_callback :: "part_handler \<Rightarrow> part_result \<Rightarrow> write_session \<Rightarrow> write_session \<times> part_action list" where
  "write_callback k r s =
     (if is_error (pt_ec r) then (s, [Log (pt_ec r), Delete_This])
      else let s1 = s\<lparr>ws_total_bytes_written := ws_total_bytes_written s + word_of_nat (pt_count r)\<rparr>
           in if ws_total_bytes_written s1 = word_of_nat (length (ws_buf s1)) then (s1, [Delete_This])
              else (s1, [Start On_Part (Async_Write_Some (drop (unat (ws_total_bytes_written s1)) (ws_buf s1)))]))"

definition async_writeToSocket :: "write_session \<times> part_action list" where
  "async_writeToSocket =
     (let s = \<lparr>ws_buf = ''Hello'', ws_total_bytes_written = 0\<rparr> in (s, [Start On_Part (Async_Write_Some (ws_buf s))]))"

text \<open>The reader: the allocated array (\<open>None\<close>: never written), and \<open>rs_read_at\<close>, the offset in it that the last
  \<^verbatim>\<open>async_read_some\<close> was given, where the library puts the bytes before it calls back.\<close>

record read_session =
  rs_buf :: "char option list"
  rs_total_bytes_read :: size_t
  rs_buf_size :: u32
  rs_read_at :: nat

definition write_at :: "nat \<Rightarrow> bytes \<Rightarrow> char option list \<Rightarrow> char option list" where
  "write_at offset d buf = take offset buf @ map Some d @ drop (offset + length d) buf"

definition read_callback :: "part_handler \<Rightarrow> part_result \<Rightarrow> read_session \<Rightarrow> read_session \<times> part_action list" where
  "read_callback k r s =
     (if is_error (pt_ec r) then (s, [Log (pt_ec r), Delete_This])
      else let s1 = s\<lparr>rs_buf := write_at (rs_read_at s) (pt_data r) (rs_buf s),
                      rs_total_bytes_read := rs_total_bytes_read s + word_of_nat (length (pt_data r))\<rparr>
           in if rs_total_bytes_read s1 = ucast (rs_buf_size s1) then (s1, [Delete_This])
              else (s1\<lparr>rs_read_at := unat (rs_total_bytes_read s1)\<rparr>,
                    [Start On_Part (Async_Read_Some (unat (ucast (rs_buf_size s1) - rs_total_bytes_read s1)))]))"

definition async_readFromSocket :: "read_session \<times> part_action list" where
  "async_readFromSocket =
     (let s = \<lparr>rs_buf = replicate 7 None, rs_total_bytes_read = 0, rs_buf_size = 7, rs_read_at = 0\<rparr>
      in (s, [Start On_Part (Async_Read_Some (unat (rs_buf_size s)))]))"

text \<open>
  The \<^verbatim>\<open>Enhanced\<close> examples start one \<^verbatim>\<open>async_write_some\<close> or \<^verbatim>\<open>async_read_some\<close>; their callback starts nothing and does
  not look at the number of bytes. What is read goes to the front of the buffer.
\<close>

record enhanced_write_session =
  ew_buf :: string

record enhanced_read_session =
  er_buf :: "char option list"
  er_buf_size :: u32

definition enhanced_callback :: "error_code \<Rightarrow> part_action list" where
  "enhanced_callback ec = (if is_error ec then [Log ec, Delete_This] else [Delete_This])"

definition enhanced_write_callback ::
  "part_handler \<Rightarrow> part_result \<Rightarrow> enhanced_write_session \<Rightarrow> enhanced_write_session \<times> part_action list" where
  "enhanced_write_callback k r s = (s, enhanced_callback (pt_ec r))"

definition enhanced_read_callback ::
  "part_handler \<Rightarrow> part_result \<Rightarrow> enhanced_read_session \<Rightarrow> enhanced_read_session \<times> part_action list" where
  "enhanced_read_callback k r s = (s\<lparr>er_buf := write_at 0 (pt_data r) (er_buf s)\<rparr>, enhanced_callback (pt_ec r))"

definition enhanced_writeToSocket :: "enhanced_write_session \<times> part_action list" where
  "enhanced_writeToSocket =
     (let s = \<lparr>ew_buf = ''Hello''\<rparr> in (s, [Start On_Part (Async_Write_Some (ew_buf s))]))"

definition enhanced_readFromSocket :: "enhanced_read_session \<times> part_action list" where
  "enhanced_readFromSocket =
     (let s = \<lparr>er_buf = replicate 7 None, er_buf_size = 7\<rparr> in (s, [Start On_Part (Async_Read_Some (unat (er_buf_size s)))]))"

interpretation writing: async_chain write_callback no_external
  by unfold_locales (simp_all add: write_callback_def next_or_end_def Let_def)

interpretation reading: async_chain read_callback no_external
  by unfold_locales (simp_all add: read_callback_def next_or_end_def Let_def)

lemma enhanced_callback_shape [simp]: "next_or_end (enhanced_callback ec)" "conts (enhanced_callback ec) = []"
  by (simp_all add: enhanced_callback_def next_or_end_def)

interpretation enhanced_writing: ranked_chain enhanced_write_callback no_external "\<lambda>k. 0" 1
  by unfold_locales (simp_all add: enhanced_write_callback_def)

interpretation enhanced_reading: ranked_chain enhanced_read_callback no_external "\<lambda>k. 0" 1
  by unfold_locales (simp_all add: enhanced_read_callback_def)

definition part_ok :: "nat \<Rightarrow> part_result" where
  "part_ok n = \<lparr>pt_ec = no_error, pt_count = n, pt_data = []\<rparr>"

lemma part_ok_sel [simp]: "pt_ec (part_ok n) = no_error" "pt_count (part_ok n) = n"
  by (simp_all add: part_ok_def)

definition write_run ::
  "(part_result, unit) event list \<Rightarrow> (part_handler, write_session, unit) chain_state" where
  "write_run evs = chain_run write_callback no_external evs (chain_begin async_writeToSocket)"

text \<open>The writes that a session goes on with, \<open>k\<close> bytes having been written, one per completion.\<close>

fun part_writes :: "string \<Rightarrow> nat \<Rightarrow> nat list \<Rightarrow> part_action list" where
  "part_writes buf k [] = []"
| "part_writes buf k (n # ns) =
     (if k + n = length buf then [Delete_This]
      else Start On_Part (Async_Write_Some (drop (k + n) buf)) # part_writes buf (k + n) ns)"

lemma write_session_run:
  assumes "k + sum_list ns = length buf" and "length buf < 2 ^ 64" and "ns \<noteq> []" and "list_all (\<lambda>n. 1 \<le> n) ns"
  shows "\<exists>s. chain_run write_callback no_external (map (\<lambda>n. Completes 0 (part_ok n)) ns)
      ([On_Part], \<lparr>ws_buf = buf, ws_total_bytes_written = word_of_nat k\<rparr>, tr) = ([], s, tr @ part_writes buf k ns)"
  using assms
proof (induction ns arbitrary: k tr)
  case (Cons n ns)
  have unat: "unat (word_of_nat k + word_of_nat n :: size_t) = k + n"
    using unat_size_of_nat [of "k + n"] Cons.prems(1,2) by simp
  have len: "unat (word_of_nat (length buf) :: size_t) = length buf" using Cons.prems(2) by (rule unat_size_of_nat)
  show ?case
  proof (cases "ns = []")
    case True
    with Cons.prems(1) have "k + n = length buf" by simp
    with True show ?thesis
      by (auto simp: chain_step_def write_callback_def Let_def simp flip: of_nat_add)
  next
    case False
    with Cons.prems(4) have "1 \<le> sum_list ns" by (cases ns) auto
    moreover have "k + n + sum_list ns = length buf" using Cons.prems(1) by simp
    ultimately have ne: "k + n \<noteq> length buf" by linarith
    then have "(word_of_nat k + word_of_nat n :: size_t) \<noteq> word_of_nat (length buf)" using unat len by metis
    then have step: "chain_step write_callback no_external (Completes 0 (part_ok n))
        ([On_Part], \<lparr>ws_buf = buf, ws_total_bytes_written = word_of_nat k\<rparr>, tr)
        = ([On_Part], \<lparr>ws_buf = buf, ws_total_bytes_written = word_of_nat (k + n)\<rparr>,
           tr @ [Start On_Part (Async_Write_Some (drop (k + n) buf))])"
      using unat by (simp add: chain_step_def write_callback_def Let_def)
    from Cons.IH [of "k + n" "tr @ [Start On_Part (Async_Write_Some (drop (k + n) buf))]"] Cons.prems False ne
    show ?thesis by (simp add: step)
  qed
qed simp

text \<open>The asynchronous write example keeps writing the unsent rest, however the five bytes are split over its completions,
  and ends its session exactly when all of them have been written.\<close>

theorem async_write_delivers:
  assumes "sum_list ns = 5" and "list_all (\<lambda>n. 1 \<le> n) ns"
  shows "\<exists>s. write_run (map (\<lambda>n. Completes 0 (part_ok n)) ns)
    = ([], s, Start On_Part (Async_Write_Some ''Hello'') # part_writes ''Hello'' 0 ns)"
proof -
  from assms(1) have "ns \<noteq> []" by auto
  with write_session_run [of 0 ns "''Hello''" "[Start On_Part (Async_Write_Some ''Hello'')]"] assms show ?thesis
    by (simp add: write_run_def async_writeToSocket_def chain_begin_def Let_def)
qed

theorem async_write_delivers_witness:
  "\<exists>s. write_run [Completes 0 (part_ok 2), Completes 0 (part_ok 3)]
    = ([], s, [Start On_Part (Async_Write_Some ''Hello''), Start On_Part (Async_Write_Some ''llo''), Delete_This])"
  using async_write_delivers [of "[2, 3]"] by simp

text \<open>The \<^verbatim>\<open>Enhanced\<close> variants end after the first completion, also when only a part has been transferred.\<close>

lemma enhanced_write_stops:
  "chain_run enhanced_write_callback no_external [Completes 0 (part_ok n)] (chain_begin enhanced_writeToSocket)
     = ([], \<lparr>ew_buf = ''Hello''\<rparr>, [Start On_Part (Async_Write_Some ''Hello''), Delete_This])"
  by (simp add: chain_step_def enhanced_write_callback_def enhanced_callback_def enhanced_writeToSocket_def
      chain_begin_def Let_def)

subsection \<open>The asynchronous reader and the blocking reader\<close>

text \<open>
  A peer that sends the chunks \<open>ds\<close>, one per call of \<^verbatim>\<open>read_some\<close>: as the answers to a blocking program that makes no
  other call, and as the completions of an asynchronous one.
\<close>

definition chunk_socket :: "bytes list \<Rightarrow> environment" where
  "chunk_socket ds h c = \<lparr>ans_ec = no_error, ans_data = ds ! length h, ans_count = 0, ans_flag = False\<rparr>"

definition part_data :: "bytes \<Rightarrow> part_result" where
  "part_data d = \<lparr>pt_ec = no_error, pt_count = length d, pt_data = d\<rparr>"

lemma part_data_sel [simp]: "pt_ec (part_data d) = no_error" "pt_data (part_data d) = d"
  by (simp_all add: part_data_def)

text \<open>How much room each read offers when \<open>left\<close> bytes are missing.\<close>

fun read_sizes :: "nat \<Rightarrow> bytes list \<Rightarrow> nat list" where
  "read_sizes left [] = []"
| "read_sizes left (d # ds) = left # read_sizes (left - length d) ds"

definition non_empty :: "bytes list \<Rightarrow> bool" where
  "non_empty ds \<longleftrightarrow> list_all (\<lambda>d. d \<noteq> []) ds"

lemma non_empty_pos: "non_empty ds \<Longrightarrow> ds \<noteq> [] \<Longrightarrow> 1 \<le> length (concat ds)"
  by (cases ds) (auto simp: non_empty_def Suc_le_eq)

lemma size_left: "m \<le> 7 \<Longrightarrow> unat (7 - word_of_nat m :: size_t) = 7 - m"
  using unat_size_of_nat [of m] by (simp add: unat_sub word_le_nat_alt)

lemma size_is_seven: "m \<le> 7 \<Longrightarrow> word_of_nat m = (7 :: size_t) \<longleftrightarrow> m = 7"
  using unat_size_of_nat [of m] by (auto dest: arg_cong [of _ _ unat])

lemma read_loop_chunks:
  assumes "non_empty ds" and "length buf + length (concat ds) = 7" and "length cs = length pre"
  shows "read_loop (chunk_socket (pre @ ds)) 7 (word_of_nat (length buf)) buf cs
    = Some (Inr (buf @ concat ds), cs @ map Read_Part (read_sizes (7 - length buf) ds))"
  using assms
proof (induction ds arbitrary: buf cs pre)
  case Nil
  then show ?case by (subst read_loop.simps) (simp add: size_is_seven)
next
  case (Cons d ds)
  from Cons.prems(1) have d: "1 \<le> length d" by (cases d) (simp_all add: non_empty_def)
  have ne: "word_of_nat (length buf) \<noteq> (7 :: size_t)" using size_is_seven [of "length buf"] Cons.prems(2) d by simp
  have left: "unat (7 - word_of_nat (length buf) :: size_t) = 7 - length buf"
    using size_left Cons.prems(2) by simp
  let ?c = "Read_Part (7 - length buf)"
  have "read_loop (chunk_socket (pre @ d # ds)) 7 (word_of_nat (length buf)) buf cs
      = read_loop (chunk_socket ((pre @ [d]) @ ds)) 7 (word_of_nat (length (buf @ d))) (buf @ d) (cs @ [?c])"
    using ne left Cons.prems(3)
    by (subst read_loop.simps) (simp add: call_throwing_def failure_of_def chunk_socket_def nth_append)
  also have "\<dots> = Some (Inr ((buf @ d) @ concat ds), (cs @ [?c]) @ map Read_Part (read_sizes (7 - length (buf @ d)) ds))"
    by (rule Cons.IH) (use Cons.prems in \<open>simp_all add: non_empty_def\<close>)
  finally show ?case using Cons.prems(2) by (simp add: diff_diff_left)
qed

text \<open>The session that has read \<open>buf\<close>.\<close>

definition has_read :: "bytes \<Rightarrow> nat \<Rightarrow> read_session" where
  "has_read buf offset = \<lparr>rs_buf = map Some buf @ replicate (7 - length buf) None, rs_total_bytes_read = word_of_nat (length buf),
     rs_buf_size = 7, rs_read_at = offset\<rparr>"

lemma write_at_end:
  "length buf + length d \<le> 7 \<Longrightarrow> write_at (length buf) d (map Some buf @ replicate (7 - length buf) None)
     = map Some (buf @ d) @ replicate (7 - length (buf @ d)) None"
  by (simp add: write_at_def)

lemma read_session_run:
  assumes "non_empty (d # ds)" and "length buf + length (concat (d # ds)) = 7"
  shows "\<exists>offset. chain_run read_callback no_external (map (\<lambda>d. Completes 0 (part_data d)) (d # ds))
      ([On_Part], has_read buf (length buf), tr)
    = ([], has_read (buf @ concat (d # ds)) offset,
       tr @ map (\<lambda>n. Start On_Part (Async_Read_Some n)) (tl (read_sizes (7 - length buf) (d # ds))) @ [Delete_This])"
  using assms
proof (induction ds arbitrary: d buf tr)
  case Nil
  then have "word_of_nat (length buf + length d) = (7 :: size_t)" by (subst size_is_seven) simp_all
  moreover from Nil have "length buf + length d \<le> 7" by simp
  ultimately show ?case using write_at_end [of buf d]
    by (simp add: chain_step_def read_callback_def has_read_def Let_def)
next
  case (Cons e ds)
  from Cons.prems(1) have e: "1 \<le> length e" by (cases e) (simp_all add: non_empty_def)
  have short: "length buf + length d \<le> 7" using Cons.prems(2) by simp
  have ne: "word_of_nat (length buf + length d) \<noteq> (7 :: size_t)"
    using Cons.prems(2) e by (subst size_is_seven) simp_all
  let ?n = "7 - (length buf + length d)"
  have "unat (7 - (word_of_nat (length buf) + word_of_nat (length d)) :: size_t) = ?n"
    using size_left [of "length buf + length d"] Cons.prems(2) by simp
  moreover have "unat (word_of_nat (length buf + length d) :: size_t) = length buf + length d"
    using short by (intro unat_size_of_nat) simp
  ultimately have step: "chain_step read_callback no_external (Completes 0 (part_data d)) ([On_Part], has_read buf (length buf), tr)
    = ([On_Part], has_read (buf @ d) (length (buf @ d)), tr @ [Start On_Part (Async_Read_Some ?n)])"
    using ne write_at_end [OF short] by (simp add: chain_step_def read_callback_def has_read_def Let_def)
  from Cons.IH [of e "buf @ d" "tr @ [Start On_Part (Async_Read_Some ?n)]"] Cons.prems show ?case
    by (simp add: step non_empty_def diff_diff_left)
qed

text \<open>C30: The asynchronous reader and the blocking reader are equivalent: however a peer cuts seven bytes into non-empty chunks,
  both offer the library the same sequence of buffer sizes, both stop after the last chunk, the blocking one returns
  the seven bytes and the array of the asynchronous one holds the same bytes at the same places.\<close>

theorem async_reader_equals_blocking_reader:
  assumes "non_empty ds" and "length (concat ds) = 7"
  shows "\<exists>sizes s. sync_readFromSocket (chunk_socket ds) [] = Some (Inr (concat ds), map Read_Part sizes) \<and>
    chain_run read_callback no_external (map (\<lambda>d. Completes 0 (part_data d)) ds) (chain_begin async_readFromSocket)
      = ([], s, map (\<lambda>n. Start On_Part (Async_Read_Some n)) sizes @ [Delete_This]) \<and>
    rs_buf s = map Some (concat ds)"
proof -
  from assms(2) obtain d ds' where ds: "ds = d # ds'" by (cases ds) auto
  have "sync_readFromSocket (chunk_socket ds) [] = Some (Inr (concat ds), map Read_Part (read_sizes 7 ds))"
    using read_loop_chunks [of ds "[]" "[]" "[]"] assms by (simp add: sync_readFromSocket_def)
  moreover have "chain_begin async_readFromSocket = ([On_Part], has_read [] (length ([] :: bytes)), [Start On_Part (Async_Read_Some 7)])"
    by (simp add: async_readFromSocket_def chain_begin_def has_read_def Let_def)
  moreover obtain offset where "chain_run read_callback no_external (map (\<lambda>d. Completes 0 (part_data d)) ds)
      ([On_Part], has_read [] (length ([] :: bytes)), [Start On_Part (Async_Read_Some 7)])
    = ([], has_read (concat ds) offset, map (\<lambda>n. Start On_Part (Async_Read_Some n)) (read_sizes 7 ds) @ [Delete_This])"
    using read_session_run [of d ds' "[]" "[Start On_Part (Async_Read_Some 7)]"] assms by (auto simp: ds)
  moreover have "rs_buf (has_read (concat ds) offset) = map Some (concat ds)" using assms(2) by (simp add: has_read_def)
  ultimately show ?thesis by metis
qed

theorem async_reader_equals_blocking_reader_witness:
  "\<exists>sizes s. sync_readFromSocket (chunk_socket [''Hel'', ''lo w'']) [] = Some (Inr ''Hello w'', map Read_Part sizes) \<and>
    chain_run read_callback no_external [Completes 0 (part_data ''Hel''), Completes 0 (part_data ''lo w'')]
      (chain_begin async_readFromSocket)
      = ([], s, map (\<lambda>n. Start On_Part (Async_Read_Some n)) sizes @ [Delete_This]) \<and> rs_buf s = map Some ''Hello w''"
  using async_reader_equals_blocking_reader [of "[''Hel'', ''lo w'']"] by (simp add: non_empty_def)

subsection \<open>The main functions\<close>

text \<open>
  What becomes of a program: it exits with a code, it is terminated because an exception is not caught, or it still
  waits, in \<^verbatim>\<open>run\<close> or in \<^verbatim>\<open>join\<close>.
\<close>

datatype main_state = Has_Exited int | Has_Terminated fault | Still_Waits

text \<open>
  The four mains are the same: parse the address, open, connect, start the first operation, \<^verbatim>\<open>run\<close>. The environment answers the
  blocking calls, the events are the completions that happen while \<^verbatim>\<open>run\<close> has not returned.
\<close>

definition async_part_main ::
  "'s \<times> part_action list \<Rightarrow> (part_handler \<Rightarrow> part_result \<Rightarrow> 's \<Rightarrow> 's \<times> part_action list) \<Rightarrow>
   environment \<Rightarrow> (part_result, unit) event list \<Rightarrow> main_state \<times> sync_call list \<times> part_action list" where
  "async_part_main start callback env evs =
     (case run_calls [Parse_Address ''127.0.0.1'', Open_Socket, Connect_Call ''127.0.0.1'' 3333] env [] of
        (Some ec, h) \<Rightarrow> (Has_Exited (ec_value ec), h @ [Print_Error ec], [])
      | (None, h) \<Rightarrow>
          (case chain_run callback no_external evs (chain_begin start) of
             (p, s, tr) \<Rightarrow> (if p = [] then Has_Exited 0 else Still_Waits, h, tr)))"

definition async_write_main ::
  "environment \<Rightarrow> (part_result, unit) event list \<Rightarrow> main_state \<times> sync_call list \<times> part_action list" where
  "async_write_main = async_part_main async_writeToSocket write_callback"

definition async_read_main ::
  "environment \<Rightarrow> (part_result, unit) event list \<Rightarrow> main_state \<times> sync_call list \<times> part_action list" where
  "async_read_main = async_part_main async_readFromSocket read_callback"

definition enhanced_write_main ::
  "environment \<Rightarrow> (part_result, unit) event list \<Rightarrow> main_state \<times> sync_call list \<times> part_action list" where
  "enhanced_write_main = async_part_main enhanced_writeToSocket enhanced_write_callback"

definition enhanced_read_main ::
  "environment \<Rightarrow> (part_result, unit) event list \<Rightarrow> main_state \<times> sync_call list \<times> part_action list" where
  "enhanced_read_main = async_part_main enhanced_readFromSocket enhanced_read_callback"

text \<open>
  A failure before \<^verbatim>\<open>run\<close> is the exit code; a failure of an asynchronous operation is printed by the callback and the program still
  exits with 0. The program ends exactly when its session has ended.
\<close>

lemma async_part_main_outcome:
  assumes "async_chain callback (no_external :: unit \<Rightarrow> _)" and "next_or_end (snd start)"
    and "async_part_main start callback env evs = (e, h, tr)"
  shows "(e = Has_Exited 0 \<and> end_count tr = 1) \<or> (e = Still_Waits \<and> end_count tr = 0) \<or>
    (\<exists>ec. is_error ec \<and> e = Has_Exited (ec_value ec) \<and> last h = Print_Error ec \<and> tr = [])"
proof -
  let ?cs = "[Parse_Address ''127.0.0.1'', Open_Socket, Connect_Call ''127.0.0.1'' 3333]"
  obtain r h' where calls: "run_calls ?cs env [] = (r, h')" by (metis prod.exhaust)
  obtain p s tr' where run: "chain_run callback no_external evs (chain_begin start) = (p, s, tr')" by (metis prod.exhaust)
  from async_chain.exactly_one [OF assms(1,2) run] have count: "length p + end_count tr' = 1" .
  note main = assms(3) [unfolded async_part_main_def calls run]
  show ?thesis
  proof (cases r)
    case None
    with main count show ?thesis by (cases p) auto
  next
    case (Some ec)
    with run_calls_failure [of ?cs env "[]" ec h'] calls have "is_error ec" by blast
    with Some main show ?thesis by auto
  qed
qed

text \<open>The asynchronous read program, whatever its peer and the network do, is waiting for exactly one operation, or has
  ended its session once and exits with 0 even if the reading failed, or has failed to connect and exits with
  the value of that error.\<close>

theorem async_read_main_outcome:
  assumes "async_read_main env evs = (e, h, tr)"
  shows "(e = Has_Exited 0 \<and> end_count tr = 1) \<or> (e = Still_Waits \<and> end_count tr = 0) \<or>
    (\<exists>ec. is_error ec \<and> e = Has_Exited (ec_value ec) \<and> last h = Print_Error ec \<and> tr = [])"
  by (rule async_part_main_outcome [OF reading.async_chain_axioms _ assms [unfolded async_read_main_def]])
     (simp add: async_readFromSocket_def next_or_end_def Let_def)

lemma async_write_main_outcome:
  assumes "async_write_main env evs = (e, h, tr)"
  shows "(e = Has_Exited 0 \<and> end_count tr = 1) \<or> (e = Still_Waits \<and> end_count tr = 0) \<or>
    (\<exists>ec. is_error ec \<and> e = Has_Exited (ec_value ec) \<and> last h = Print_Error ec \<and> tr = [])"
  by (rule async_part_main_outcome [OF writing.async_chain_axioms _ assms [unfolded async_write_main_def]])
     (simp add: async_writeToSocket_def next_or_end_def Let_def)

subsection \<open>Cancelling an operation\<close>

text \<open>
  \<^verbatim>\<open>cancellingAsyncOperations\<close>. The state of the chain is the output of the callback. \<open>main\<close> starts the connection and a
  worker thread that calls \<^verbatim>\<open>run\<close>, waits, calls the throwing overload of \<^verbatim>\<open>cancel\<close> and joins the worker. When
  \<^verbatim>\<open>cancel\<close> throws, the destructor of the joinable \<^verbatim>\<open>std::thread\<close> terminates the program before the \<^verbatim>\<open>catch\<close> of
  \<^verbatim>\<open>main\<close> is reached.
\<close>

definition cancellable_connect_callback :: "error_code \<Rightarrow> sync_call list" where
  "cancellable_connect_callback ec =
     (if is_error ec
      then if ec = operation_aborted then [Print ''Operation cancelled!''] else [Print_Error ec]
      else [])"

definition cancellable_step ::
  "part_handler \<Rightarrow> part_result \<Rightarrow> sync_call list \<Rightarrow> sync_call list \<times> part_action list" where
  "cancellable_step k r out = (out @ cancellable_connect_callback (pt_ec r), [Delete_This])"

definition cancelling_main ::
  "environment \<Rightarrow> (part_result, unit) event list \<Rightarrow> error_code \<Rightarrow> (part_result, unit) event list \<Rightarrow>
   main_state \<times> sync_call list" where
  "cancelling_main env five_seconds cancel_ec joining =
     (case run_calls [Parse_Address ''127.0.0.1'', Open_Socket] env [] of
        (Some ec, h) \<Rightarrow> (Has_Exited (ec_value ec), h @ [Print_Error ec])
      | (None, h) \<Rightarrow>
          (let start = chain_begin ([], [Start On_Part Async_Connect]);
               before = chain_run cancellable_step no_external five_seconds start
           in if is_error cancel_ec
              then (Has_Terminated (System_Error cancel_ec), h @ fst (snd before))
              else case chain_run cancellable_step no_external joining before of
                     (p, out, tr) \<Rightarrow> (if p = [] then Has_Exited 0 else Still_Waits, h @ out)))"

interpretation cancelling: ranked_chain cancellable_step no_external "\<lambda>k. 0" 1
  by unfold_locales (simp_all add: cancellable_step_def next_or_end_def)

text \<open>While it waits nothing has been printed; afterwards exactly what the callback prints of one error code.\<close>

lemma cancellable_run_output:
  "p = [] \<and> (\<exists>ec. out = cancellable_connect_callback ec) \<or> p = [On_Part] \<and> out = [] \<Longrightarrow>
   chain_run cancellable_step no_external evs (p, out, tr) = (p', out', tr') \<Longrightarrow>
   p' = [] \<and> (\<exists>ec. out' = cancellable_connect_callback ec) \<or> p' = [On_Part] \<and> out' = []"
proof (induction evs arbitrary: p out tr)
  case (Cons ev evs)
  obtain p1 out1 tr1 where st: "chain_step cancellable_step no_external ev (p, out, tr) = (p1, out1, tr1)"
    by (metis prod.exhaust)
  have "p1 = [] \<and> (\<exists>ec. out1 = cancellable_connect_callback ec) \<or> p1 = [On_Part] \<and> out1 = []"
    using st Cons.prems(1)
    by (cases ev) (auto simp: chain_step_def cancellable_step_def no_external_def split: if_splits)
  from Cons.IH [OF this] Cons.prems(2) st show ?case by simp
qed simp

text \<open>When the cancellation example exits with 0, its callback has run exactly once, so the output holds what the
  callback prints for one error code and nothing else; in particular a connection that was established before
  the cancellation prints nothing and one that was cancelled says so.\<close>

theorem cancelling_main_reports_once:
  assumes "run_calls [Parse_Address ''127.0.0.1'', Open_Socket] env [] = (None, h)"
    and "cancelling_main env five_seconds cancel_ec joining = (Has_Exited code, h')"
  shows "\<not> is_error cancel_ec \<and> code = 0 \<and> (\<exists>ec. h' = h @ cancellable_connect_callback ec)"
proof -
  obtain p out tr where before: "chain_run cancellable_step no_external five_seconds
      (chain_begin ([], [Start On_Part Async_Connect])) = (p, out, tr)" by (metis prod.exhaust)
  obtain p' out' tr' where joined: "chain_run cancellable_step no_external joining (p, out, tr) = (p', out', tr')"
    by (metis prod.exhaust)
  have "p = [] \<and> (\<exists>ec. out = cancellable_connect_callback ec) \<or> p = [On_Part] \<and> out = []"
    by (rule cancellable_run_output [OF _ before [unfolded chain_begin_def, simplified]]) simp
  note out = cancellable_run_output [OF this joined]
  have "cancelling_main env five_seconds cancel_ec joining =
      (if is_error cancel_ec then (Has_Terminated (System_Error cancel_ec), h @ out)
       else (if p' = [] then Has_Exited 0 else Still_Waits, h @ out'))"
    unfolding cancelling_main_def assms(1) by (simp add: before joined)
  with assms(2) out show ?thesis by (auto split: if_splits)
qed

text \<open>A connection that does not complete within the five seconds and is then cancelled.\<close>

definition calm_library :: environment where
  "calm_library h c = \<lparr>ans_ec = no_error, ans_data = [], ans_count = 0, ans_flag = False\<rparr>"

theorem cancelling_main_reports_once_witness:
  "cancelling_main calm_library [] no_error [Completes 0 \<lparr>pt_ec = operation_aborted, pt_count = 0, pt_data = []\<rparr>]
     = (Has_Exited 0, [Parse_Address ''127.0.0.1'', Open_Socket, Print ''Operation cancelled!'']) \<and>
   (\<exists>ec. [Parse_Address ''127.0.0.1'', Open_Socket, Print ''Operation cancelled!'']
      = [Parse_Address ''127.0.0.1'', Open_Socket] @ cancellable_connect_callback ec)"
proof -
  have calls: "run_calls [Parse_Address ''127.0.0.1'', Open_Socket] calm_library []
      = (None, [Parse_Address ''127.0.0.1'', Open_Socket])"
    by (simp add: failure_of_def calm_library_def)
  have run: "cancelling_main calm_library [] no_error [Completes 0 \<lparr>pt_ec = operation_aborted, pt_count = 0, pt_data = []\<rparr>]
     = (Has_Exited 0, [Parse_Address ''127.0.0.1'', Open_Socket, Print ''Operation cancelled!''])"
    using calls by (simp add: cancelling_main_def chain_begin_def chain_step_def cancellable_step_def
        cancellable_connect_callback_def)
  with cancelling_main_reports_once [OF calls run] show ?thesis by blast
qed

text \<open>A cancellation that fails ends the program without the exit code that \<^verbatim>\<open>main\<close> means to return.\<close>

lemma failed_cancel_terminates:
  assumes "run_calls [Parse_Address ''127.0.0.1'', Open_Socket] env [] = (None, h)" and "is_error cancel_ec"
  shows "fst (cancelling_main env five_seconds cancel_ec joining) = Has_Terminated (System_Error cancel_ec)"
  using assms by (simp add: cancelling_main_def Let_def)

end
