(* ===== verification/Socket_Examples.thy ===== *)
theory Socket_Examples
  imports Sync_Io
begin

section \<open>The socket examples of chapters 1 and 2\<close>

text \<open>
  The programs of chapter 1: creating endpoints and sockets, binding, connecting, accepting, resolving; and the
  buffer examples of chapter 2. Some catch exceptions, others look at an error code and
  return its value; the calls they make are the same kind of sequence (interpretations of
  \<open>sequential_program\<close>). A fault that a \<^verbatim>\<open>main\<close> returns is an exception nobody catches.
\<close>

text \<open>\<^verbatim>\<open>f(..., ec); if (ec.value() != 0) { print; return ec.value(); }\<close>\<close>

definition or_return_code :: "sync_call \<Rightarrow> int io \<Rightarrow> int io" where
  "or_return_code c m env cs =
     (case failure_of env cs c of
        None \<Rightarrow> m env (cs @ [c])
      | Some ec \<Rightarrow> (Inr (ec_value ec), cs @ [c, Print_Error ec]))"

definition endpoint_client_main :: "int io" where
  "endpoint_client_main = or_return_code (Parse_Address ''127.0.0.1'') (io_return 0)"

definition endpoint_server_main :: "int io" where
  "endpoint_server_main = io_return 0"

definition active_socket_main :: "int io" where
  "active_socket_main = or_return_code Open_Socket (io_return 0)"

text \<open>This one prints the error and returns 0 all the same.\<close>

definition active_socket_in_constructor_main :: "int io" where
  "active_socket_in_constructor_main =
     io_then (io_catch (perform Open_Socket) (\<lambda>ec. perform (Print_Error ec))) (io_return 0)"

definition passive_socket_main :: "int io" where
  "passive_socket_main = or_return_code Open_Socket (io_return 0)"

text \<open>In the two binding examples the constructor that opens the socket throws, and nobody catches it.\<close>

definition bind_tcp_main :: "int io" where
  "bind_tcp_main = io_then (perform Open_Socket) (or_return_code Bind_Call (io_return 0))"

definition bind_udp_main :: "int io" where
  "bind_udp_main = io_then (perform Open_Socket) (or_return_code Bind_Call (io_return 0))"

definition connect_main :: "int io" where
  "connect_main = main_returning_code
     (io_block (map perform [Parse_Address ''127.0.0.1'', Open_Socket, Connect_Call ''127.0.0.1'' 3333]))"

definition connect_dns_main :: "int io" where
  "connect_dns_main = main_returning_code
     (io_block (map perform [Resolve_Call ''samplehost.book'' ''3333'', Connect_Call ''samplehost.book'' 3333]))"

definition accept_main :: "int io" where
  "accept_main = main_returning_code
     (io_block (map perform [Open_Socket, Bind_Call, Listen_Call, Accept_Call]))"

definition resolve_tcp_main :: "string list \<Rightarrow> int io" where
  "resolve_tcp_main argv =
     (case argv of
        program # host # port # rest \<Rightarrow> or_return_code (Resolve_Call host port) (io_return 0)
      | _ \<Rightarrow> io_throw Runtime_Error)"

definition resolve_udp_main :: "int io" where
  "resolve_udp_main = or_return_code (Resolve_Call ''samplehost.com'' ''3333'') (io_return 0)"

subsection \<open>Buffers\<close>

text \<open>\<^verbatim>\<open>extensibleStreamOrientedBuffer\<close>: what is read back from a buffer that two lines were written to.\<close>

definition stream_buffer_main :: string where
  "stream_buffer_main =
     (let buf = ''Message1'' @ [LF] @ ''Message2'';
          (message1, input) = getline LF (open_istream buf) []
      in message1)"

lemma stream_buffer_message: "stream_buffer_main = ''Message1''"
  using lf.read_open [of "''Message1''" "''Message2''" "[]"] by (simp add: stream_buffer_main_def)

text \<open>
  \<^verbatim>\<open>fixedLengthBufferInput\<close> and \<^verbatim>\<open>fixedLengthBufferOutput\<close>: a raw buffer and the representation that Asio takes, the
  address of its first byte and a size. The bytes of \<^verbatim>\<open>new char[n]\<close> are indeterminate (\<open>None\<close>).
\<close>

record 'a buffer_view =
  view_of :: "'a list"
  view_size :: size_t

definition asio_buffer :: "'a list \<Rightarrow> size_t \<Rightarrow> 'a buffer_view" where
  "asio_buffer buf n = \<lparr>view_of = buf, view_size = n\<rparr>"

definition fixed_input_main :: "char option buffer_view \<times> int" where
  "fixed_input_main =
     (let BUF_SIZE_BYTES = 20;
          buf = replicate (unat BUF_SIZE_BYTES) None
      in (asio_buffer buf BUF_SIZE_BYTES, 0))"

definition fixed_output_main :: "char buffer_view \<times> int" where
  "fixed_output_main = (let buf = ''Hello'' in (asio_buffer buf (word_of_nat (length buf)), 0))"

text \<open>Neither representation reaches beyond its raw buffer.\<close>

lemma fixed_buffers_in_bounds:
  "unat (view_size (fst fixed_input_main)) = length (view_of (fst fixed_input_main))"
  "unat (view_size (fst fixed_output_main)) = length (view_of (fst fixed_output_main))"
  by (simp_all add: fixed_input_main_def fixed_output_main_def asio_buffer_def Let_def)

subsection \<open>Outcomes\<close>

lemmas example_defs = or_return_code_def io_then_def io_bind_def io_return_def io_catch_def main_returning_code_def

interpretation endpoint_client: sequential_program endpoint_client_main "\<lambda>env. [Parse_Address ''127.0.0.1'']" "[]"
  by unfold_locales (simp add: endpoint_client_main_def example_defs split: option.split)

interpretation active_socket: sequential_program active_socket_main "\<lambda>env. [Open_Socket]" "[]"
  by unfold_locales (simp add: active_socket_main_def example_defs split: option.split)

interpretation passive_socket: sequential_program passive_socket_main "\<lambda>env. [Open_Socket]" "[]"
  by unfold_locales (simp add: passive_socket_main_def example_defs split: option.split)

interpretation connecting: sequential_program connect_main
    "\<lambda>env. [Parse_Address ''127.0.0.1'', Open_Socket, Connect_Call ''127.0.0.1'' 3333]" "[]"
  by unfold_locales (simp add: connect_main_def example_defs split: option.split)

interpretation connecting_dns: sequential_program connect_dns_main
    "\<lambda>env. [Resolve_Call ''samplehost.book'' ''3333'', Connect_Call ''samplehost.book'' 3333]" "[]"
  by unfold_locales (simp add: connect_dns_main_def example_defs split: option.split)

interpretation accepting: sequential_program accept_main
    "\<lambda>env. [Open_Socket, Bind_Call, Listen_Call, Accept_Call]" "[]"
  by unfold_locales (simp add: accept_main_def example_defs split: option.split)

interpretation resolving_udp: sequential_program resolve_udp_main "\<lambda>env. [Resolve_Call ''samplehost.com'' ''3333'']" "[]"
  by unfold_locales (simp add: resolve_udp_main_def example_defs split: option.split)

text \<open>The programs that do not report an error by their exit code.\<close>

lemma open_in_constructor_always_zero: "fst (active_socket_in_constructor_main env h) = Inr 0"
  by (simp add: active_socket_in_constructor_main_def example_defs split: option.split)

lemma bind_open_uncaught:
  assumes "failure_of env h Open_Socket = Some ec"
  shows "bind_tcp_main env h = (Inl (System_Error ec), h @ [Open_Socket])"
    and "bind_udp_main env h = (Inl (System_Error ec), h @ [Open_Socket])"
  using assms by (simp_all add: bind_tcp_main_def bind_udp_main_def example_defs)

end
