(* ===== verification/Http_Client_Locks.thy ===== *)
theory Http_Client_Locks
  imports Http_Client_Properties Mutexes
begin

section \<open>HTTP client: one request at the level of its mutex\<close>

text \<open>
  In \<^verbatim>\<open>Http_Client\<close> a handler and a call of \<^verbatim>\<open>cancel\<close> are single steps. Here they are the moves that
  \<^verbatim>\<open>chapter5/HTTPClient/httpclient.cpp\<close> makes between lock operations: what a handler does before it takes
  \<^verbatim>\<open>m_cancel_mux\<close>, the test of the flag, the start of the next operation and \<^verbatim>\<open>on_finish\<close>, which runs after the lock has been
  released. Any number of threads call \<^verbatim>\<open>cancel\<close>, and the moves interleave in any order. The theory relates the two
  levels and shows which use of the socket the mutex does not cover.
\<close>

subsection \<open>The part of a handler before the lock\<close>

text \<open>What a handler goes on to do: take the lock to start an operation, call \<^verbatim>\<open>on_finish\<close>, or never return.\<close>

datatype before_lock = Try_Start request_handler async_op | Finish error_code | Ends request_action

definition execute_prepare :: "http_request \<Rightarrow> http_request \<times> request_action list \<times> before_lock" where
  "execute_prepare rq =
     (rq, [], if \<not> m_port rq > 0 \<or> \<not> length (m_host rq) > 0 \<or> \<not> length (m_uri rq) > 0 \<or> m_callback rq = None
              then Ends (Throw Assertion_Failure)
              else Try_Start On_Host_Name_Resolved (Async_Resolve (m_host rq) (to_string_u32 (m_port rq))))"

definition compose_request :: "http_request \<Rightarrow> http_request" where
  "compose_request rq = rq\<lparr>m_request_buf := m_request_buf rq @ ''GET '' @ m_uri rq @ '' HTTP/1.1'' @ CRLF @
     ''Host: '' @ m_host rq @ CRLF @ CRLF\<rparr>"

definition parse_status_line :: "http_request \<Rightarrow> http_request \<times> before_lock" where
  "parse_status_line rq =
     (let (http_version, st1) = extract_word (open_istream (m_response_buf (m_response rq))) []
      in if http_version \<noteq> ''HTTP/1.1'' then (set_buf st1 rq, Finish (make_error_code invalid_response))
         else
           let (str_status_code, st2) = extract_word st1 []
           in case stoul str_status_code of
                Inl _ \<Rightarrow> (set_buf st2 rq, Finish (make_error_code invalid_response))
              | Inr n \<Rightarrow>
                  let (status_message, st3) = getline CR st2 [];
                      rq1 = set_buf (get_char st3) rq
                  in (rq1\<lparr>m_response := set_status_message status_message (set_status_code (ucast n) (m_response rq1))\<rparr>,
                      Try_Start On_Response_Headers_Received (Async_Read_Until (CRLF @ CRLF))))"

definition request_prepare ::
  "request_handler \<Rightarrow> request_result \<Rightarrow> http_request \<Rightarrow> http_request \<times> request_action list \<times> before_lock" where
  "request_prepare k r rq0 =
     (let rq = rq0\<lparr>m_response := (m_response rq0)\<lparr>m_response_buf := m_response_buf (m_response rq0) @ rr_data r\<rparr>\<rparr>
      in if k = On_Response_Body_Received
         then (rq, [], Finish (if rr_ec r = asio_eof then no_error else rr_ec r))
         else if is_error (rr_ec r) then (rq, [], Finish (rr_ec r))
         else case k of
           On_Host_Name_Resolved \<Rightarrow> (rq, [], Try_Start On_Connection_Established Async_Connect)
         | On_Connection_Established \<Rightarrow>
             (compose_request rq, [], Try_Start On_Request_Sent (Async_Write [m_request_buf (compose_request rq)]))
         | On_Request_Sent \<Rightarrow>
             (rq, [Shutdown shutdown_send],
              if is_error (rr_shutdown r) then Ends (Throw (System_Error (rr_shutdown r)))
              else Try_Start On_Status_Line_Received (Async_Read_Until CRLF))
         | On_Status_Line_Received \<Rightarrow> (case parse_status_line rq of (rq1, n) \<Rightarrow> (rq1, [], n))
         | _ \<Rightarrow>
             (case response_header_loop (open_istream (m_response_buf (m_response rq))) [] (m_response rq) of
                None \<Rightarrow> (rq, [], Ends Hang)
              | Some (st, rsp) \<Rightarrow> (rq\<lparr>m_response := rsp\<lparr>m_response_buf := rdbuf st\<rparr>\<rparr>, [],
                                    Try_Start On_Response_Body_Received Async_Read)))"

text \<open>What runs: \<^verbatim>\<open>execute\<close>, or the handler of an operation that has completed.\<close>

type_synonym source = "(request_handler \<times> request_result) option"

fun prepare :: "source \<Rightarrow> http_request \<Rightarrow> http_request \<times> request_action list \<times> before_lock" where
  "prepare None rq = execute_prepare rq"
| "prepare (Some (k, r)) rq = request_prepare k r rq"

fun atomic_step :: "source \<Rightarrow> http_request \<Rightarrow> http_request \<times> request_action list" where
  "atomic_step None rq = execute rq"
| "atomic_step (Some (k, r)) rq = request_step k r rq"

text \<open>The part after it, run in one go.\<close>

definition complete_step :: "http_request \<times> request_action list \<times> before_lock \<Rightarrow> http_request \<times> request_action list" where
  "complete_step x =
     (case x of (rq, as, n) \<Rightarrow>
        (case n of
           Try_Start k op \<Rightarrow> (rq, as @ snd (start_unless_cancelled k op rq))
         | Finish ec \<Rightarrow> (rq, as @ snd (request_on_finish ec rq))
         | Ends a \<Rightarrow> (rq, as @ [a])))"

text \<open>Splitting is faithful: preparing and then, without interruption, locking and starting or finishing is exactly the
  member function, for \<^verbatim>\<open>execute\<close> and for all six handlers.\<close>

lemma prepare_then_lock:
  "complete_step (prepare src rq) = atomic_step src rq"
proof (cases src)
  case None
  then show ?thesis by (simp add: complete_step_def execute_prepare_def execute_def start_unless_cancelled_def request_on_finish_def)
next
  case (Some kr)
  obtain k r where kr: "kr = (k, r)" by (cases kr)
  have "complete_step (request_prepare k r rq) = request_step k r rq"
    by (cases k)
       (auto simp: complete_step_def request_prepare_def request_step_def request_handler_defs compose_request_def
         parse_status_line_def start_unless_cancelled_def request_on_finish_def Let_def case_prod_beta
         split: sum.split option.split)
  then show ?thesis by (simp add: Some kr)
qed

text \<open>The first part neither reads nor writes the flag.\<close>

lemma request_prepare_flag:
  "request_prepare k r (rq\<lparr>m_was_cancelled := f\<rparr>)
     = (case request_prepare k r rq of (rq', as, n) \<Rightarrow> (rq'\<lparr>m_was_cancelled := f\<rparr>, as, n))"
  by (cases k)
     (auto simp: request_prepare_def compose_request_def parse_status_line_def set_buf_def Let_def case_prod_beta
       split: sum.split option.split)

lemma prepare_flag:
  assumes "prepare src rq = (rq', as, n)"
  shows "prepare src (rq\<lparr>m_was_cancelled := f\<rparr>) = (rq'\<lparr>m_was_cancelled := f\<rparr>, as, n)"
proof (cases src)
  case None
  with assms show ?thesis by (auto simp: execute_prepare_def)
next
  case (Some kr)
  with assms show ?thesis by (cases kr) (simp add: request_prepare_flag)
qed

lemma request_prepare_keeps_flag:
  "m_was_cancelled (fst (request_prepare k r rq)) = m_was_cancelled rq"
  by (cases k)
     (auto simp: request_prepare_def compose_request_def parse_status_line_def Let_def case_prod_beta
       split: sum.split option.split)

lemma prepare_keeps_flag:
  "prepare src rq = (rq', as, n) \<Longrightarrow> m_was_cancelled rq' = m_was_cancelled rq"
proof (cases src)
  case (Some kr)
  moreover assume "prepare src rq = (rq', as, n)"
  ultimately show ?thesis using request_prepare_keeps_flag by (cases kr) (metis fst_conv prepare.simps(2))
qed (auto simp: execute_prepare_def)

subsection \<open>Places, the mutex and the moves\<close>

datatype place =
  Running source                                 \<comment> \<open>before the first unlocked part of \<^verbatim>\<open>execute\<close> or a handler\<close>
| Before_Lock request_handler async_op
| Testing request_handler async_op               \<comment> \<open>holds the mutex, as do the next two\<close>
| Starting request_handler async_op
| Leaving_Scope
| Finishing error_code                           \<comment> \<open>the mutex has been released\<close>
| Cancel_Entry bool error_code                   \<comment> \<open>\<^verbatim>\<open>cancel\<close>, before the lock\<close>
| Cancel_Flag bool error_code
| Cancel_Resolver_Call bool error_code
| Cancel_Socket_Call bool error_code
| Returned

fun holds_mux :: "place \<Rightarrow> bool" where
  "holds_mux (Testing k op) = True"
| "holds_mux (Starting k op) = True"
| "holds_mux Leaving_Scope = True"
| "holds_mux (Cancel_Flag is_open ec) = True"
| "holds_mux (Cancel_Resolver_Call is_open ec) = True"
| "holds_mux (Cancel_Socket_Call is_open ec) = True"
| "holds_mux _ = False"

definition mux_free :: "place list \<Rightarrow> bool" where
  "mux_free ps \<longleftrightarrow> list_all (\<lambda>p. \<not> holds_mux p) ps"

text \<open>The request, the operations that wait and the actions so far.\<close>

type_synonym shared_request = "http_request \<times> request_handler list \<times> request_action list"

inductive place_step :: "place list \<Rightarrow> place \<Rightarrow> shared_request \<Rightarrow> place \<Rightarrow> shared_request \<Rightarrow> bool" for ps where
  run_to_lock: "prepare src rq = (rq', as, Try_Start k op) \<Longrightarrow>
    place_step ps (Running src) (rq, w, tr) (Before_Lock k op) (rq', w, tr @ as)"
| run_to_finish: "prepare src rq = (rq', as, Finish ec) \<Longrightarrow>
    place_step ps (Running src) (rq, w, tr) (Finishing ec) (rq', w, tr @ as)"
| run_to_end: "prepare src rq = (rq', as, Ends a) \<Longrightarrow>
    place_step ps (Running src) (rq, w, tr) Returned (rq', w, tr @ as @ [a])"
| lock: "mux_free ps \<Longrightarrow> place_step ps (Before_Lock k op) sh (Testing k op) sh"
| test_cancelled: "m_was_cancelled rq \<Longrightarrow>
    place_step ps (Testing k op) (rq, w, tr) (Finishing operation_aborted) (rq, w, tr)"
| test_not_cancelled: "\<not> m_was_cancelled rq \<Longrightarrow>
    place_step ps (Testing k op) (rq, w, tr) (Starting k op) (rq, w, tr)"
| start_operation: "place_step ps (Starting k op) (rq, w, tr) Leaving_Scope (rq, w @ [k], tr @ [Start k op])"
| unlock: "place_step ps Leaving_Scope sh Returned sh"
| finish: "request_on_finish ec rq = (rq', as) \<Longrightarrow>
    place_step ps (Finishing ec) (rq, w, tr) Returned (rq', w, tr @ as)"
| cancel_lock: "mux_free ps \<Longrightarrow> place_step ps (Cancel_Entry is_open ec) sh (Cancel_Flag is_open ec) sh"
| cancel_flag: "place_step ps (Cancel_Flag is_open ec) (rq, w, tr) (Cancel_Resolver_Call is_open ec)
    (rq\<lparr>m_was_cancelled := True\<rparr>, w, tr)"
| cancel_resolver: "place_step ps (Cancel_Resolver_Call is_open ec) (rq, w, tr)
    (if is_open then Cancel_Socket_Call is_open ec else Returned) (rq, w, tr @ [Cancel_Resolver])"
| cancel_socket: "place_step ps (Cancel_Socket_Call is_open ec) (rq, w, tr) Returned
    (rq, w, tr @ [Cancel_Socket] @ (if is_error ec then [Raise (System_Error ec)] else []))"

inductive_simps place_step_simps [simp]:
  "place_step ps (Before_Lock k op) sh p sh'" "place_step ps Leaving_Scope sh p sh'"
  "place_step ps (Cancel_Entry is_open ec) sh p sh'" "place_step ps Returned sh p sh'"

inductive_cases place_stepE: "place_step ps p sh p' sh'"

type_synonym locked_state = "place list \<times> shared_request"

text \<open>A place moves, a waiting operation completes and its handler begins, or some thread calls \<^verbatim>\<open>cancel\<close>.\<close>

inductive locked_step :: "locked_state \<Rightarrow> locked_state \<Rightarrow> bool" where
  move: "i < length ps \<Longrightarrow> place_step ps (ps ! i) sh p sh' \<Longrightarrow> locked_step (ps, sh) (ps[i := p], sh')"
| completes: "j < length w \<Longrightarrow>
    locked_step (ps, (rq, w, tr)) (ps @ [Running (Some (w ! j, r))], (rq, take j w @ drop (Suc j) w, tr))"
| cancel_called: "locked_step (ps, sh) (ps @ [Cancel_Entry is_open ec], sh)"

inductive_cases locked_stepE: "locked_step (ps, sh) (ps', sh')"

inductive locked_reachable :: "http_request \<Rightarrow> locked_state \<Rightarrow> bool" for rq0 where
  start: "locked_reachable rq0 ([Running None], (rq0, [], []))"
| step: "locked_reachable rq0 st \<Longrightarrow> locked_step st st' \<Longrightarrow> locked_reachable rq0 st'"

end
