(* ===== verification/Http_Client_Lock_Properties.thy ===== *)
theory Http_Client_Lock_Properties
  imports Http_Client_Locks
begin

section \<open>HTTP client: what the mutex of a request achieves\<close>

text \<open>
  Mutual exclusion of \<^verbatim>\<open>m_cancel_mux\<close>, the simulation between the level of the mutex and the model in which
  handlers and cancellations are single steps, the effect of a cancellation, and a use of the socket that the mutex does not order.
\<close>

subsection \<open>Mutual exclusion\<close>

definition mux_exclusive :: "place list \<Rightarrow> bool" where
  "mux_exclusive ps \<longleftrightarrow> length (filter holds_mux ps) \<le> 1"

lemma place_step_acquires: "place_step ps p sh p' sh' \<Longrightarrow> holds_mux p' \<Longrightarrow> holds_mux p \<or> mux_free ps"
  by (erule place_stepE) (auto split: if_splits)

interpretation mux: mutex_discipline "\<lambda>p (u :: unit). holds_mux p" "\<lambda>ps p p'. \<exists>sh sh'. place_step ps p sh p' sh'"
proof
  fix ps p p' and m :: unit assume "\<exists>sh sh'. place_step ps p sh p' sh'" and "holds_mux p'"
  then show "holds_mux p \<or> nobody_holds (\<lambda>p (u :: unit). holds_mux p) m ps"
    unfolding nobody_holds_def mux_free_def [symmetric] using place_step_acquires by blast
qed

lemma mux_exclusive_holders: "mux_exclusive ps = exclusive_holders (\<lambda>p (u :: unit). holds_mux p) ps"
  by (simp add: mux_exclusive_def exclusive_holders_def)

lemma mux_exclusive_step:
  assumes "locked_step (ps, sh) (ps', sh')" and "mux_exclusive ps"
  shows "mux_exclusive ps'"
  using assms(1)
proof (rule locked_stepE)
  fix i p assume "ps' = ps[i := p]" "i < length ps" "place_step ps (ps ! i) sh p sh'"
  moreover from this have "\<exists>sh sh'. place_step ps (ps ! i) sh p sh'" by blast
  ultimately show ?thesis using mux.move_exclusive [of ps i p] assms(2) by (simp add: mux_exclusive_holders)
qed (use assms(2) in \<open>auto simp: mux_exclusive_def\<close>)

lemma locked_reachable_exclusive: "locked_reachable rq0 st \<Longrightarrow> mux_exclusive (fst st)"
proof (induction rule: locked_reachable.induct)
  case (step st st')
  then show ?case using mux_exclusive_step by (cases st; cases st') auto
qed (simp add: mux_exclusive_def)

subsection \<open>Every schedule is one of the atomic model\<close>

text \<open>
  The calls that use the socket or the resolver may be ordered differently at the two levels. All other actions
  are compared: the operations that are started, what is logged, the callback and the faults.
\<close>

definition visible :: "request_action \<Rightarrow> bool" where
  "visible a = (case a of Shutdown h \<Rightarrow> False | Cancel_Resolver \<Rightarrow> False | Cancel_Socket \<Rightarrow> False
     | Raise f \<Rightarrow> False | _ \<Rightarrow> True)"

lemma visible_simps [simp]:
  "visible (Start k op)" "visible (Callback c)" "visible (Throw f)" "visible (Log ec)" "visible Hang"
  "\<not> visible (Shutdown h)" "\<not> visible Cancel_Resolver" "\<not> visible Cancel_Socket" "\<not> visible (Raise f)"
  by (simp_all add: visible_def)

lemma request_prepare_actions:
  "request_prepare k r rq = (rq', as, n) \<Longrightarrow> filter visible as = [] \<and> conts as = [] \<and> (\<forall>a. n = Ends a \<longrightarrow> conts [a] = [])"
  by (cases k)
     (auto simp: request_prepare_def parse_status_line_def Let_def case_prod_beta split: if_splits sum.splits option.splits)

lemma prepare_actions:
  assumes "prepare src rq = (rq', as, n)"
  shows "filter visible as = []" "conts as = []" "n = Ends a \<Longrightarrow> conts [a] = []"
proof -
  have "filter visible as = [] \<and> conts as = [] \<and> (\<forall>a. n = Ends a \<longrightarrow> conts [a] = [])"
  proof (cases src)
    case None
    with assms show ?thesis by (auto simp: execute_prepare_def split: if_splits)
  next
    case (Some kr)
    with assms show ?thesis by (cases kr) (simp add: request_prepare_actions)
  qed
  then show "filter visible as = []" "conts as = []" "n = Ends a \<Longrightarrow> conts [a] = []" by auto
qed

text \<open>A state of the atomic model: before \<^verbatim>\<open>execute\<close>, possibly cancelled already, or after some events.\<close>

definition atomic_reach ::
  "http_request \<Rightarrow> bool \<Rightarrow> request_handler list \<Rightarrow> http_request \<Rightarrow> request_action list \<Rightarrow> bool" where
  "atomic_reach rq0 begun p s tr \<longleftrightarrow>
     (if begun then \<exists>f evs. request_run evs (rq0\<lparr>m_was_cancelled := f\<rparr>) = (p, s, tr)
      else p = [] \<and> tr = [] \<and> (\<exists>f. s = rq0\<lparr>m_was_cancelled := f\<rparr>))"

definition pending :: "source \<Rightarrow> bool \<Rightarrow> request_handler list \<Rightarrow> bool" where
  "pending src begun p = (case src of None \<Rightarrow> \<not> begun | Some (k, r) \<Rightarrow> begun \<and> p = [k])"

lemma atomic_fire:
  assumes "atomic_reach rq0 b p s tr" and "pending src b p" and "atomic_step src s = (s', as)"
  shows "atomic_reach rq0 True (conts as) s' (tr @ as)"
proof (cases src)
  case None
  with assms obtain f where "s = rq0\<lparr>m_was_cancelled := f\<rparr>" "tr = []" by (auto simp: atomic_reach_def pending_def)
  moreover have "request_run [] s = (conts as, s', as)"
    using assms(3) None by (simp add: request_run_def chain_begin_def)
  ultimately show ?thesis by (auto simp: atomic_reach_def)
next
  case (Some kr)
  then obtain k r where kr: "src = Some (k, r)" by (cases kr) auto
  with assms(1,2) obtain f evs where "request_run evs (rq0\<lparr>m_was_cancelled := f\<rparr>) = ([k], s, tr)"
    by (auto simp: atomic_reach_def pending_def)
  then have "request_run (evs @ [Completes 0 r]) (rq0\<lparr>m_was_cancelled := f\<rparr>) = (conts as, s', tr @ as)"
    using assms(3) by (simp add: request_run_def chain_run_append chain_step_def kr)
  then show ?thesis unfolding atomic_reach_def by (simp only: if_True) blast
qed

lemma atomic_cancel:
  assumes "atomic_reach rq0 b p s tr"
  shows "\<exists>tr'. atomic_reach rq0 b p (s\<lparr>m_was_cancelled := True\<rparr>) tr' \<and> filter visible tr' = filter visible tr"
proof (cases b)
  case True
  with assms obtain f evs where run: "request_run evs (rq0\<lparr>m_was_cancelled := f\<rparr>) = (p, s, tr)"
    by (auto simp: atomic_reach_def)
  have "request_run (evs @ [External (Call_Cancel False no_error)]) (rq0\<lparr>m_was_cancelled := f\<rparr>)
      = (p, s\<lparr>m_was_cancelled := True\<rparr>, tr @ [Cancel_Resolver])"
    using run by (simp add: request_run_def chain_run_append chain_step_def)
  then have "atomic_reach rq0 b p (s\<lparr>m_was_cancelled := True\<rparr>) (tr @ [Cancel_Resolver])"
    using True unfolding atomic_reach_def by (simp only: if_True) blast
  then show ?thesis by (intro exI [of _ "tr @ [Cancel_Resolver]"]) simp
next
  case False
  with assms show ?thesis by (auto simp: atomic_reach_def)
qed

lemma atomic_reach_one: "atomic_reach rq0 b p s tr \<Longrightarrow> length p \<le> 1"
  using request_run_count by (fastforce simp: atomic_reach_def split: if_splits)

text \<open>The places of the chain, and how far the request of the place is ahead of that of the atomic model.\<close>

fun chain_place :: "place \<Rightarrow> bool" where
  "chain_place (Running src) = True"
| "chain_place (Before_Lock k op) = True"
| "chain_place (Testing k op) = True"
| "chain_place (Starting k op) = True"
| "chain_place (Finishing ec) = True"
| "chain_place _ = False"

fun matches :: "place \<Rightarrow> source \<Rightarrow> http_request \<Rightarrow> http_request \<Rightarrow> bool" where
  "matches (Running src') src s rq = (src' = src \<and> rq = s)"
| "matches (Before_Lock k op) src s rq = (\<exists>as. prepare src s = (rq, as, Try_Start k op))"
| "matches (Testing k op) src s rq = (\<exists>as. prepare src s = (rq, as, Try_Start k op))"
| "matches (Starting k op) src s rq = (\<not> m_was_cancelled rq \<and> (\<exists>as. prepare src s = (rq, as, Try_Start k op)))"
| "matches (Finishing ec) src s rq = (\<exists>as n. prepare src s = (rq, as, n) \<and>
     (n = Finish ec \<or> (\<exists>k op. n = Try_Start k op) \<and> ec = operation_aborted \<and> m_was_cancelled rq))"
| "matches _ src s rq = False"

lemma matches_chain_place: "matches c src s rq \<Longrightarrow> chain_place c"
  by (cases c) auto

lemma matches_cancelled:
  assumes "matches c src s rq" and "\<And>k op. c \<noteq> Starting k op"
  shows "matches c src (s\<lparr>m_was_cancelled := True\<rparr>) (rq\<lparr>m_was_cancelled := True\<rparr>)"
  using assms by (cases c) (auto dest: prepare_flag [where f = True])

definition simulated :: "http_request \<Rightarrow> locked_state \<Rightarrow> bool" where
  "simulated rq0 st \<longleftrightarrow> (case st of (ps, rq, w, tr) \<Rightarrow>
     \<exists>b p s atr. atomic_reach rq0 b p s atr \<and> filter visible tr = filter visible atr \<and>
       (b \<and> filter chain_place ps = [] \<and> p = w \<and> s = rq \<or>
        (\<exists>c src. filter chain_place ps = [c] \<and> w = [] \<and> pending src b p \<and> matches c src s rq)))"

lemma simulated_idle:
  "atomic_reach rq0 True w rq atr \<Longrightarrow> filter visible tr = filter visible atr \<Longrightarrow> filter chain_place ps = [] \<Longrightarrow>
   simulated rq0 (ps, rq, w, tr)"
  unfolding simulated_def by auto

lemma simulated_chain:
  "atomic_reach rq0 b p s atr \<Longrightarrow> filter visible tr = filter visible atr \<Longrightarrow> filter chain_place ps = [c] \<Longrightarrow>
   pending src b p \<Longrightarrow> matches c src s rq \<Longrightarrow> simulated rq0 (ps, rq, [], tr)"
  unfolding simulated_def by clarsimp blast

lemma simulatedE:
  assumes "simulated rq0 (ps, rq, w, tr)"
  obtains (idle) atr where "atomic_reach rq0 True w rq atr" "filter visible tr = filter visible atr"
      "filter chain_place ps = []"
  | (chain) b p s atr c src where "atomic_reach rq0 b p s atr" "filter visible tr = filter visible atr"
      "filter chain_place ps = [c]" "w = []" "pending src b p" "matches c src s rq"
  using assms unfolding simulated_def by auto

text \<open>One move of the chain: either the atomic model waits, or it makes its step now.\<close>

lemma chain_move:
  assumes "place_step ps c (rq, [], tr) c' (rq', w', tr')"
    and "atomic_reach rq0 b p s atr" and "filter visible tr = filter visible atr"
    and "pending src b p" and "matches c src s rq"
  shows "(chain_place c' \<and> w' = [] \<and> matches c' src s rq' \<and> filter visible tr' = filter visible atr) \<or>
    (\<not> chain_place c' \<and> (\<exists>as. atomic_step src s = (rq', as) \<and> conts as = w' \<and>
       filter visible tr' = filter visible (atr @ as)))"
proof -
  obtain rq1 as n where prep: "prepare src s = (rq1, as, n)" by (metis prod.exhaust)
  note acts = prepare_actions [OF prep] prep
    prepare_then_lock [of src s, symmetric, unfolded prep complete_step_def, simplified]
  show ?thesis
    using assms(1,3,5)
    by (cases rule: place_step.cases)
       (auto simp: acts start_unless_cancelled_def request_on_finish_def split: option.splits)
qed

text \<open>Replacing an element of a list with at most one element of a kind.\<close>

lemma filter_update_other:
  "i < length xs \<Longrightarrow> \<not> P (xs ! i) \<Longrightarrow> \<not> P x \<Longrightarrow> filter P (xs[i := x]) = filter P xs"
proof (induction xs arbitrary: i)
  case (Cons y ys)
  then show ?case by (cases i) auto
qed simp

lemma filter_update_single:
  "filter P xs = [c] \<Longrightarrow> i < length xs \<Longrightarrow> P (xs ! i) \<Longrightarrow>
   xs ! i = c \<and> filter P (xs[i := x]) = (if P x then [x] else [])"
proof (induction xs arbitrary: i)
  case (Cons y ys)
  show ?case
  proof (cases i)
    case 0
    with Cons.prems show ?thesis by (auto split: if_splits)
  next
    case (Suc j)
    with Cons.prems have "filter P ys \<noteq> []" by (auto simp: filter_empty_conv)
    with Cons.prems(1) have "\<not> P y" "filter P ys = [c]" by (auto split: if_splits)
    with Cons.IH [of j] Cons.prems Suc show ?thesis by simp
  qed
qed simp

text \<open>A move that is not one of the chain changes the request at most by setting the flag.\<close>

lemma other_move:
  "place_step ps c (rq, w, tr) c' (rq', w', tr') \<Longrightarrow> \<not> chain_place c \<Longrightarrow>
     \<not> chain_place c' \<and> w' = w \<and> filter visible tr' = filter visible tr \<and>
     (rq' = rq \<or> rq' = rq\<lparr>m_was_cancelled := True\<rparr> \<and> holds_mux c)"
  by (erule place_stepE) auto

text \<open>While an operation is being started under the mutex, no \<^verbatim>\<open>cancel\<close> is inside its own section.\<close>

lemma starting_excludes:
  assumes "filter chain_place ps = [Starting k op]" and "mux_exclusive ps"
    and i: "i < length ps" "\<not> chain_place (ps ! i)" "holds_mux (ps ! i)"
  shows False
proof -
  from assms(1) have "Starting k op \<in> set ps" by (metis filter_eq_ConsD in_set_conv_decomp)
  then obtain j where j: "j < length ps" "ps ! j = Starting k op" by (auto simp: in_set_conv_nth)
  with i(2) have "i \<noteq> j" by auto
  from two_in_filter [OF i(1) j(1) this, of holds_mux] i j assms(2) show False by (simp add: mux_exclusive_def)
qed

lemma simulated_cancel:
  assumes "simulated rq0 (ps, rq, w, tr)" and "\<And>k op. filter chain_place ps \<noteq> [Starting k op]"
  shows "simulated rq0 (ps, rq\<lparr>m_was_cancelled := True\<rparr>, w, tr)"
  using assms(1)
proof (cases rule: simulatedE)
  case (idle atr)
  with atomic_cancel [OF idle(1)] show ?thesis by (metis simulated_idle)
next
  case (chain b p s atr c src)
  with assms(2) have "matches c src (s\<lparr>m_was_cancelled := True\<rparr>) (rq\<lparr>m_was_cancelled := True\<rparr>)"
    by (intro matches_cancelled) auto
  with chain atomic_cancel [OF chain(1)] show ?thesis by (metis simulated_chain)
qed

lemma simulated_chain_move:
  assumes sim: "simulated rq0 (ps, rq, w, tr)" and i: "i < length ps" "chain_place (ps ! i)"
    and move: "place_step ps (ps ! i) (rq, w, tr) c' (rq', w', tr')"
  shows "simulated rq0 (ps[i := c'], rq', w', tr')"
  using sim
proof (cases rule: simulatedE)
  case (idle atr)
  with i show ?thesis by (auto simp: filter_empty_conv)
next
  case (chain b p s atr c src)
  note upd = filter_update_single [of chain_place, OF chain(3) i, of c']
  with move chain(4) have "place_step ps c (rq, [], tr) c' (rq', w', tr')" by simp
  from chain_move [OF this chain(1,2,5,6)] show ?thesis
  proof (elim disjE conjE exE)
    assume "chain_place c'" "w' = []" "matches c' src s rq'" "filter visible tr' = filter visible atr"
    with chain(1,5) upd show ?thesis by (metis simulated_chain)
  next
    fix as assume "\<not> chain_place c'" "atomic_step src s = (rq', as)" "conts as = w'"
      "filter visible tr' = filter visible (atr @ as)"
    with atomic_fire [OF chain(1,5)] upd show ?thesis by (metis simulated_idle)
  qed
qed

lemma simulated_move:
  assumes sim: "simulated rq0 (ps, rq, w, tr)" and "mux_exclusive ps" and i: "i < length ps"
    and move: "place_step ps (ps ! i) (rq, w, tr) c' (rq', w', tr')"
  shows "simulated rq0 (ps[i := c'], rq', w', tr')"
proof (cases "chain_place (ps ! i)")
  case True
  with simulated_chain_move assms show ?thesis by blast
next
  case False
  from other_move [OF move False] have frame: "\<not> chain_place c'" "w' = w" "filter visible tr' = filter visible tr"
    and rq': "rq' = rq \<or> rq' = rq\<lparr>m_was_cancelled := True\<rparr> \<and> holds_mux (ps ! i)" by auto
  note same = filter_update_other [of i ps chain_place, OF i False frame(1)]
  have "simulated rq0 (ps, rq', w, tr)"
    using rq' sim simulated_cancel [OF sim] starting_excludes [OF _ assms(2) i False] by auto
  with frame same show ?thesis by (simp add: simulated_def)
qed

lemma simulated_completes:
  assumes "simulated rq0 (ps, rq, w, tr)" and "j < length w"
  shows "simulated rq0 (ps @ [Running (Some (w ! j, r))], rq, take j w @ drop (Suc j) w, tr)"
  using assms(1)
proof (cases rule: simulatedE)
  case (idle atr)
  from atomic_reach_one [OF idle(1)] assms(2) obtain k where w: "w = [k]" "j = 0" by (cases w) auto
  have "simulated rq0 (ps @ [Running (Some (k, r))], rq, [], tr)"
    by (rule simulated_chain [OF idle(1,2), where src = "Some (k, r)" and c = "Running (Some (k, r))"]) (simp_all add: idle(3) pending_def w)
  then show ?thesis by (simp add: w)
qed (use assms(2) in simp)

lemma simulated_step:
  assumes "locked_step (ps, rq, w, tr) (ps', rq', w', tr')" and "simulated rq0 (ps, rq, w, tr)" and "mux_exclusive ps"
  shows "simulated rq0 (ps', rq', w', tr')"
  using assms(1)
proof (rule locked_stepE)
  fix i c' assume "ps' = ps[i := c']" "i < length ps" "place_step ps (ps ! i) (rq, w, tr) c' (rq', w', tr')"
  with simulated_move [OF assms(2,3)] show ?thesis by blast
next
  fix j w0 rq1 r tr1
  assume "ps' = ps @ [Running (Some (w0 ! j, r))]" "(rq, w, tr) = (rq1, w0, tr1)"
    "(rq', w', tr') = (rq1, take j w0 @ drop (Suc j) w0, tr1)" "j < length w0"
  with simulated_completes [OF assms(2)] show ?thesis by simp
next
  fix o' ec assume "ps' = ps @ [Cancel_Entry o' ec]" "(rq', w', tr') = (rq, w, tr)"
  with assms(2) show ?thesis by (simp add: simulated_def)
qed

lemma simulated_start: "simulated rq0 ([Running None], rq0, [], [])"
proof -
  have "atomic_reach rq0 False [] rq0 []"
    by (simp add: atomic_reach_def exI [of _ "m_was_cancelled rq0"])
  then show ?thesis by (rule simulated_chain [where src = None and c = "Running None"]) (simp_all add: pending_def)
qed

lemma locked_reachable_simulated: "locked_reachable rq0 st \<Longrightarrow> simulated rq0 st"
proof (induction rule: locked_reachable.induct)
  case start
  show ?case by (rule simulated_start)
next
  case (step st st')
  with simulated_step locked_reachable_exclusive [OF step.hyps(1)] show ?case
    by (cases st; cases st') auto
qed

lemma locked_request_simulated:
  assumes "locked_reachable rq0 (ps, rq, w, tr)"
  shows "filter visible tr = [] \<and> filter chain_place ps \<noteq> [] \<or>
    (\<exists>f evs p s atr. request_run evs (rq0\<lparr>m_was_cancelled := f\<rparr>) = (p, s, atr) \<and>
       filter visible tr = filter visible atr \<and> (filter chain_place ps = [] \<longrightarrow> p = w \<and> s = rq))"
  using locked_reachable_simulated [OF assms]
proof (cases rule: simulatedE)
  case (idle atr)
  then show ?thesis by (auto simp: atomic_reach_def)
next
  case (chain b p s atr c src)
  show ?thesis
  proof (cases b)
    case True
    with chain(1) obtain f evs where "request_run evs (rq0\<lparr>m_was_cancelled := f\<rparr>) = (p, s, atr)"
      by (auto simp: atomic_reach_def)
    with chain(2,3) show ?thesis by (intro disjI2 exI) simp
  next
    case False
    with chain show ?thesis by (simp add: atomic_reach_def)
  qed
qed

text \<open>C4: The locking makes the steps of a request atomic: whatever any number of threads do with \<^verbatim>\<open>cancel\<close> and however the moves
  between the lock operations interleave, the operations a request starts, its log, its callback with all
  arguments and its faults are those of a run of the model in which handlers and cancellations are single
  steps; and when no handler is under way, the waiting operation and the request are the same too.\<close>

theorem locked_request_refines:
  assumes "locked_reachable rq0 (ps, rq, w, tr)"
  shows "filter visible tr = [] \<and> filter chain_place ps \<noteq> [] \<or>
    (\<exists>f evs p s atr. request_run evs (rq0\<lparr>m_was_cancelled := f\<rparr>) = (p, s, atr) \<and>
       filter visible tr = filter visible atr \<and> (filter chain_place ps = [] \<longrightarrow> p = w \<and> s = rq))"
  using assms by (rule locked_request_simulated)

text \<open>The callback, counted at the level of the mutex.\<close>

lemma callback_count_visible: "callback_count (filter visible as) = callback_count as"
  by (induction as) (auto simp: callback_count_def is_callback_def visible_def split: action.splits)

lemma locked_callback_at_most_once:
  assumes "locked_reachable rq0 (ps, rq, w, tr)"
  shows "callback_count tr \<le> 1"
  using locked_request_simulated [OF assms]
proof (elim disjE exE conjE)
  fix f evs p s atr
  assume "request_run evs (rq0\<lparr>m_was_cancelled := f\<rparr>) = (p, s, atr)" and "filter visible tr = filter visible atr"
  then show ?thesis using request_run_count(2) callback_count_visible [of tr] callback_count_visible [of atr] by metis
qed (use callback_count_visible [of tr] in \<open>simp add: callback_count_def\<close>)

subsection \<open>After a cancellation\<close>

fun is_starting :: "place \<Rightarrow> bool" where
  "is_starting (Starting k op) = True"
| "is_starting _ = False"

lemma is_starting_holds: "is_starting p \<Longrightarrow> holds_mux p"
  by (cases p) auto

definition none_starts :: "place list \<Rightarrow> http_request \<Rightarrow> bool" where
  "none_starts ps rq \<longleftrightarrow> m_was_cancelled rq \<longrightarrow> list_all (\<lambda>p. \<not> is_starting p) ps"

lemma place_step_cancelled:
  assumes "place_step ps p (rq, w, tr) p' (rq', w', tr')" and "m_was_cancelled rq" and "\<not> is_starting p"
  shows "m_was_cancelled rq' \<and> \<not> is_starting p' \<and> conts tr' = conts tr"
  using assms
  by (cases rule: place_step.cases)
     (auto simp: prepare_actions(2) prepare_actions(3) request_on_finish_def
       dest: prepare_keeps_flag split: option.splits)

lemma place_step_sets_flag:
  "place_step ps p (rq, w, tr) p' (rq', w', tr') \<Longrightarrow> \<not> m_was_cancelled rq \<Longrightarrow> m_was_cancelled rq' \<Longrightarrow>
   holds_mux p \<and> \<not> is_starting p \<and> \<not> is_starting p'"
  by (erule place_stepE) (auto simp: request_on_finish_def dest: prepare_keeps_flag split: option.splits)

text \<open>The thread that sets the flag holds the mutex, so no other place is between its test and its start.\<close>

lemma none_starts_move:
  assumes "none_starts ps rq" and "mux_exclusive ps" and i: "i < length ps"
    and move: "place_step ps (ps ! i) (rq, w, tr) p' (rq', w', tr')"
  shows "none_starts (ps[i := p']) rq'"
proof (cases "m_was_cancelled rq")
  case True
  with assms(1) i have "list_all (\<lambda>p. \<not> is_starting p) ps" "\<not> is_starting (ps ! i)"
    by (auto simp: none_starts_def list_all_length)
  with place_step_cancelled [OF move True] show ?thesis by (simp add: none_starts_def list_all_update)
next
  case False
  have "\<not> is_starting (ps[i := p'] ! j)" if "m_was_cancelled rq'" and j: "j < length ps" for j
  proof (cases "j = i")
    case True
    with place_step_sets_flag [OF move False that(1)] j show ?thesis by simp
  next
    case other: False
    then have "holds_mux (ps ! j) \<Longrightarrow> False"
      using two_in_filter [OF i j, of holds_mux] place_step_sets_flag [OF move False that(1)] assms(2)
      by (auto simp: mux_exclusive_def)
    with other is_starting_holds show ?thesis by auto
  qed
  then show ?thesis by (simp add: none_starts_def list_all_length)
qed

lemma none_starts_step:
  assumes "locked_step (ps, rq, w, tr) (ps', rq', w', tr')" and "none_starts ps rq" and "mux_exclusive ps"
  shows "none_starts ps' rq'"
  using assms(1)
proof (rule locked_stepE)
  fix i p assume "ps' = ps[i := p]" "i < length ps" "place_step ps (ps ! i) (rq, w, tr) p (rq', w', tr')"
  with none_starts_move [OF assms(2,3)] show ?thesis by blast
qed (use assms(2) in \<open>auto simp: none_starts_def\<close>)

lemma locked_reachable_none_starts: "locked_reachable rq0 st \<Longrightarrow> case st of (ps, rq, w, tr) \<Rightarrow> none_starts ps rq"
proof (induction rule: locked_reachable.induct)
  case (step st st')
  with none_starts_step locked_reachable_exclusive [OF step.hyps(1)] show ?case by (cases st; cases st') auto
qed (simp add: none_starts_def)

lemma locked_step_cancelled:
  assumes "locked_step (ps, rq, w, tr) (ps', rq', w', tr')" and "none_starts ps rq" and flag: "m_was_cancelled rq"
  shows "m_was_cancelled rq' \<and> conts tr' = conts tr"
  using assms(1)
proof (rule locked_stepE)
  fix i p assume "i < length ps" and move: "place_step ps (ps ! i) (rq, w, tr) p (rq', w', tr')"
  with assms(2) flag have "\<not> is_starting (ps ! i)" by (auto simp: none_starts_def list_all_length)
  from place_step_cancelled [OF move flag this] show ?thesis by simp
qed (use flag in auto)

text \<open>C5: Once some thread has set the cancellation flag under the mutex, a request never starts another operation: in every
  continuation of every schedule, the operations started stay the same and the flag stays set, however handlers that
  were already under way and further calls of \<^verbatim>\<open>cancel\<close> interleave.\<close>

theorem no_start_after_cancel:
  assumes "locked_reachable rq0 (ps, rq, w, tr)" and "m_was_cancelled rq"
    and "locked_step\<^sup>*\<^sup>* (ps, rq, w, tr) (ps', rq', w', tr')"
  shows "m_was_cancelled rq' \<and> conts tr' = conts tr"
proof -
  have "locked_reachable rq0 st \<and> m_was_cancelled (fst (snd st)) \<and> conts (snd (snd (snd st))) = conts tr"
    if "locked_step\<^sup>*\<^sup>* (ps, rq, w, tr) st" for st
    using that
  proof (induction rule: rtranclp_induct)
    case (step st1 st2)
    then have "case st1 of (ps, rq, w, tr) \<Rightarrow> none_starts ps rq" by (blast dest: locked_reachable_none_starts)
    with step locked_step_cancelled locked_reachable.step [OF _ step.hyps(2)] show ?case
      by (cases st1; cases st2) fastforce
  qed (use assms in simp)
  from this [OF assms(3)] show ?thesis by simp
qed

subsection \<open>Moves that the mutex does not order\<close>

lemma last_step:
  assumes "place_step (ps @ [p]) p sh p' sh'"
  shows "locked_step (ps @ [p], sh) (ps @ [p'], sh')"
proof -
  have "locked_step (ps @ [p], sh) ((ps @ [p])[length ps := p'], sh')"
    by (rule locked_step.move) (use assms in simp_all)
  then show ?thesis by simp
qed

lemma move_last:
  "locked_reachable rq0 (ps @ [p], sh) \<Longrightarrow> place_step (ps @ [p]) p sh p' sh' \<Longrightarrow> locked_reachable rq0 (ps @ [p'], sh')"
  using locked_reachable.step last_step by blast

text \<open>A handler that meets no \<^verbatim>\<open>cancel\<close>, from its first move to the end of the scope of its lock.\<close>

lemma undisturbed_round:
  assumes "locked_reachable rq0 (ps @ [Running src], rq, [], tr)" and "mux_free ps"
    and "prepare src rq = (rq', as, Try_Start k op)" and "\<not> m_was_cancelled rq'"
  shows "locked_reachable rq0 (ps @ [Returned], rq', [k], tr @ as @ [Start k op])"
proof -
  have free: "mux_free (ps @ [Before_Lock k op])" using assms(2) by (simp add: mux_free_def)
  note moved = move_last [OF move_last [OF move_last [OF move_last [OF move_last [OF assms(1)
      place_step.run_to_lock [OF assms(3)]] place_step.lock [OF free]] place_step.test_not_cancelled [OF assms(4)]]
      place_step.start_operation] place_step.unlock]
  then show ?thesis by simp
qed

lemma undisturbed_completion:
  assumes "locked_reachable rq0 (ps, rq, [k], tr)"
  shows "locked_reachable rq0 (ps @ [Running (Some (k, r))], rq, [], tr)"
  using locked_reachable.step [OF assms locked_step.completes [of 0 "[k]"]] by simp

definition request_success :: request_result where
  "request_success = \<lparr>rr_ec = no_error, rr_data = [], rr_shutdown = no_error\<rparr>"

lemma request_success_sel [simp]: "rr_ec request_success = no_error" "rr_data request_success = []"
  by (simp_all add: request_success_def)

text \<open>The request object of a program that is about to call \<^verbatim>\<open>execute\<close>.\<close>

definition executable :: "http_request \<Rightarrow> bool" where
  "executable rq \<longleftrightarrow> m_port rq > 0 \<and> m_host rq \<noteq> [] \<and> m_uri rq \<noteq> [] \<and> m_callback rq \<noteq> None \<and> \<not> m_was_cancelled rq"

lemma undisturbed_execute:
  assumes "executable rq0"
  shows "locked_reachable rq0 ([Returned], rq0, [On_Host_Name_Resolved],
    [Start On_Host_Name_Resolved (Async_Resolve (m_host rq0) (to_string_u32 (m_port rq0)))])"
  using undisturbed_round [of rq0 "[]" None rq0 "[]"] locked_reachable.start [of rq0] assms
  by (simp add: mux_free_def execute_prepare_def executable_def)

lemma undisturbed_handler:
  assumes "locked_reachable rq0 (ps, rq, [k], tr)" and "mux_free ps"
    and "request_prepare k request_success rq = (rq', as, Try_Start k' op)" and "\<not> m_was_cancelled rq'"
  shows "\<exists>tr'. locked_reachable rq0 (ps @ [Returned], rq', [k'], tr')"
  using undisturbed_round [OF undisturbed_completion [OF assms(1)] assms(2)] assms(3,4) by fastforce

lemma undisturbed_until_sent:
  assumes "executable rq0"
  shows "\<exists>tr. locked_reachable rq0
    ([Returned, Returned, Returned, Running (Some (On_Request_Sent, request_success))], compose_request rq0, [], tr)"
proof -
  obtain tr2 where "locked_reachable rq0 ([Returned] @ [Returned], rq0, [On_Connection_Established], tr2)"
    using undisturbed_handler [OF undisturbed_execute [OF assms]] assms
    by (auto simp: mux_free_def executable_def request_prepare_def)
  then obtain tr3 where
    "locked_reachable rq0 (([Returned] @ [Returned]) @ [Returned], compose_request rq0, [On_Request_Sent], tr3)"
    using undisturbed_handler [of rq0 "[Returned] @ [Returned]" rq0 On_Connection_Established] assms
    by (fastforce simp: mux_free_def executable_def request_prepare_def compose_request_def)
  from undisturbed_completion [OF this, of request_success] show ?thesis by auto
qed

text \<open>C24: The mutex does not cover every use of the socket: \<^verbatim>\<open>on_request_sent\<close> shuts the socket down before it takes the
  lock, so for every request that is executed there is a schedule in which that call and the \<^verbatim>\<open>m_sock.cancel()\<close> of another
  thread are both about to happen and neither waits for the other.\<close>

theorem socket_used_without_mutex:
  assumes "executable rq0"
  shows "\<exists>ps rq tr. locked_reachable rq0
      (ps @ [Running (Some (On_Request_Sent, request_success)), Cancel_Socket_Call True no_error], rq, [], tr) \<and>
    fst (snd (prepare (Some (On_Request_Sent, request_success)) rq)) = [Shutdown shutdown_send]"
proof -
  let ?ps = "[Returned, Returned, Returned, Running (Some (On_Request_Sent, request_success))]"
  obtain tr where "locked_reachable rq0 (?ps, compose_request rq0, [], tr)"
    using undisturbed_until_sent [OF assms] by blast
  from locked_reachable.step [OF this locked_step.cancel_called [where is_open = True and ec = no_error]]
  have called: "locked_reachable rq0 (?ps @ [Cancel_Entry True no_error], compose_request rq0, [], tr)" .
  have "mux_free (?ps @ [Cancel_Entry True no_error])" by (simp add: mux_free_def)
  note cancelling = move_last [OF move_last [OF move_last [OF called place_step.cancel_lock [OF this]]
      place_step.cancel_flag] place_step.cancel_resolver]
  then show ?thesis
    by (intro exI [of _ "[Returned, Returned, Returned]"] exI [of _ "compose_request rq0\<lparr>m_was_cancelled := True\<rparr>"])
       (auto simp: request_prepare_def)
qed

subsection \<open>Witnesses\<close>

lemma demo_executable: "executable demo_request"
  by (simp add: executable_def demo_request_def create_request_def set_callback_def set_uri_def set_host_def DEFAULT_PORT_def)

theorem socket_used_without_mutex_witness:
  "\<exists>ps rq tr. locked_reachable demo_request
     (ps @ [Running (Some (On_Request_Sent, request_success)), Cancel_Socket_Call True no_error], rq, [], tr)"
  using socket_used_without_mutex [OF demo_executable] by blast

theorem locked_request_refines_witness:
  "\<exists>tr. locked_reachable demo_request ([Returned], demo_request, [On_Host_Name_Resolved], tr) \<and> filter visible tr \<noteq> [] \<and>
    (\<exists>f evs s atr. request_run evs (demo_request\<lparr>m_was_cancelled := f\<rparr>) = ([On_Host_Name_Resolved], s, atr) \<and>
       filter visible tr = filter visible atr)"
proof -
  note reach = undisturbed_execute [OF demo_executable]
  let ?tr = "[Start On_Host_Name_Resolved (Async_Resolve (m_host demo_request) (to_string_u32 (m_port demo_request)))]"
  have "\<exists>f evs s atr. request_run evs (demo_request\<lparr>m_was_cancelled := f\<rparr>) = ([On_Host_Name_Resolved], s, atr) \<and>
      filter visible ?tr = filter visible atr"
    using locked_request_refines [OF reach] by simp blast
  with reach show ?thesis by (intro exI [of _ ?tr]) simp
qed

text \<open>While the host name of the request is being resolved it is cancelled; then the resolver is told and the resolution
  completes.\<close>

theorem no_start_after_cancel_witness:
  "\<exists>ps rq w tr ps' w' tr'. locked_reachable demo_request (ps, rq, w, tr) \<and> m_was_cancelled rq \<and>
     locked_step\<^sup>*\<^sup>* (ps, rq, w, tr) (ps' @ [Running (Some (On_Host_Name_Resolved, request_success))], rq, w', tr') \<and>
     conts tr' = conts tr"
proof -
  let ?rq = "demo_request\<lparr>m_was_cancelled := True\<rparr>" and ?h = "On_Host_Name_Resolved"
  let ?tr = "[Start ?h (Async_Resolve (m_host demo_request) (to_string_u32 (m_port demo_request)))]"
  have "mux_free ([Returned] @ [Cancel_Entry False no_error])" by (simp add: mux_free_def)
  note flagged = move_last [OF move_last [OF locked_reachable.step [OF undisturbed_execute [OF demo_executable]
      locked_step.cancel_called [where is_open = False and ec = no_error]] place_step.cancel_lock [OF this]] place_step.cancel_flag]
  have "locked_step ([Returned] @ [Cancel_Resolver_Call False no_error], ?rq, [?h], ?tr)
      ([Returned] @ [Returned], ?rq, [?h], ?tr @ [Cancel_Resolver])"
    by (rule last_step, rule place_step.cancel_resolver [where is_open = False, simplified])
  moreover have "locked_step ([Returned] @ [Returned], ?rq, [?h], ?tr @ [Cancel_Resolver])
      (([Returned] @ [Returned]) @ [Running (Some (?h, request_success))], ?rq, [], ?tr @ [Cancel_Resolver])"
    by (rule locked_step.completes [of 0 "[?h]", simplified])
  ultimately have "locked_step\<^sup>*\<^sup>* ([Returned] @ [Cancel_Resolver_Call False no_error], ?rq, [?h], ?tr)
      (([Returned] @ [Returned]) @ [Running (Some (?h, request_success))], ?rq, [], ?tr @ [Cancel_Resolver])" by simp
  with no_start_after_cancel [OF flagged _ this] flagged show ?thesis by fastforce
qed

end
