(* ===== verification/Http_Header_Parsers.thy ===== *)
theory Http_Header_Parsers
  imports Http_Service_Properties Http_Client_Properties
begin

section \<open>The two parsers of header fields\<close>

text \<open>
  The server of chapter 5 reads header fields with \<^verbatim>\<open>getline\<close> up to a colon and then up to a CR
  (\<^verbatim>\<open>Service::on_headers_received\<close>), the client reads whole lines and searches them for a colon
  (\<^verbatim>\<open>HTTPRequest::on_headers_received\<close>). On lines with a colon they store the same fields; a line without one is
  skipped by the client and becomes part of the next name in the server.
\<close>

text \<open>The lines of a message, each with its CR LF, and the field that a line with a colon stands for.\<close>

definition message_lines :: "string list \<Rightarrow> bytes" where
  "message_lines ls = concat (map (\<lambda>l. l @ CRLF) ls)"

lemma message_lines_simps [simp]:
  "message_lines [] = []" "message_lines (l # ls) = l @ CRLF @ message_lines ls"
  by (simp_all add: message_lines_def)

definition field_of_line :: "string \<Rightarrow> string \<times> string" where
  "field_of_line l = (takeWhile (\<lambda>c. c \<noteq> CHR '':'') l, tl (dropWhile (\<lambda>c. c \<noteq> CHR '':'') l))"

definition field_line :: "string \<Rightarrow> bool" where
  "field_line l \<longleftrightarrow> CHR '':'' \<in> set l \<and> CR \<notin> set l"

lemma field_of_line_split:
  "CHR '':'' \<in> set l \<Longrightarrow> l = fst (field_of_line l) @ CHR '':'' # snd (field_of_line l)"
proof (induction l)
  case (Cons c l)
  then show ?case by (cases "c = CHR '':''") (auto simp: field_of_line_def)
qed simp

lemma field_of_line_clean:
  assumes "field_line l"
  shows "clean_response_header (field_of_line l)" and "clean_request_header (field_of_line l)"
proof -
  from assms have "CHR '':'' \<in> set l" by (simp add: field_line_def)
  from field_of_line_split [OF this] have "set l = set (fst (field_of_line l)) \<union> {CHR '':''} \<union> set (snd (field_of_line l))"
    by (metis Un_insert_right list.simps(15) set_append sup_bot.right_neutral Un_insert_left Un_assoc insert_is_Un)
  moreover have "CHR '':'' \<notin> set (fst (field_of_line l))"
    by (auto simp: field_of_line_def dest: set_takeWhileD)
  ultimately show "clean_response_header (field_of_line l)" and "clean_request_header (field_of_line l)"
    using assms by (auto simp: clean_response_header_def clean_request_header_def field_line_def)
qed

lemma message_lines_block:
  "list_all field_line ls \<Longrightarrow> message_lines ls = header_block (map field_of_line ls)"
proof (induction ls)
  case (Cons l ls)
  then have "CHR '':'' \<in> set l" by (simp add: field_line_def)
  with Cons field_of_line_split [OF this] show ?case
    by (simp add: header_line_def)
qed simp

text \<open>C28: The header parsers of client and server are equivalent on messages whose header lines all have a colon: from the
  same lines and the same stored fields, both loops stop and both leave exactly the same map of fields, whatever
  the values contain (further colons included), with empty names and values and with repeated names.\<close>

theorem header_parsers_agree:
  assumes "list_all field_line ls"
  shows "\<exists>st st' fields.
    response_header_loop (open_istream (message_lines ls @ CRLF @ body)) header rsp = Some (st, rsp\<lparr>m_headers := fields\<rparr>) \<and>
    request_header_loop (open_istream (message_lines ls @ CRLF)) name value (m_headers rsp) = Some (st', fields)"
proof -
  let ?hs = "map field_of_line ls"
  from assms have clean: "\<forall>nv \<in> set ?hs. clean_response_header nv" "\<forall>nv \<in> set ?hs. clean_request_header nv"
    by (auto simp: list_all_iff field_of_line_clean)
  have "response_header_loop (open_istream (message_lines ls @ CRLF @ body)) header rsp
      = Some (open_istream body, rsp\<lparr>m_headers := m_headers rsp ++ map_of (rev ?hs)\<rparr>)"
    unfolding message_lines_block [OF assms] by (rule response_header_loop_block [OF clean(1)])
  moreover have "request_header_loop (open_istream (message_lines ls @ CRLF)) name value (m_headers rsp)
      = Some (\<lparr>rdbuf = [], eofbit = True, failbit = (CRLF = [])\<rparr>, m_headers rsp ++ map_of (rev ?hs))"
    unfolding message_lines_block [OF assms] by (rule request_header_loop_block [OF clean(2)]) simp
  ultimately show ?thesis by blast
qed

theorem header_parsers_agree_witness:
  "\<exists>st st' fields.
    response_header_loop (open_istream (message_lines [''Host: a:80'', ''X:'', ''X:y''] @ CRLF @ ''body'')) [] new_response
      = Some (st, new_response\<lparr>m_headers := fields\<rparr>) \<and>
    request_header_loop (open_istream (message_lines [''Host: a:80'', ''X:'', ''X:y''] @ CRLF)) [] [] (m_headers new_response)
      = Some (st', fields)"
  by (rule header_parsers_agree) (simp add: field_line_def)

text \<open>C29: They differ on a header line without a colon: the client skips it and stores the field of the next line under its
  own name, the server stores that value under a name that consists of both lines and the line break between
  them, so the real field is lost.\<close>

theorem colonless_line_merged_by_server:
  assumes "l \<noteq> []" and "CHR '':'' \<notin> set l" and "CR \<notin> set l" and "clean_response_header (n, v)"
  shows "\<exists>st st'.
    response_header_loop (open_istream (l @ CRLF @ header_line (n, v) @ CRLF @ body)) header rsp
      = Some (st, rsp\<lparr>m_headers := (m_headers rsp)(n \<mapsto> v)\<rparr>) \<and>
    request_header_loop (open_istream (l @ CRLF @ header_line (n, v) @ CRLF)) name value (m_headers rsp)
      = Some (st', (m_headers rsp)(l @ CRLF @ n \<mapsto> v))"
proof -
  have "add_header_line l rsp = rsp" using assms(2) by (simp add: add_header_line_def)
  then have "response_header_loop (open_istream (l @ CRLF @ header_block [(n, v)] @ CRLF @ body)) header rsp
      = response_header_loop (open_istream (header_block [(n, v)] @ CRLF @ body)) l rsp"
    using response_header_loop_line [OF assms(3,1), of "header_block [(n, v)] @ CRLF @ body" header rsp] by simp
  also have "\<dots> = Some (open_istream body, rsp\<lparr>m_headers := m_headers rsp ++ map_of (rev [(n, v)])\<rparr>)"
    by (rule response_header_loop_block) (use assms(4) in simp)
  finally have client: "response_header_loop (open_istream (l @ CRLF @ header_line (n, v) @ CRLF @ body)) header rsp
      = Some (open_istream body, rsp\<lparr>m_headers := (m_headers rsp)(n \<mapsto> v)\<rparr>)" by simp
  have clean: "\<forall>nv \<in> set [(l @ CRLF @ n, v)]. clean_request_header nv"
    using assms(2,4) by (simp add: clean_request_header_def clean_response_header_def)
  have "request_header_loop (open_istream (header_block [(l @ CRLF @ n, v)] @ CRLF)) name value (m_headers rsp)
      = Some (\<lparr>rdbuf = [], eofbit = True, failbit = (CRLF = [])\<rparr>, m_headers rsp ++ map_of (rev [(l @ CRLF @ n, v)]))"
    by (rule request_header_loop_block [OF clean]) simp
  with client show ?thesis by (simp add: header_line_def)
qed

theorem colonless_line_merged_by_server_witness:
  "\<exists>st st'.
    response_header_loop (open_istream (''bad'' @ CRLF @ header_line (''Host'', ''x'') @ CRLF @ [])) [] new_response
      = Some (st, new_response\<lparr>m_headers := (m_headers new_response)(''Host'' \<mapsto> ''x'')\<rparr>) \<and>
    request_header_loop (open_istream (''bad'' @ CRLF @ header_line (''Host'', ''x'') @ CRLF)) [] [] (m_headers new_response)
      = Some (st', (m_headers new_response)(''bad'' @ CRLF @ ''Host'' \<mapsto> ''x''))"
  by (rule colonless_line_merged_by_server) (simp_all add: clean_response_header_def)

end
