(* ===== verification/Http_State_Types.thy ===== *)
theory Http_State_Types
  imports Http_Service_Properties Http_Client_Properties
begin

section \<open>The types of waiting objects\<close>

text \<open>
  What the data members of a service and of a request hold depends on the operation they wait for. The two
  typings below say so, member by member, and the chains preserve them (\<open>run_typed\<close>), whatever completes with whatever
  result. Consequences are that the server never sends a response with an unknown status or without its buffer, and that
  a callback that is told success never meets the status code that the constructor leaves indeterminate.
\<close>

subsection \<open>The service of the HTTP server\<close>

fun service_type :: "service_handler \<Rightarrow> service \<Rightarrow> bool" where
  "service_type On_Request_Line_Received s = (s = new_service)"
| "service_type On_Headers_Received s =
     (m_response_status_code s = 200 \<and> m_resource_size_bytes s = 0 \<and> m_resource_buffer s = None \<and>
      m_request_headers s = Map.empty \<and> m_response_headers s = [] \<and> m_response_status_line s = [] \<and>
      list_all (\<lambda>c. \<not> is_space c) (m_requested_resource s))"
| "service_type On_Response_Sent s =
     (\<exists>status. http_status_table (m_response_status_code s) = Some status \<and>
        m_response_status_line s = ''HTTP/1.1 '' @ status @ CRLF \<and> suffix CRLF (m_response_headers s) \<and>
        (m_resource_size_bytes s > 0 \<longrightarrow>
           (\<exists>b. m_resource_buffer s = Some b \<and> length b = unat (m_resource_size_bytes s))))"

lemma send_response_type:
  assumes "service_ok s" and "k \<in> set (conts (snd (send_response env s)))"
  shows "service_type k (fst (send_response env s))"
  using assms
  by (auto simp: send_response_def service_ok_def resource_view_def suffix_def Let_def split: option.splits if_splits)

lemma extract_word_no_space:
  "list_all (\<lambda>c. \<not> is_space c) w \<Longrightarrow> list_all (\<lambda>c. \<not> is_space c) (fst (extract_word st w))"
  by (auto simp: extract_word_def Let_def list_all_iff dest: set_takeWhileD)

lemma request_line_type:
  assumes "k' \<in> set (conts (snd (on_request_line_received env ec (new_service\<lparr>m_request := d\<rparr>))))"
  shows "service_type k' (fst (on_request_line_received env ec (new_service\<lparr>m_request := d\<rparr>)))"
  using assms extract_word_no_space [of "[]"]
  by (auto simp: on_request_line_received_def on_finish_def Let_def case_prod_beta new_service_ok service_ok_status
      intro!: send_response_type split: if_splits)
     (simp_all add: new_service_def)

lemma headers_type:
  assumes "service_ok s" and "k' \<in> set (conts (snd (on_headers_received env ec s)))"
  shows "service_type k' (fst (on_headers_received env ec s))"
proof (cases "is_error ec")
  case True
  with assms show ?thesis
    by (auto simp: on_headers_received_def on_finish_def case_prod_beta service_ok_status intro!: send_response_type
        split: if_splits)
next
  case False
  obtain st h where loop: "request_header_loop (open_istream (m_request s)) [] [] (m_request_headers s) = Some (st, h)"
    using request_header_loop_total [of "open_istream (m_request s)"] by force
  let ?s1 = "s\<lparr>m_request := rdbuf st, m_request_headers := h\<rparr>"
  obtain s2 f where pr: "process_request env ?s1 = (s2, f)" by (cases "process_request env ?s1")
  from process_request_ok [OF _ pr] assms(1) have "f = None \<longrightarrow> service_ok s2" by simp
  with False assms(2) loop pr show ?thesis
    by (cases f) (auto simp: on_headers_received_def Let_def intro: send_response_type)
qed

lemma service_step_type:
  assumes "service_type k s" and "k' \<in> set (conts (snd (service_step k r s)))"
  shows "service_type k' (fst (service_step k r s))"
proof (cases k)
  case On_Request_Line_Received
  with assms request_line_type show ?thesis by (simp add: service_step_def)
next
  case On_Headers_Received
  with assms(1) have "service_ok s" by (simp add: service_ok_def http_status_table_dom)
  with On_Headers_Received assms(2) headers_type show ?thesis by (simp add: service_step_def)
next
  case On_Response_Sent
  with assms(2) response_sent_shape show ?thesis by (simp add: service_step_def Let_def)
qed

text \<open>C18: A service is well typed at every moment: while it waits for the request line it is as the constructor made it,
  while it waits for the header fields it has status 200, no resource and a path without white space, and while it
  waits for the end of its write its status is in the table, its status line is the one of that status, its
  header fields end with a line break and its buffer has exactly the announced size.\<close>

theorem service_well_typed:
  "case service_run evs of (p, s, tr) \<Rightarrow> list_all (\<lambda>k. service_type k s) p"
proof -
  obtain p s tr where run: "service_run evs = (p, s, tr)" by (cases "service_run evs")
  have "(\<forall>k \<in> set p. service_type k s) \<and> list_all (\<lambda>a. True) tr"
    by (rule svc.run_typed [where T = service_type and p = "[On_Request_Line_Received]" and s = new_service and
          tr = "[Start On_Request_Line_Received (Async_Read_Until CRLF)]" and evs = evs])
       (use run service_step_type in \<open>auto simp: service_run_def chain_begin_def start_handling_def no_external_def list_all_iff\<close>)
  with run show ?thesis by (simp add: list_all_iff)
qed

subsection \<open>The request of the HTTP client\<close>

definition request_text :: "http_request \<Rightarrow> bytes" where
  "request_text rq = ''GET '' @ m_uri rq @ '' HTTP/1.1'' @ CRLF @ ''Host: '' @ m_host rq @ CRLF @ CRLF"

fun request_type :: "request_handler \<Rightarrow> http_request \<Rightarrow> bool" where
  "request_type On_Host_Name_Resolved rq =
     (m_request_buf rq = [] \<and> m_status_code (m_response rq) = None \<and> m_headers (m_response rq) = Map.empty)"
| "request_type On_Connection_Established rq =
     (m_request_buf rq = [] \<and> m_status_code (m_response rq) = None \<and> m_headers (m_response rq) = Map.empty)"
| "request_type On_Request_Sent rq =
     (m_request_buf rq = request_text rq \<and> m_status_code (m_response rq) = None \<and> m_headers (m_response rq) = Map.empty)"
| "request_type On_Status_Line_Received rq =
     (m_request_buf rq = request_text rq \<and> m_status_code (m_response rq) = None \<and> m_headers (m_response rq) = Map.empty)"
| "request_type On_Response_Headers_Received rq =
     (m_request_buf rq = request_text rq \<and> m_status_code (m_response rq) \<noteq> None \<and> m_headers (m_response rq) = Map.empty)"
| "request_type On_Response_Body_Received rq =
     (m_request_buf rq = request_text rq \<and> m_status_code (m_response rq) \<noteq> None)"

text \<open>A callback that is told success can read the status code.\<close>

definition success_has_status :: "request_action \<Rightarrow> bool" where
  "success_has_status a = (case a of
     Callback (cb, rq, ec) \<Rightarrow> ec = no_error \<longrightarrow> m_status_code (m_response rq) \<noteq> None | _ \<Rightarrow> True)"

lemma success_has_status_simps [simp]:
  "success_has_status (Start k op)" "success_has_status (Log ec)" "success_has_status (Shutdown h)"
  "success_has_status (Throw f)" "success_has_status Hang" "success_has_status Cancel_Resolver"
  "success_has_status Cancel_Socket" "success_has_status (Raise f)"
  "success_has_status (Callback (cb, rq, ec)) \<longleftrightarrow> (ec = no_error \<longrightarrow> m_status_code (m_response rq) \<noteq> None)"
  by (simp_all add: success_has_status_def)

lemma finish_success:
  "ec = no_error \<longrightarrow> m_status_code (m_response rq) \<noteq> None \<Longrightarrow> list_all success_has_status (snd (request_on_finish ec rq))"
  by (auto simp: request_on_finish_def split: option.split)

lemma start_success: "list_all success_has_status (snd (start_unless_cancelled k op rq))"
  by (simp add: start_unless_cancelled_def finish_success)

lemma invalid_response_error [simp]: "make_error_code invalid_response \<noteq> no_error"
  by (simp add: make_error_code_def no_error_def)

lemma response_header_loop_status:
  assumes "response_header_loop st header rsp = Some (st', rsp')"
  shows "m_status_code rsp' = m_status_code rsp"
proof -
  have "m_status_code (snd res) = m_status_code rsp" if "response_header_loop st header rsp = Some res" for res
    using that
  proof (rule response_header_loop.raw_induct [where P = "\<lambda>st header rsp res. m_status_code (snd res) = m_status_code rsp", rotated])
    fix f st header rsp and res :: "istream \<times> http_response"
    assume "\<And>st header rsp res. f st header rsp = Some res \<Longrightarrow> m_status_code (snd res) = m_status_code rsp"
      and "(let (header1, st1) = getline CR st header; st2 = get_char st1
         in if header1 = [] then Some (st2, rsp) else f st2 header1 (add_header_line header1 rsp)) = Some res"
    moreover have "m_status_code (add_header_line l rsp) = m_status_code rsp" for l
      by (simp add: add_header_line_def add_header_def Let_def)
    ultimately show "m_status_code (snd res) = m_status_code rsp"
      by (auto simp: Let_def case_prod_beta split: if_splits)
  qed
  from this [OF assms] show ?thesis by simp
qed

lemma request_text_frame [simp]:
  "request_text (rq\<lparr>m_response := rsp\<rparr>) = request_text rq" "request_text (rq\<lparr>m_request_buf := b\<rparr>) = request_text rq"
  "request_text (rq\<lparr>m_was_cancelled := f\<rparr>) = request_text rq"
  by (simp_all add: request_text_def)

lemma request_step_type:
  assumes "request_type k rq"
  shows "(\<forall>k' \<in> set (conts (snd (request_step k r rq))). request_type k' (fst (request_step k r rq))) \<and>
    list_all success_has_status (snd (request_step k r rq))"
proof -
  have err: "is_error ec \<Longrightarrow> ec \<noteq> no_error" for ec by auto
  show ?thesis
    using assms
    by (cases k)
       (auto simp: request_step_def request_handler_defs request_text_def set_buf_def set_status_code_def
         set_status_message_def Let_def case_prod_beta finish_success start_success
         dest!: response_header_loop_status dest: err split: sum.splits option.splits if_splits)
qed

lemma request_external_type:
  "request_type k rq \<Longrightarrow> request_type k (fst (request_external e rq))"
  by (cases e; cases k) (simp_all add: request_text_def)

lemma request_external_success: "list_all success_has_status (snd (request_external e rq))"
  by (cases e) simp

text \<open>A request object as \<^verbatim>\<open>create_request\<close> makes it, with any host, port, URI and callback set.\<close>

definition fresh_request :: "http_request \<Rightarrow> bool" where
  "fresh_request rq \<longleftrightarrow> m_request_buf rq = [] \<and> m_response rq = new_response"

lemma execute_type:
  assumes "fresh_request rq"
  shows "(\<forall>k \<in> set (conts (snd (execute rq))). request_type k (fst (execute rq))) \<and>
    list_all success_has_status (snd (execute rq))"
  using assms
  by (auto simp: execute_def fresh_request_def new_response_def start_success finish_success start_unless_cancelled_def)

text \<open>C19: A request is well typed at every moment, under any interleaving with \<^verbatim>\<open>cancel\<close>: its message is empty until it is
  connected and complete from then on, its status code is set exactly from the moment the status line has been read, and
  the callback, whenever it is told success, is given a response with a status code; the value that the constructor
  leaves indeterminate is never visible to it.\<close>

theorem request_well_typed:
  assumes "fresh_request rq"
  shows "case request_run evs rq of (p, s, tr) \<Rightarrow>
    list_all (\<lambda>k. request_type k s) p \<and> list_all success_has_status tr"
proof -
  obtain p s tr where run: "request_run evs rq = (p, s, tr)" by (cases "request_run evs rq")
  obtain s0 as0 where ex: "execute rq = (s0, as0)" by (cases "execute rq")
  have "(\<forall>k \<in> set p. request_type k s) \<and> list_all success_has_status tr"
    by (rule rq.run_typed [where T = request_type and p = "conts as0" and s = s0 and tr = as0 and evs = evs])
       (use run ex execute_type [OF assms] execute_shape [of rq] request_step_type request_external_type
          request_external_success in \<open>simp_all add: request_run_def chain_begin_def next_or_end_def\<close>)
  with run show ?thesis by (simp add: list_all_iff)
qed

theorem request_well_typed_witness:
  "case request_run [Completes 0 (ok_result []), Completes 0 (ok_result []), External (Call_Cancel True no_error)] demo_request of
     (p, s, tr) \<Rightarrow> list_all (\<lambda>k. request_type k s) p \<and> list_all success_has_status tr"
  by (rule request_well_typed) (simp add: fresh_request_def demo_request_def create_request_def set_callback_def
      set_uri_def set_host_def)

end
