(* ===== verification/Async_Tcp_Spec.thy ===== *)
theory Async_Tcp_Spec
  imports Async_Tcp_Properties
begin

section \<open>Asynchronous TCP client: its contract\<close>

text \<open>
  What \<^verbatim>\<open>AsyncTCPClient\<close> promises to its user, without sessions, handlers and operations: a registry of
  the requests under way, each either cancelled or not, with its callback; submissions, cancellations and completed
  operations change it and may report a result. The client refines the registry step by step, as long as no id is
  submitted that is still in use.
\<close>

record request_entry =
  entry_cancelled :: bool
  entry_callback :: "nat option"

type_synonym registry = "u32 \<rightharpoonup> request_entry"

datatype report = Result nat u32 error_code | Crash fault | Refused fault

definition report_to :: "nat option \<Rightarrow> u32 \<Rightarrow> error_code \<Rightarrow> report" where
  "report_to callback i ec = (case callback of None \<Rightarrow> Crash Bad_Function_Call | Some cb \<Rightarrow> Result cb i ec)"

text \<open>What happens, named by request ids.\<close>

datatype registry_event =
  Submitted u32 "nat option"
| Submission_Fails error_code
| Cancel_Requested u32 error_code
| Operation_Done u32
| Nothing

inductive registry_step :: "registry \<Rightarrow> registry_event \<Rightarrow> registry \<Rightarrow> report list \<Rightarrow> bool" where
  submitted: "m i = None \<Longrightarrow>
    registry_step m (Submitted i cb) (m(i \<mapsto> \<lparr>entry_cancelled = False, entry_callback = cb\<rparr>)) []"
| submission_fails: "registry_step m (Submission_Fails ec) m [Refused (System_Error ec)]"
| cancel_unknown: "m i = None \<Longrightarrow> registry_step m (Cancel_Requested i ec) m []"
| cancel_known: "m i = Some e \<Longrightarrow>
    registry_step m (Cancel_Requested i ec) (m(i \<mapsto> e\<lparr>entry_cancelled := True\<rparr>))
      (if is_error ec then [Refused (System_Error ec)] else [])"
| continues: "m i = Some e \<Longrightarrow> \<not> entry_cancelled e \<Longrightarrow> registry_step m (Operation_Done i) m []"
| ends: "m i = Some e \<Longrightarrow> (entry_cancelled e \<Longrightarrow> is_error ec) \<Longrightarrow>
    registry_step m (Operation_Done i) (m(i := None)) [report_to (entry_callback e) i ec]"
| nothing: "registry_step m Nothing m []"

subsection \<open>The abstraction of the client\<close>

definition entry_of :: "session \<Rightarrow> request_entry" where
  "entry_of s = \<lparr>entry_cancelled = ses_was_cancelled s, entry_callback = ses_callback s\<rparr>"

definition registry_of :: "tcp_client \<Rightarrow> registry" where
  "registry_of c i =
     (case find_session (m_active_sessions c) i of
        None \<Rightarrow> None
      | Some ref \<Rightarrow> map_option entry_of (session_heap c ref))"

fun event_of :: "tcp_client \<Rightarrow> client_event \<Rightarrow> registry_event" where
  "event_of c (Submit address_ec open_ec duration_sec ip port callback i) =
     (if is_error address_ec then Submission_Fails address_ec
      else if is_error open_ec then Submission_Fails open_ec else Submitted i callback)"
| "event_of c (Cancel ec i) = Cancel_Requested i ec"
| "event_of c (Complete n r) = (if n < length (waiting c) then Operation_Done (session_id c (fst (waiting c ! n))) else Nothing)"
| "event_of c Close = Nothing"

definition reports_of :: "session_action list \<Rightarrow> report list" where
  "reports_of as = concat (map (\<lambda>a. case a of Callback (cb, i, response, ec) \<Rightarrow> [Result cb i ec]
     | Throw f \<Rightarrow> [Crash f] | Raise f \<Rightarrow> [Refused f] | _ \<Rightarrow> []) as)"

lemma reports_of_simps [simp]:
  "reports_of [] = []" "reports_of (Callback (cb, i, response, ec) # as) = Result cb i ec # reports_of as"
  "reports_of (Throw f # as) = Crash f # reports_of as" "reports_of (Raise f # as) = Refused f # reports_of as"
  "reports_of (Start k op # as) = reports_of as" "reports_of (Shutdown h # as) = reports_of as"
  "reports_of (Cancel_Socket # as) = reports_of as"
  by (simp_all add: reports_of_def)

text \<open>The last step of a session reports to its callback, and an error if the session was cancelled.\<close>

lemma onRequestComplete_reports:
  "reports_of (snd (onRequestComplete s t)) = [report_to (ses_callback s) (ses_id s) (completion_code s)]"
  by (simp add: onRequestComplete_def report_to_def split: option.split)

lemma session_step_reports:
  assumes "session_step k r (s, t) = ((s', t'), as)"
  shows "(conts as \<noteq> [] \<longrightarrow> \<not> ses_was_cancelled s \<and> entry_of s' = entry_of s \<and> reports_of as = []) \<and>
    (conts as = [] \<longrightarrow> (ses_was_cancelled s \<longrightarrow> is_error (completion_code s')) \<and>
       reports_of as = [report_to (ses_callback s) (ses_id s) (completion_code s')])"
proof -
  have as: "as = snd (session_step k r (s, t))" and s': "s' = fst (fst (session_step k r (s, t)))"
    using assms by simp_all
  show ?thesis
    unfolding as s'
    by (cases k)
       (simp_all add: session_step_def session_handler_defs entry_of_def onRequestComplete_reports completion_code_def
         Let_def case_prod_beta)
qed

subsection \<open>Refinement\<close>

lemma registry_of_submit:
  assumes ok: "client_ok c" and fresh: "find_session (m_active_sessions c) i = None"
    and "\<not> is_error aec" and "\<not> is_error oec"
  shows "registry_of (fst (emulateLongComputationOp aec oec d ip port cb i c))
    = (registry_of c)(i \<mapsto> \<lparr>entry_cancelled = False, entry_callback = cb\<rparr>)"
proof
  fix j
  have "find_session (m_active_sessions c) j \<noteq> Some (session_count c)"
    using client_okD(2,3) [OF ok, of "session_count c"] client_okD(4) [OF ok, of j "session_count c"] by auto
  then show "registry_of (fst (emulateLongComputationOp aec oec d ip port cb i c)) j
      = ((registry_of c)(i \<mapsto> \<lparr>entry_cancelled = False, entry_callback = cb\<rparr>)) j"
    using assms(3,4)
    by (auto simp: registry_of_def emulateLongComputationOp_def Let_def tab.find_insert entry_of_def new_session_def
        split: option.split)
qed

text \<open>Different ids are different sessions.\<close>

lemma find_session_inj:
  "client_ok c \<Longrightarrow> find_session (m_active_sessions c) i = Some ref \<Longrightarrow>
   find_session (m_active_sessions c) j = Some ref \<Longrightarrow> i = j"
  using client_okD(4) [of c i ref] client_okD(4) [of c j ref] by simp

lemma registry_of_heap:
  assumes "client_ok c" and "find_session (m_active_sessions c) i = Some ref"
  shows "registry_of (c\<lparr>session_heap := (session_heap c)(ref \<mapsto> s)\<rparr>) = (registry_of c)(i \<mapsto> entry_of s)"
proof
  fix j
  show "registry_of (c\<lparr>session_heap := (session_heap c)(ref \<mapsto> s)\<rparr>) j = ((registry_of c)(i \<mapsto> entry_of s)) j"
  proof (cases "j = i")
    case True
    with assms(2) show ?thesis by (simp add: registry_of_def)
  next
    case False
    with find_session_inj [OF assms, of j] have "find_session (m_active_sessions c) j \<noteq> Some ref" by blast
    with False show ?thesis by (auto simp: registry_of_def split: option.split)
  qed
qed

lemma registry_of_close [simp]: "registry_of (close_client c) = registry_of c"
  by (simp add: registry_of_def close_client_def fun_eq_iff split: option.split)

lemma refine_cancel:
  assumes ok: "client_ok c"
  shows "registry_step (registry_of c) (Cancel_Requested i ec) (registry_of (fst (cancelRequest ec i c)))
    (reports_of (snd (cancelRequest ec i c)))"
proof (cases "find_session (m_active_sessions c) i")
  case None
  then show ?thesis by (auto simp: cancelRequest_def registry_of_def intro: registry_step.cancel_unknown)
next
  case (Some ref)
  with client_okD(2) [OF ok, of ref] client_okD(4) [OF ok, of i ref] obtain s where s: "session_heap c ref = Some s" by auto
  have "registry_of c i = Some (entry_of s)" using Some s by (simp add: registry_of_def)
  from registry_step.cancel_known [where m = "registry_of c" and i = i and ec = ec, OF this] show ?thesis
    using Some s registry_of_heap [OF ok Some, of "s\<lparr>ses_was_cancelled := True\<rparr>"]
    by (auto simp: cancelRequest_def cancel_session_def entry_of_def split: if_splits)
qed

lemma refine_complete:
  assumes ok: "client_ok c" and n: "n < length (waiting c)"
  shows "registry_step (registry_of c) (Operation_Done (session_id c (fst (waiting c ! n))))
    (registry_of (fst (complete_operation n r c))) (reports_of (snd (complete_operation n r c)))"
proof -
  from complete_operationE [OF ok n, of r] obtain ref k s s' as where nth: "waiting c ! n = (ref, k)"
    and s: "session_heap c ref = Some s"
    and step: "session_step k r (s, m_active_sessions c)
      = ((s', if conts as = [] then erase_session (m_active_sessions c) (ses_id s) else m_active_sessions c), as)"
    and res: "complete_operation n r c =
      (c\<lparr>m_active_sessions := (if conts as = [] then erase_session (m_active_sessions c) (ses_id s) else m_active_sessions c),
         session_heap := (session_heap c)(ref \<mapsto> s'),
         waiting := take n (waiting c) @ drop (Suc n) (waiting c) @ map (\<lambda>k'. (ref, k')) (conts as)\<rparr>, as)"
    by metis
  have id: "session_id c ref = ses_id s" using s by (simp add: session_id_def)
  have "ref \<in> fst ` set (waiting c)" using n nth by (metis fst_conv image_eqI nth_mem)
  with client_okD(4) [OF ok, of "ses_id s" ref] id have found: "find_session (m_active_sessions c) (ses_id s) = Some ref" by simp
  then have entry: "registry_of c (ses_id s) = Some (entry_of s)" using s by (simp add: registry_of_def)
  note rep = session_step_reports [OF step]
  note heap = registry_of_heap [OF ok found, of s']
  show ?thesis
  proof (cases "conts as = []")
    case True
    with rep have ec: "entry_cancelled (entry_of s) \<Longrightarrow> is_error (completion_code s')"
      "reports_of as = [report_to (entry_callback (entry_of s)) (ses_id s) (completion_code s')]"
      by (auto simp: entry_of_def)
    have "registry_of (fst (complete_operation n r c)) = (registry_of c)(ses_id s := None)"
      using True find_session_inj [OF ok found]
      by (auto simp: res registry_of_def fun_eq_iff tab.find_erase split: option.split)
    with registry_step.ends [where m = "registry_of c" and i = "ses_id s", OF entry ec(1)] ec(2) nth id show ?thesis by (simp add: res)
  next
    case False
    with rep have same: "\<not> entry_cancelled (entry_of s)" "entry_of s' = entry_of s" "reports_of as = []"
      by (auto simp: entry_of_def)
    have "registry_of (fst (complete_operation n r c)) = registry_of c"
      using False heap same(2) entry by (auto simp: res registry_of_def fun_eq_iff split: option.splits if_splits)
    with registry_step.continues [where m = "registry_of c" and i = "ses_id s", OF entry same(1)] same(3) nth id show ?thesis by (simp add: res)
  qed
qed

lemma refines_registry:
  assumes "reachable_client c" and "fresh_step c ev c'"
  shows "registry_step (registry_of c) (event_of c ev) (registry_of c') (reports_of (snd (client_step ev c)))"
proof -
  note ok = reachable_client_ok [OF assms(1)]
  from assms(2) show ?thesis
  proof (cases rule: fresh_step.cases)
    case (submit i aec oec d ip port cb)
    then show ?thesis
      using registry_of_submit [OF ok submit(3)]
      by (auto simp: emulateLongComputationOp_def Let_def registry_of_def
          intro!: registry_step.submitted registry_step.submission_fails split: if_splits)
  next
    case (complete n r)
    then show ?thesis
      using refine_complete [OF ok, of n r] registry_step.nothing by (simp add: complete_operation_def)
  qed (use refine_cancel [OF ok] registry_step.nothing in simp_all)
qed

text \<open>C6: The client refines its contract: in every state that can be reached without reusing an id that is in use, every
  submission, cancellation, completion and \<^verbatim>\<open>close\<close> changes the registry of the requests under way, and reports to
  callbacks and callers, as the contract allows; in particular a request is reported once, to its own callback, a
  cancelled one with an error.\<close>

theorem tcp_client_refines_registry:
  assumes "reachable_client c" and "fresh_step c ev c'"
  shows "registry_step (registry_of c) (event_of c ev) (registry_of c') (reports_of (snd (client_step ev c)))"
  using assms by (rule refines_registry)

text \<open>A request is submitted and then cancelled.\<close>

definition demo_client :: tcp_client where
  "demo_client = fst (client_step (demo_submit 1) new_tcp_client)"

lemma demo_client_registry:
  "registry_of demo_client = [1 \<mapsto> \<lparr>entry_cancelled = False, entry_callback = Some 7\<rparr>]"
  "registry_of (fst (client_step (Cancel no_error 1) demo_client)) = [1 \<mapsto> \<lparr>entry_cancelled = True, entry_callback = Some 7\<rparr>]"
  unfolding demo_client_def submit_simp
  by (auto simp: registry_of_def fun_eq_iff tab.find_insert tab.find_empty new_tcp_client_def cancelRequest_def
      cancel_session_def entry_of_def new_session_def split: option.split)

theorem tcp_client_refines_registry_witness:
  "registry_step [1 \<mapsto> \<lparr>entry_cancelled = False, entry_callback = Some 7\<rparr>] (Cancel_Requested 1 no_error)
     [1 \<mapsto> \<lparr>entry_cancelled = True, entry_callback = Some 7\<rparr>] []"
proof -
  have "snd (client_step (Cancel no_error 1) demo_client) = [Cancel_Socket]"
    unfolding demo_client_def submit_simp
    by (simp add: cancelRequest_def cancel_session_def tab.find_insert)
  with tcp_client_refines_registry [OF demo_reachable [folded demo_client_def] fresh_step.cancel [of demo_client no_error 1]]
  show ?thesis by (simp only: demo_client_registry event_of.simps reports_of_simps)
qed

end
