(* ===== verification/Async_Tcp_Accounting.thy ===== *)
theory Async_Tcp_Accounting
  imports Async_Tcp_Spec "HOL-Library.Multiset"
begin

section \<open>Asynchronous TCP client: every request is reported once\<close>

text \<open>
  Whole runs of \<^verbatim>\<open>AsyncTCPClient\<close>. The accounting is proved for the registry of its contract
  (\<open>Async_Tcp_Spec\<close>) and carried over to the client by the refinement: the requests that were accepted are those
  that have been reported, each to the callback it was submitted with, and those that still wait. When the
  join in \<^verbatim>\<open>close\<close> returns, none waits.
\<close>

subsection \<open>Accounting in the registry\<close>

text \<open>The requests under way, accepted or reported, as pairs of an id and a callback.\<close>

definition open_requests :: "registry \<Rightarrow> (u32 \<times> nat) set" where
  "open_requests m = {(i, cb). map_option entry_callback (m i) = Some (Some cb)}"

fun accepted_request :: "registry_event \<Rightarrow> (u32 \<times> nat) multiset" where
  "accepted_request (Submitted i (Some cb)) = {#(i, cb)#}"
| "accepted_request _ = {#}"

fun reported_request :: "report \<Rightarrow> (u32 \<times> nat) multiset" where
  "reported_request (Result cb i ec) = {#(i, cb)#}"
| "reported_request _ = {#}"

definition accepted :: "registry_event list \<Rightarrow> (u32 \<times> nat) multiset" where
  "accepted evs = \<Sum>\<^sub># (mset (map accepted_request evs))"

definition reported :: "report list \<Rightarrow> (u32 \<times> nat) multiset" where
  "reported rs = \<Sum>\<^sub># (mset (map reported_request rs))"

lemma accounting_simps [simp]:
  "accepted [] = {#}" "accepted (e # es) = accepted_request e + accepted es"
  "accepted (es @ es') = accepted es + accepted es'"
  "reported [] = {#}" "reported (r # rs) = reported_request r + reported rs"
  "reported (rs @ rs') = reported rs + reported rs'"
  by (simp_all add: accepted_def reported_def)

lemma finite_open_requests [simp]: "finite (open_requests m)"
proof (rule finite_subset)
  show "open_requests m \<subseteq> range (\<lambda>i. (i, the (entry_callback (the (m i)))))"
    by (force simp: open_requests_def)
qed simp

lemma open_requests_empty [simp]: "open_requests Map.empty = {}"
  by (simp add: open_requests_def)

text \<open>A new entry, a change that keeps the callback, and the end of an entry.\<close>

lemma open_requests_insert:
  "m i = None \<Longrightarrow> entry_callback e = Some cb \<Longrightarrow>
     mset_set (open_requests (m(i \<mapsto> e))) = mset_set (open_requests m) + {#(i, cb)#}"
proof -
  assume new: "m i = None" and "entry_callback e = Some cb"
  then have "open_requests (m(i \<mapsto> e)) = insert (i, cb) (open_requests m)"
    by (auto simp: open_requests_def split: if_splits)
  moreover have "(i, cb) \<notin> open_requests m" using new by (simp add: open_requests_def)
  ultimately show ?thesis by simp
qed

lemma open_requests_same:
  "map_option entry_callback (m i) = map_option entry_callback (m' i) \<Longrightarrow> (\<And>j. j \<noteq> i \<Longrightarrow> m j = m' j) \<Longrightarrow>
     open_requests m = open_requests m'"
proof -
  assume "map_option entry_callback (m i) = map_option entry_callback (m' i)" and "\<And>j. j \<noteq> i \<Longrightarrow> m j = m' j"
  then have "map_option entry_callback (m j) = map_option entry_callback (m' j)" for j by (cases "j = i") simp_all
  then show ?thesis by (simp only: open_requests_def)
qed

lemma open_requests_silent:
  "m i = None \<Longrightarrow> entry_callback e = None \<Longrightarrow> open_requests (m(i \<mapsto> e)) = open_requests m"
  by (auto simp: open_requests_def split: if_splits)

lemma open_requests_remove:
  "m i = Some e \<Longrightarrow> mset_set (open_requests m) = mset_set (open_requests (m(i := None))) +
     (case entry_callback e of None \<Rightarrow> {#} | Some cb \<Rightarrow> {#(i, cb)#})"
  using open_requests_insert [of "m(i := None)" i e] open_requests_silent [of "m(i := None)" i e]
  by (auto simp: fun_upd_idem split: option.split)

lemma registry_step_accounts:
  "registry_step m ev m' rs \<Longrightarrow>
     mset_set (open_requests m) + accepted_request ev = mset_set (open_requests m') + reported rs"
proof (induction rule: registry_step.induct)
  case (submitted m i cb)
  show ?case
  proof (cases cb)
    case None
    with open_requests_silent [of m i "\<lparr>entry_cancelled = False, entry_callback = None\<rparr>"] submitted show ?thesis by (simp add: fun_upd_def)
  next
    case (Some c)
    with open_requests_insert [of m i "\<lparr>entry_cancelled = False, entry_callback = Some c\<rparr>" c] submitted show ?thesis by (simp add: fun_upd_def)
  qed
next
  case (cancel_known m i e ec)
  then have "open_requests (m(i \<mapsto> e\<lparr>entry_cancelled := True\<rparr>)) = open_requests m"
    by (intro open_requests_same [of _ i]) simp_all
  then show ?case by (simp add: fun_upd_def)
next
  case (ends m i e ec)
  then show ?case using ends(1) open_requests_remove [of m i e] by (cases "entry_callback e") (simp_all add: report_to_def fun_upd_def)
qed simp_all

text \<open>Whole runs of the registry.\<close>

inductive registry_history :: "registry \<Rightarrow> registry_event list \<Rightarrow> report list \<Rightarrow> bool" where
  start: "registry_history Map.empty [] []"
| step: "registry_history m evs rs \<Longrightarrow> registry_step m ev m' rs' \<Longrightarrow> registry_history m' (evs @ [ev]) (rs @ rs')"

lemma registry_history_accounts:
  "registry_history m evs rs \<Longrightarrow> accepted evs = reported rs + mset_set (open_requests m)"
proof (induction rule: registry_history.induct)
  case (step m evs rs ev m' rs')
  with registry_step_accounts [OF step.hyps(2)] show ?case by (simp add: union_ac)
qed simp

subsection \<open>Accounting in the client\<close>

text \<open>Runs in which no id is submitted that is still in use, with what happened and what was reported.\<close>

inductive client_history :: "tcp_client \<Rightarrow> registry_event list \<Rightarrow> report list \<Rightarrow> bool" where
  start: "client_history new_tcp_client [] []"
| step: "client_history c evs rs \<Longrightarrow> fresh_step c ev c' \<Longrightarrow>
    client_history c' (evs @ [event_of c ev]) (rs @ reports_of (snd (client_step ev c)))"

lemma client_history_reachable: "client_history c evs rs \<Longrightarrow> reachable_client c"
  by (induction rule: client_history.induct) (auto intro: reachable_client.intros)

lemma new_client_registry [simp]: "registry_of new_tcp_client = Map.empty"
  by (simp add: registry_of_def new_tcp_client_def tab.find_empty fun_eq_iff)

lemma client_history_registry: "client_history c evs rs \<Longrightarrow> registry_history (registry_of c) evs rs"
proof (induction rule: client_history.induct)
  case start
  show ?case unfolding new_client_registry by (rule registry_history.start)
next
  case (step c evs rs ev c')
  from refines_registry [OF client_history_reachable [OF step.hyps(1)] step.hyps(2)]
  show ?case by (rule registry_history.step [OF step.IH])
qed

lemmas client_history_accounts = registry_history_accounts [OF client_history_registry]

lemma idle_registry_empty:
  assumes "reachable_client c" and "waiting c = []"
  shows "registry_of c = Map.empty"
  using client_okD(4) [OF reachable_client_ok [OF assms(1)]] assms(2)
  by (auto simp: registry_of_def fun_eq_iff split: option.split)

text \<open>C7: The TCP client reports every request once, to the callback it was submitted with: in every run in which no id is
  submitted that is still in use, the accepted requests are, with multiplicities, those reported and those that still wait,
  and once the join of \<^verbatim>\<open>close\<close> has returned all of them have been reported.\<close>

theorem close_reports_every_request:
  assumes "client_history c evs rs"
  shows "accepted evs = reported rs + mset_set (open_requests (registry_of c)) \<and>
    (join_returns c \<longrightarrow> accepted evs = reported rs)"
  using client_history_accounts [OF assms] idle_registry_empty [OF client_history_reachable [OF assms]]
  by (simp add: join_returns_def)

text \<open>A request whose connection is aborted, and \<^verbatim>\<open>close\<close>.\<close>

definition failing_history :: "tcp_client" where
  "failing_history = fst (client_step Close (fst (client_step
     (Complete 0 (session_answer operation_aborted [])) (fst (client_step (demo_submit 1) new_tcp_client)))))"

theorem close_reports_every_request_witness:
  "\<exists>evs rs. client_history failing_history evs rs \<and> accepted evs = {#(1, 7)#} \<and> reported rs = {#(1, 7)#}"
proof -
  let ?c1 = "fst (client_step (demo_submit 1) new_tcp_client)"
  let ?done = "Complete 0 (session_answer operation_aborted [])"
  let ?c2 = "fst (client_step ?done ?c1)"
  have sub: "fresh_step new_tcp_client (demo_submit 1) ?c1"
    unfolding demo_submit_def by (rule fresh_step.submit) (simp add: new_tcp_client_def tab.find_empty)
  note hist = client_history.step [OF client_history.step [OF client_history.step [OF client_history.start sub]
      fresh_step.complete [of ?c1 0 "session_answer operation_aborted []"]] fresh_step.close_ [of ?c2]]
  have "join_returns failing_history"
    unfolding failing_history_def submit_simp
    by (simp add: join_returns_def complete_operation_def close_client_def new_tcp_client_def session_step_def on_connected_def
        new_session_def onRequestComplete_def Let_def)
  moreover have "event_of new_tcp_client (demo_submit 1) = Submitted 1 (Some 7)" by (simp add: demo_submit_def)
  ultimately show ?thesis
    using hist close_reports_every_request [OF hist] unfolding failing_history_def [symmetric]
    by (intro exI conjI) (assumption, auto split: if_splits)
qed

end
