(* ===== verification/Calculation_Exchanges.thy ===== *)
theory Calculation_Exchanges
  imports Sync_Clients Sync_Servers Async_Tcp_Properties Echo_Service
begin

section \<open>Clients against servers: the calculation protocol\<close>

text \<open>
  The clients of chapter 3 and the TLS client of chapter 5 speak one line each way with the servers of chapter 4 and the TLS
  server. Here a client is run against a server: the bytes the server has written are the bytes that the client reads.
\<close>

subsection \<open>Blocking programs\<close>

text \<open>The bytes of the writes that succeeded in a list of calls.\<close>

fun sent_bytes :: "environment \<Rightarrow> sync_call list \<Rightarrow> sync_call list \<Rightarrow> bytes" where
  "sent_bytes env h [] = []"
| "sent_bytes env h (c # cs) =
     (case c of Write_All b \<Rightarrow> if failure_of env h c = None then b else [] | _ \<Rightarrow> []) @ sent_bytes env (h @ [c]) cs"

text \<open>A server of the three has sent the response or nothing.\<close>

lemma sent_bytes_append: "sent_bytes env h (cs @ ds) = sent_bytes env h cs @ sent_bytes env (h @ cs) ds"
  by (induction cs arbitrary: h) simp_all

lemma iterative_sends:
  "iterative_HandleClient env h = (r, h @ cs) \<Longrightarrow> sent_bytes env h cs \<in> {[], response_text}"
  by (auto simp: iterative_HandleClient_run split: option.splits)

lemma server_sends:
  assumes "server \<in> {iterative_HandleClient, parallel_HandleClient, ssl_handle_client}"
    and "server env [] = (r, cs)"
  shows "sent_bytes env [] cs \<in> {[], response_text}"
proof -
  consider "iterative_HandleClient env [] = (r, cs)" | "parallel_HandleClient env [] = (r, cs)"
    | "ssl_handle_client env [] = (r, cs)" using assms by blast
  then show ?thesis
  proof cases
    case 1
    then show ?thesis using iterative_sends [of env "[]" r cs] by simp
  next
    case 2
    then show ?thesis
      using iterative_sends [of env "[]" "Inr ()" "snd (iterative_HandleClient env [])"]
      by (auto simp: parallel_HandleClient_run iterative_HandleClient_run sent_bytes_append)
  next
    case 3
    then show ?thesis
      using iterative_sends [of env "[Server_Handshake]"]
      by (auto simp: ssl_handle_client_run iterative_HandleClient_run split: option.splits)
  qed
qed

lemma first_line_response: "first_line response_text = ''Response''"
  using first_line_simp [of "''Response''" "[]"] by (simp add: response_text_def)

text \<open>The calls that a client has made when it reads the response.\<close>

definition tcp_asked :: "sync_call list" where
  "tcp_asked = [Parse_Address ''127.0.0.1'', Open_Socket, Connect_Call ''127.0.0.1'' 3333,
     Print ''Sending request to the server... '', Write_All (comp_request 10)]"

definition ssl_asked :: "sync_call list" where
  "ssl_asked = [Parse_Address ''127.0.0.1'', Ssl_Setup, Connect_Call ''127.0.0.1'' 3333, Client_Handshake True True,
     Print ''Sending request to the server... '', Write_All (comp_request 10)]"

lemma client_prints_first_line:
  "sync_tcp_main env [] = (Inr 0, h) \<Longrightarrow>
     Print (''Response received: '' @ first_line (ans_data (env tcp_asked (Read_Delim [LF])))) \<in> set h"
  "sync_ssl_main env [] = (Inr 0, h) \<Longrightarrow>
     Print (''Response received: '' @ first_line (ans_data (env ssl_asked (Read_Delim [LF])))) \<in> set h"
  using sync_tcp.outcome [of env] sync_ssl.outcome [of env]
  by (auto simp: sync_tcp_calls_def sync_ssl_calls_def tcp_asked_def ssl_asked_def Let_def)

text \<open>The blocking client and server programs fit together: when a client of the TCP or of the TLS kind has run to its end
  and what it read is what the server of its kind (iterative or parallel, or the TLS server) has written for it, it has
  printed exactly that server's response line.\<close>

theorem sync_exchange_prints_response:
  assumes "(client, asked, server) \<in> {(sync_tcp_main, tcp_asked, iterative_HandleClient),
      (sync_tcp_main, tcp_asked, parallel_HandleClient), (sync_ssl_main, ssl_asked, ssl_handle_client)}"
    and "client env [] = (Inr 0, h)" and "server server_env [] = (r, calls)"
    and "ans_data (env asked (Read_Delim [LF])) = sent_bytes server_env [] calls"
    and "ans_data (env asked (Read_Delim [LF])) \<noteq> []"
  shows "Print ''Response received: Response'' \<in> set h"
proof -
  have "server \<in> {iterative_HandleClient, parallel_HandleClient, ssl_handle_client}" using assms(1) by auto
  from server_sends [OF this assms(3)] assms(4,5) have "ans_data (env asked (Read_Delim [LF])) = response_text" by auto
  with assms(1,2) client_prints_first_line [of env h] first_line_response show ?thesis by auto
qed

theorem sync_exchange_prints_response_witness:
  "\<exists>h. sync_ssl_main (good_environment response_text) [] = (Inr 0, h) \<and> Print ''Response received: Response'' \<in> set h"
proof -
  have "fst (sync_ssl_main (good_environment response_text) []) = Inr 0"
    using sync_ssl.success_iff_all_calls_succeed [of "good_environment response_text"] by (simp add: list_all_iff)
  then obtain h where client: "sync_ssl_main (good_environment response_text) [] = (Inr 0, h)" by (metis prod.collapse)
  have server: "ssl_handle_client (good_environment []) [] = (Inr (), [Server_Handshake, Read_Delim [LF], Sleep, Write_All response_text])"
    by (simp add: ssl_handle_client_run iterative_HandleClient_run)
  have "Print ''Response received: Response'' \<in> set h"
    by (rule sync_exchange_prints_response [where client = sync_ssl_main and asked = ssl_asked and server = ssl_handle_client and
          env = "good_environment response_text" and server_env = "good_environment []", OF _ client server])
      (simp_all add: response_text_def)
  with client show ?thesis by blast
qed

subsection \<open>The asynchronous client and the echo server\<close>

text \<open>The asynchronous TCP client and the asynchronous echo server fit together: when the client's request line reaches the server's
  service and the bytes that the service writes reach the client's session, nothing having failed or been
  cancelled, the session has written exactly its request and its callback gets no error and the response line.\<close>

theorem async_exchange_reports_response:
  assumes client: "s = new_session ip port (calc_request d) i (Some cb)"
      "session_run [Completes 0 (session_answer no_error []), Completes 0 (session_answer no_error [])] (s, t) = (p1, st1, log1)"
    and server: "\<not> is_error (er_ec e)" "er_data e = written log1" "echo_run [Completes 0 e] = (p2, es, tr)"
    and answered: "session_run [Completes 0 (session_answer no_error []), Completes 0 (session_answer no_error []),
       Completes 0 (session_answer no_error (written tr))] (s, t) = (p, st, log)"
  shows "p = [] \<and> echo_request es = calc_request d \<and> last log = Callback (cb, i, ''Response'', no_error)"
proof -
  have "written log1 = calc_request d"
    using client by (auto simp: session_run_def chain_begin_def chain_step_def session_step_def on_connected_def on_written_def
        new_session_def)
  with server have es: "echo_request es = calc_request d" and tr: "written tr = ''Response'' @ [LF]"
    by (auto simp: echo_run_def chain_begin_def chain_step_def StartHandling_def new_echo_service_def echo_defs ProcessRequest_def)
  obtain s' t' where st: "st = (s', t')" by (cases st)
  have "p = [] \<and> last log = Callback (cb, ses_id s, ''Response'', ses_ec s)"
    using session_reports_first_line [of "''Response''" s cb "[]" t p s' t' log] answered tr st client(1)
    by (simp add: new_session_def)
  with es client(1) show ?thesis by (simp add: new_session_def)
qed

theorem async_exchange_reports_response_witness:
  "\<exists>st log. session_run [Completes 0 (session_answer no_error []), Completes 0 (session_answer no_error []),
       Completes 0 (session_answer no_error (''Response'' @ [LF]))] (demo_session, Map.empty) = ([], st, log) \<and>
     last log = Callback (7, 1, ''Response'', no_error)"
proof -
  let ?ok = "Completes 0 (session_answer no_error []) :: (session_result, session_call) event"
  let ?e = "\<lparr>er_ec = no_error, er_data = calc_request 10\<rparr>"
  obtain p1 st1 log1 where client: "session_run [?ok, ?ok] (demo_session, Map.empty) = (p1, st1, log1)" by (metis prod.exhaust)
  then have log1: "er_data ?e = written log1"
    by (auto simp: session_run_def chain_begin_def chain_step_def session_step_def on_connected_def on_written_def
        demo_session_def new_session_def)
  obtain p2 es tr where server: "echo_run [Completes 0 ?e] = (p2, es, tr)" by (metis prod.exhaust)
  then have tr: "written tr = ''Response'' @ [LF]"
    by (auto simp: echo_run_def chain_begin_def chain_step_def StartHandling_def new_echo_service_def echo_defs ProcessRequest_def)
  obtain p st log where run: "session_run [?ok, ?ok, Completes 0 (session_answer no_error (written tr))] (demo_session, Map.empty)
      = (p, st, log)" by (metis prod.exhaust)
  have "\<not> is_error (er_ec ?e)" by simp
  from async_exchange_reports_response [OF demo_session_def [unfolded] client this log1 server run] run tr show ?thesis by auto
qed

end
