(* ===== verification/Async_Server_Mains.thy ===== *)
theory Async_Server_Mains
  imports Async_Server_Properties
begin

section \<open>Asynchronous servers: the main programs\<close>

text \<open>
  \<^verbatim>\<open>chapter5/HTTPServer/main.cpp\<close> and \<^verbatim>\<open>chapter4/asyncParallel/main.cpp\<close>, which are the same program around two service
  classes: choose the size of the pool, start the server, sleep for a minute, stop it. Here the acceptor is created in
  the thread of \<^verbatim>\<open>main\<close>, so, other than in the synchronous servers (\<open>Sync_Servers\<close>), a port that is in use is caught and
  printed. An exception that leaves a handler is not: it leaves the function of a pool thread and terminates the
  program.
\<close>

subsection \<open>The program\<close>

text \<open>The exit code with the error that was printed, or the termination by a fault.\<close>

datatype server_main_end = Main_Returns int "error_code option" | Main_Aborts

text \<open>
  \<open>running\<close> are the completions during the minute, \<open>stopping\<close> those between the two calls of \<^verbatim>\<open>Server::Stop\<close>. A handler
  that is still running when \<^verbatim>\<open>m_ios.stop()\<close> is called belongs to them, for \<^verbatim>\<open>join\<close> waits for it.
\<close>

definition async_server_main ::
  "'s \<times> ('k, 'cb) action list \<Rightarrow> ('k \<Rightarrow> 'r \<Rightarrow> 's \<Rightarrow> 's \<times> ('k, 'cb) action list) \<Rightarrow>
   error_code \<Rightarrow> error_code \<Rightarrow> (u32 \<Rightarrow> error_code) \<Rightarrow> u32 \<Rightarrow> 'r server_event list \<Rightarrow> 'r server_event list \<Rightarrow>
   server_main_end \<times> ('k, 's) server option" where
  "async_server_main start handler bind_ec listen_ec thread_ec hardware_concurrency running stopping =
     (case Server_Start bind_ec listen_ec thread_ec (server_pool_size hardware_concurrency) of
        Inl (System_Error ec) \<Rightarrow> (Main_Returns 0 (Some ec), None)
      | Inl f \<Rightarrow> (Main_Aborts, None)
      | Inr started \<Rightarrow>
          let srv = server_run start handler (running @ [Stop_Acceptor] @ stopping @ [Stop_Io_Context]) new_server
          in (if srv_crashed srv then Main_Aborts else Main_Returns 0 None, Some srv))"

definition echo_main ::
  "error_code \<Rightarrow> error_code \<Rightarrow> (u32 \<Rightarrow> error_code) \<Rightarrow> u32 \<Rightarrow> echo_result server_event list \<Rightarrow> echo_result server_event list \<Rightarrow>
   server_main_end \<times> (echo_handler, echo_service) server option" where
  "echo_main = async_server_main (StartHandling new_echo_service) echo_step"

definition http_server_main ::
  "error_code \<Rightarrow> error_code \<Rightarrow> (u32 \<Rightarrow> error_code) \<Rightarrow> u32 \<Rightarrow> service_result server_event list \<Rightarrow> service_result server_event list \<Rightarrow>
   server_main_end \<times> (service_handler, service) server option" where
  "http_server_main = async_server_main (start_handling new_service) service_step"

subsection \<open>Starting\<close>

text \<open>The assertion of \<^verbatim>\<open>Server::Start\<close> holds whatever the hardware says; the two errors of the acceptor are caught, a
  failure to create one of the threads is not.\<close>

lemma pool_size_positive: "server_pool_size hc > 0"
  by (simp add: server_pool_size_def DEFAULT_THREAD_POOL_SIZE_def Let_def word_gt_0)

definition thread_fails :: "(u32 \<Rightarrow> error_code) \<Rightarrow> u32 \<Rightarrow> bool" where
  "thread_fails thread_ec hc \<longleftrightarrow> (\<exists>i < server_pool_size hc. is_error (thread_ec i))"

lemma start_pool_set: "set (start_pool i n pool) = set pool \<union> {i..<n}"
proof (induction i n pool rule: start_pool.induct)
  case (1 i n pool)
  show ?case
  proof (cases "i < n")
    case True
    have "Suc (unat i) < 2 ^ 32" using True unsigned_less [of n, where ?'a = nat] by (simp add: word_less_nat_alt)
    then have "unat (i + 1) = Suc (unat i)" by (simp add: unat_word_ariths)
    with True have "{i..<n} = insert i {i + 1..<n}"
      by (auto simp: word_less_nat_alt word_le_nat_alt) (metis le_antisym not_less_eq_eq word_unat_eq_iff)
    with 1 True show ?thesis by (subst start_pool.simps) auto
  qed (subst start_pool.simps, simp)
qed

lemma async_server_main_unfold:
  "async_server_main start handler bind_ec listen_ec thread_ec hc running stopping =
     (if is_error bind_ec then (Main_Returns 0 (Some bind_ec), None)
      else if is_error listen_ec then (Main_Returns 0 (Some listen_ec), None)
      else if thread_fails thread_ec hc then (Main_Aborts, None)
      else let srv = server_run start handler (running @ [Stop_Acceptor] @ stopping @ [Stop_Io_Context]) new_server
           in (if srv_crashed srv then Main_Aborts else Main_Returns 0 None, Some srv))"
proof -
  have "find (\<lambda>i. is_error (thread_ec i)) (start_pool 0 (server_pool_size hc) []) = None \<longleftrightarrow> \<not> thread_fails thread_ec hc"
    by (auto simp: find_None_iff start_pool_set thread_fails_def)
  then show ?thesis
    using pool_size_positive [of hc]
    by (auto simp: async_server_main_def Server_Start_def Let_def split: option.split)
qed

lemma server_run_append: "server_run st h (evs @ evs') srv = server_run st h evs' (server_run st h evs srv)"
  by (simp add: server_run_def)

lemma crashed_for_good:
  "srv_crashed (server_run st h evs srv) \<Longrightarrow> server_run st h (evs @ later) srv = server_run st h evs srv"
  by (simp add: server_run_append server_frozen)

lemma stopped_at_end:
  "\<not> srv_crashed (server_run st h (evs @ [Stop_Io_Context]) srv) \<Longrightarrow> srv_stopped (server_run st h (evs @ [Stop_Io_Context]) srv)"
  by (auto simp: server_run_append server_step_def split: if_splits)

subsection \<open>Outcomes\<close>

text \<open>C37: The main program of the echo server has exactly these outcomes: it prints the error and returns 0 when the port cannot be
  bound or listened on; it is terminated when a thread of the pool cannot be created, for that exception is not Boost's; it
  returns 0 after the minute, with every service it created either deleted or abandoned in the middle of its
  conversation; or it is terminated because the acceptor could not be closed after \<^verbatim>\<open>Stop\<close>. Whatever happens on its
  connections terminates it in no case.\<close>

theorem echo_main_outcome:
  "case echo_main bind_ec listen_ec thread_ec hc running stopping of (outcome, server) \<Rightarrow>
    if is_error bind_ec then outcome = Main_Returns 0 (Some bind_ec) \<and> server = None
    else if is_error listen_ec then outcome = Main_Returns 0 (Some listen_ec) \<and> server = None
    else if \<exists>i < server_pool_size hc. is_error (thread_ec i) then outcome = Main_Aborts \<and> server = None
    else \<exists>srv. server = Some srv \<and>
      (outcome = Main_Returns 0 None \<and> srv_stopped srv \<and> srv_created srv = srv_deleted srv + length (srv_serving srv) \<or>
       outcome = Main_Aborts \<and> (\<exists>r. Accepted r \<in> set (running @ stopping) \<and> is_error (ac_close r)))"
proof -
  let ?evs = "(running @ [Stop_Acceptor] @ stopping) @ [Stop_Io_Context]"
  let ?srv = "server_run (StartHandling new_echo_service) echo_step ?evs new_server"
  have "srv_stopped ?srv \<and> srv_created ?srv = srv_deleted ?srv + length (srv_serving ?srv)" if "\<not> srv_crashed ?srv"
    using stopped_at_end [OF that] echo_conn.every_service_accounted [of ?evs] that by (simp add: echo_conn.balanced_def)
  moreover have "\<exists>r. Accepted r \<in> set (running @ stopping) \<and> is_error (ac_close r)" if "srv_crashed ?srv"
  proof (rule ccontr)
    assume "\<nexists>r. Accepted r \<in> set (running @ stopping) \<and> is_error (ac_close r)"
    then have "list_all closes_cleanly ?evs" by (auto simp: list_all_iff closes_cleanly_def split: server_event.split)
    with that show False using echo_server_alive [of ?evs new_server] by (simp add: new_server_def)
  qed
  ultimately show ?thesis by (auto simp: echo_main_def async_server_main_unfold thread_fails_def Let_def)
qed

theorem echo_main_outcome_witness:
  "\<exists>srv. echo_main no_error no_error (\<lambda>i. no_error) 4 demo_echo_events [] = (Main_Returns 0 None, Some srv) \<and> srv_stopped srv \<and>
     srv_created srv = srv_deleted srv + length (srv_serving srv)"
proof -
  have "\<nexists>r. Accepted r \<in> set (demo_echo_events @ []) \<and> is_error (ac_close r)"
    by (auto simp: demo_echo_events_def accept_ok_def)
  with echo_main_outcome [where bind_ec = no_error and listen_ec = no_error and thread_ec = "\<lambda>i. no_error" and hc = 4 and
      running = demo_echo_events and stopping = "[]"] show ?thesis by (auto split: prod.splits)
qed

text \<open>The main program of the HTTP server has the same outcomes and one more: a connection that is reset before
  the final shutdown terminates it.\<close>

lemma http_server_main_aborts:
  assumes "\<not> is_error bind_ec" and "\<not> is_error listen_ec" and "srv_crashed (http_server_run running)"
  shows "fst (http_server_main bind_ec listen_ec thread_ec hc running stopping) = Main_Aborts"
  using assms by (simp add: http_server_main_def async_server_main_unfold http_server_run_def crashed_for_good Let_def)

end
