(* ===== verification/Server_Connections.thy ===== *)
theory Server_Connections
  imports Http_Spec Async_Server_Properties
begin

section \<open>Asynchronous servers: the connections of a running server\<close>

text \<open>
  \<open>Async_Server\<close> gives the behaviour of a whole server on the completions of all its connections, in any order.
  Here the server is observed: each connection gets a number when it is accepted, and the results that its
  handlers were given and the actions they made are recorded under it. The composition theorem says that what is recorded
  for a connection is a run of its service alone, so whatever is proved of one service holds of every connection of
  a server, however its completions interleave with those of the others.
\<close>

subsection \<open>The observed server\<close>

record ('k, 's, 'r, 'cb) observed =
  obs_server :: "('k, 's) server"
  obs_names :: "nat list"                          \<comment> \<open>the connections in the order of \<^const>\<open>srv_serving\<close>\<close>
  obs_inputs :: "(nat \<times> 'r) list"
  obs_log :: "(nat \<times> ('k, 'cb) action) list"

definition new_observed :: "('k, 's, 'r, 'cb) observed" where
  "new_observed = \<lparr>obs_server = new_server, obs_names = [], obs_inputs = [], obs_log = []\<rparr>"

definition observe_step ::
  "'s \<times> ('k, 'cb) action list \<Rightarrow> ('k \<Rightarrow> 'r \<Rightarrow> 's \<Rightarrow> 's \<times> ('k, 'cb) action list) \<Rightarrow>
   'r server_event \<Rightarrow> ('k, 's, 'r, 'cb) observed \<Rightarrow> ('k, 's, 'r, 'cb) observed" where
  "observe_step start handler ev obs =
     (let srv = obs_server obs;
          obs1 = obs\<lparr>obs_server := server_step start handler ev srv\<rparr>
      in if srv_stopped srv \<or> srv_crashed srv then obs
         else case ev of
           Accepted r \<Rightarrow>
             if srv_accepting srv \<and> \<not> is_error (ac_ec r)
             then obs1\<lparr>obs_names := obs_names obs @ map (\<lambda>k. srv_created srv) (conts (snd start)),
                       obs_log := obs_log obs @ map (Pair (srv_created srv)) (snd start)\<rparr>
             else obs1
         | Service_Completes i r \<Rightarrow>
             if i < length (srv_serving srv)
             then (case srv_serving srv ! i of
                     (k, s) \<Rightarrow>
                       let n = obs_names obs ! i; as = snd (handler k r s)
                       in obs1\<lparr>obs_names := take i (obs_names obs) @ drop (Suc i) (obs_names obs) @ map (\<lambda>k'. n) (conts as),
                               obs_inputs := obs_inputs obs @ [(n, r)],
                               obs_log := obs_log obs @ map (Pair n) as\<rparr>)
             else obs1
         | _ \<Rightarrow> obs1)"

definition observe ::
  "'s \<times> ('k, 'cb) action list \<Rightarrow> ('k \<Rightarrow> 'r \<Rightarrow> 's \<Rightarrow> 's \<times> ('k, 'cb) action list) \<Rightarrow>
   'r server_event list \<Rightarrow> ('k, 's, 'r, 'cb) observed" where
  "observe start handler evs = fold (observe_step start handler) evs new_observed"

text \<open>Observing does not change the server.\<close>

lemma observe_step_server: "obs_server (observe_step start handler ev obs) = server_step start handler ev (obs_server obs)"
  by (auto simp: observe_step_def Let_def server_step_def split: server_event.splits prod.splits)

lemma observe_server: "obs_server (observe start handler evs) = server_run start handler evs new_server"
proof -
  have "obs_server (fold (observe_step start handler) evs obs) = server_run start handler evs (obs_server obs)" for obs
    by (induction evs arbitrary: obs) (simp_all add: observe_step_server)
  then show ?thesis by (simp add: observe_def new_observed_def)
qed

text \<open>What belongs to connection \<open>n\<close>.\<close>

definition on_conn :: "nat \<Rightarrow> (nat \<times> 'a) list \<Rightarrow> 'a list" where
  "on_conn n xs = map snd (filter (\<lambda>x. fst x = n) xs)"

lemma on_conn_simps [simp]:
  "on_conn n [] = []" "on_conn n ((m, x) # xs) = (if m = n then x # on_conn n xs else on_conn n xs)"
  "on_conn n (xs @ ys) = on_conn n xs @ on_conn n ys"
  "on_conn n (map (Pair m) as) = (if m = n then as else [])"
  by (auto simp: on_conn_def filter_map comp_def)

lemma on_conn_zip_map [simp]:
  "on_conn n (zip (map (\<lambda>k. m) ks) (map f ks)) = (if m = n then map f ks else [])"
  by (induction ks) auto

lemma on_conn_split:
  "i < length xs \<Longrightarrow> on_conn n xs = on_conn n (take i xs) @ (if fst (xs ! i) = n then [snd (xs ! i)] else []) @ on_conn n (drop (Suc i) xs)"
  using arg_cong [OF id_take_nth_drop [of i xs], of "on_conn n"] by (cases "xs ! i") simp

text \<open>Every connection is where its own run has brought it, and waits under its own number.\<close>

definition conn_ok ::
  "'s \<times> ('k, 'cb) action list \<Rightarrow> ('k \<Rightarrow> 'r \<Rightarrow> 's \<Rightarrow> 's \<times> ('k, 'cb) action list) \<Rightarrow>
   ('k, 's, 'r, 'cb) observed \<Rightarrow> nat \<Rightarrow> bool" where
  "conn_ok start handler obs n \<longleftrightarrow>
     (let waits = on_conn n (zip (obs_names obs) (srv_serving (obs_server obs)))
      in if n < srv_created (obs_server obs)
         then \<exists>p s. chain_run handler no_external (map (Completes 0) (on_conn n (obs_inputs obs))) (chain_begin start)
                = (p, s, on_conn n (obs_log obs)) \<and> waits = map (\<lambda>k. (k, s)) p
         else on_conn n (obs_inputs obs) = [] \<and> on_conn n (obs_log obs) = [] \<and> waits = [])"

definition obs_ok ::
  "'s \<times> ('k, 'cb) action list \<Rightarrow> ('k \<Rightarrow> 'r \<Rightarrow> 's \<Rightarrow> 's \<times> ('k, 'cb) action list) \<Rightarrow>
   ('k, 's, 'r, 'cb) observed \<Rightarrow> bool" where
  "obs_ok start handler obs \<longleftrightarrow> length (obs_names obs) = length (srv_serving (obs_server obs)) \<and>
     (\<forall>n. conn_ok start handler obs n)"

lemma new_observed_ok: "obs_ok start handler new_observed"
  by (simp add: obs_ok_def conn_ok_def new_observed_def new_server_def)

subsection \<open>Composition\<close>

lemma observe_accept:
  assumes ok: "obs_ok start handler obs" and "length (conts (snd start)) = 1"
  shows "obs_ok start handler (observe_step start handler (Accepted r) obs)"
proof -
  obtain s0 as0 where start: "start = (s0, as0)" by (cases start)
  with assms(2) obtain k where k: "conts as0 = [k]" by (cases "conts as0") auto
  have "conn_ok start handler (observe_step start handler (Accepted r) obs) n" for n
    using ok k
    by (auto simp: obs_ok_def conn_ok_def observe_step_def server_step_def accept_step_def onAccept_def InitAccept_def start
        chain_begin_def Let_def split: accept_handler.split prod.splits elim!: allE [of _ n])
  moreover have "length (obs_names (observe_step start handler (Accepted r) obs))
      = length (srv_serving (obs_server (observe_step start handler (Accepted r) obs)))"
    using ok k
    by (auto simp: obs_ok_def observe_step_def server_step_def accept_step_def onAccept_def InitAccept_def start
        Let_def split: accept_handler.split prod.splits)
  ultimately show ?thesis by (simp add: obs_ok_def)
qed

text \<open>The state of connection \<open>n\<close> when its operation completes.\<close>

lemma waiting_connection:
  assumes chain: "async_chain handler (no_external :: unit \<Rightarrow> _)" and start: "next_or_end (snd start)"
    and ok: "obs_ok start handler obs" and i: "i < length (srv_serving (obs_server obs))"
    and nth: "srv_serving (obs_server obs) ! i = (k, s)" and n: "n = obs_names obs ! i"
  shows "n < srv_created (obs_server obs)"
    and "chain_run handler no_external (map (Completes 0) (on_conn n (obs_inputs obs))) (chain_begin start)
      = ([k], s, on_conn n (obs_log obs))"
    and "on_conn m (zip (take i (obs_names obs) @ drop (Suc i) (obs_names obs))
           (take i (srv_serving (obs_server obs)) @ drop (Suc i) (srv_serving (obs_server obs))))
      = (if m = n then [] else on_conn m (zip (obs_names obs) (srv_serving (obs_server obs))))"
proof -
  let ?z = "zip (obs_names obs) (srv_serving (obs_server obs))"
  have len: "length (obs_names obs) = length (srv_serving (obs_server obs))" and conn: "conn_ok start handler obs n"
    using ok by (simp_all add: obs_ok_def)
  have zi: "?z ! i = (n, (k, s))" and iz: "i < length ?z" using i len nth n by simp_all
  note split = on_conn_split [OF iz]
  show "n < srv_created (obs_server obs)"
    using conn split [of n] zi by (auto simp: conn_ok_def Let_def split: if_splits)
  then obtain p t where run: "chain_run handler no_external (map (Completes 0) (on_conn n (obs_inputs obs))) (chain_begin start)
      = (p, t, on_conn n (obs_log obs))" and waits: "on_conn n ?z = map (\<lambda>k. (k, t)) p"
    using conn by (auto simp: conn_ok_def Let_def)
  have "length p \<le> 1" using async_chain.exactly_one [OF chain start run] by simp
  with waits split [of n] zi have p: "p = [k]" "t = s" "on_conn n (take i ?z) = []" "on_conn n (drop (Suc i) ?z) = []"
    by (cases p; auto simp: append_eq_Cons_conv)+
  with run show "chain_run handler no_external (map (Completes 0) (on_conn n (obs_inputs obs))) (chain_begin start)
      = ([k], s, on_conn n (obs_log obs))" by simp
  have "zip (take i (obs_names obs) @ drop (Suc i) (obs_names obs))
      (take i (srv_serving (obs_server obs)) @ drop (Suc i) (srv_serving (obs_server obs))) = take i ?z @ drop (Suc i) ?z"
    using i len by (simp add: take_zip drop_zip)
  with p split [of m] zi show "on_conn m (zip (take i (obs_names obs) @ drop (Suc i) (obs_names obs))
      (take i (srv_serving (obs_server obs)) @ drop (Suc i) (srv_serving (obs_server obs)))) = (if m = n then [] else on_conn m ?z)"
    by simp
qed

lemma observe_complete:
  assumes chain: "async_chain handler (no_external :: unit \<Rightarrow> _)" and start: "next_or_end (snd start)"
    and ok: "obs_ok start handler obs"
  shows "obs_ok start handler (observe_step start handler (Service_Completes i r) obs)"
proof (cases "srv_stopped (obs_server obs) \<or> srv_crashed (obs_server obs) \<or> \<not> i < length (srv_serving (obs_server obs))")
  case True
  then show ?thesis using ok
    by (auto simp: observe_step_def server_step_def obs_ok_def conn_ok_def Let_def)
next
  case False
  then have i: "i < length (srv_serving (obs_server obs))" by simp
  obtain k s where nth: "srv_serving (obs_server obs) ! i = (k, s)" by fastforce
  obtain s' as where h: "handler k r s = (s', as)" by fastforce
  let ?n = "obs_names obs ! i" and ?o = "observe_step start handler (Service_Completes i r) obs"
  let ?names = "take i (obs_names obs) @ drop (Suc i) (obs_names obs)"
  let ?serving = "take i (srv_serving (obs_server obs)) @ drop (Suc i) (srv_serving (obs_server obs))"
  note waiting = waiting_connection [OF chain start ok i nth refl]
  have len: "length (obs_names obs) = length (srv_serving (obs_server obs))" using ok by (simp add: obs_ok_def)
  have o: "obs_names ?o = ?names @ map (\<lambda>k'. ?n) (conts as)" "srv_serving (obs_server ?o) = ?serving @ map (\<lambda>k'. (k', s')) (conts as)"
    "obs_inputs ?o = obs_inputs obs @ [(?n, r)]" "obs_log ?o = obs_log obs @ map (Pair ?n) as"
    "srv_created (obs_server ?o) = srv_created (obs_server obs)"
    using False nth h by (simp_all add: observe_step_def server_step_def Let_def)
  have zip: "on_conn m (zip (obs_names ?o) (srv_serving (obs_server ?o)))
      = on_conn m (zip ?names ?serving) @ (if ?n = m then map (\<lambda>k'. (k', s')) (conts as) else [])" for m
    using len i by (simp add: o(1,2) zip_append)
  have "conn_ok start handler ?o m" for m
  proof (cases "m = ?n")
    case True
    have "chain_run handler no_external (map (Completes 0) (on_conn m (obs_inputs ?o))) (chain_begin start)
        = (conts as, s', on_conn m (obs_log ?o))"
      using waiting(2) h by (simp add: True o chain_run_append chain_step_def)
    with True waiting(1,3) zip show ?thesis by (simp add: conn_ok_def o(5) Let_def)
  next
    case False
    have "conn_ok start handler obs m" using ok by (simp add: obs_ok_def)
    with False waiting(3) zip show ?thesis by (simp add: conn_ok_def o(3-5) Let_def)
  qed
  moreover have "length (obs_names ?o) = length (srv_serving (obs_server ?o))"
    unfolding o(1,2) using len i by simp
  ultimately show ?thesis by (simp add: obs_ok_def)
qed

lemma observe_ok:
  assumes chain: "async_chain handler (no_external :: unit \<Rightarrow> _)" and start: "next_or_end (snd start)" "length (conts (snd start)) = 1"
  shows "obs_ok start handler (observe start handler evs)"
proof -
  have step: "obs_ok start handler (observe_step start handler ev obs)" if ok: "obs_ok start handler obs" for ev obs
  proof (cases ev)
    case (Accepted r)
    with observe_accept [OF ok start(2)] show ?thesis by simp
  next
    case (Service_Completes i r)
    with observe_complete [OF chain start(1) ok] show ?thesis by simp
  qed (use ok in \<open>simp_all add: observe_step_def server_step_def obs_ok_def conn_ok_def Let_def\<close>)
  have "obs_ok start handler (fold (observe_step start handler) evs obs)" if "obs_ok start handler obs" for obs
    using that by (induction evs arbitrary: obs) (simp_all add: step)
  then show ?thesis by (simp add: observe_def new_observed_ok)
qed

text \<open>The composition theorem, for any service class.\<close>

lemma connection_run:
  assumes "async_chain handler (no_external :: unit \<Rightarrow> _)" and "next_or_end (snd start)" and "length (conts (snd start)) = 1"
    and "n < srv_created (server_run start handler evs new_server)"
  shows "\<exists>p s. chain_run handler no_external (map (Completes 0) (on_conn n (obs_inputs (observe start handler evs)))) (chain_begin start)
      = (p, s, on_conn n (obs_log (observe start handler evs))) \<and>
    on_conn n (zip (obs_names (observe start handler evs)) (srv_serving (server_run start handler evs new_server))) = map (\<lambda>k. (k, s)) p"
  using observe_ok [OF assms(1-3), of evs] assms(4)
  by (auto simp: obs_ok_def conn_ok_def observe_server Let_def elim!: allE [of _ n])

subsection \<open>The HTTP server\<close>

definition http_observe ::
  "service_result server_event list \<Rightarrow> (service_handler, service, service_result, unit) observed" where
  "http_observe evs = observe (start_handling new_service) service_step evs"

lemma http_connection_run:
  assumes "n < srv_created (http_server_run evs)"
  shows "\<exists>p s. service_run (map (Completes 0) (on_conn n (obs_inputs (http_observe evs))))
      = (p, s, on_conn n (obs_log (http_observe evs))) \<and>
    on_conn n (zip (obs_names (http_observe evs)) (srv_serving (http_server_run evs))) = map (\<lambda>k. (k, s)) p"
  using connection_run [OF svc.async_chain_axioms, of "start_handling new_service" n evs] assms
  by (simp add: http_observe_def http_server_run_def service_run_def start_handling_def next_or_end_def)

text \<open>Once the response is under way nothing more is written.\<close>

lemma ended_stays: "chain_run h e (map (Completes 0) rs) ([], s, tr) = ([], s, tr)"
  by (induction rs) (simp_all add: chain_step_def)

lemma nothing_after_response:
  "\<exists>p' s' fin. chain_run service_step no_external (map (Completes 0) rs) ([On_Response_Sent], s, tr) = (p', s', tr @ fin) \<and>
     written fin = []"
proof (cases rs)
  case (Cons r rs')
  obtain s' as where step: "service_step On_Response_Sent r s = (s', as)" by fastforce
  then have "conts as = []" and "written as = []"
    by (auto simp: service_step_def on_response_sent_def on_finish_def Let_def split: if_splits)
  with step Cons show ?thesis by (simp add: chain_step_def ended_stays)
qed simp

lemma service_replies:
  assumes "\<not> is_error (res_ec r1)" and "\<not> is_error (res_ec r2)"
    and words: "is_word method" "is_word uri" "is_word version" and hs: "\<forall>nv \<in> set hs. clean_request_header nv"
    and data: "res_data r1 = request_line method uri version @ CRLF @ a" "a @ res_data r2 = header_block hs @ CRLF"
    and sane: "sane_env (res_env r1)" "sane_env (res_env r2)"
    and run: "service_run (map (Completes 0) (r1 # r2 # rs)) = (p, s, tr)"
  shows "written tr = reply_bytes (http_reply (env_fs (res_env r2)) method uri version)"
proof (cases "method = ''GET'' \<and> version = ''HTTP/1.1''")
  case True
  then have GET: "method = ''GET''" "version = ''HTTP/1.1''" by simp_all
  from accepted_run [OF assms(1,2) words(2) hs data(1) [unfolded GET] data(2) sane(2)]
  obtain s1 tr1 where "service_run [Completes 0 r1, Completes 0 r2] = ([On_Response_Sent], s1, tr1)"
    and "written tr1 = reply_bytes (http_reply (env_fs (res_env r2)) method uri version)" unfolding GET by blast
  with nothing_after_response [of rs s1 tr1] run show ?thesis by (auto simp: service_run_def)
next
  case False
  from rejected_run [OF assms(1) words data(1) sane_envD(1) [OF sane(1)]] False
  obtain s1 tr1 where "service_run [Completes 0 r1] = ([On_Response_Sent], s1, tr1)"
    and "written tr1 = reply_bytes (http_reply (env_fs (res_env r2)) method uri version)" by (auto simp: http_reply_def)
  with nothing_after_response [of "r2 # rs" s1 tr1] run show ?thesis by (auto simp: service_run_def)
qed

text \<open>Every connection of a running HTTP server is answered as the contract says: whatever completes on other
  connections, in between and in which order, whatever is accepted meanwhile and whenever the server is stopped, once a
  connection's two reads have brought a well-formed request, cut anywhere, the bytes written on it are exactly
  those of the contract's reply to that request.\<close>

theorem every_connection_answered:
  assumes "n < srv_created (http_server_run evs)"
    and "on_conn n (obs_inputs (http_observe evs)) = r1 # r2 # rs"
    and "\<not> is_error (res_ec r1)" and "\<not> is_error (res_ec r2)"
    and "is_word method" and "is_word uri" and "is_word version" and "\<forall>nv \<in> set hs. clean_request_header nv"
    and "res_data r1 = request_line method uri version @ CRLF @ a" and "a @ res_data r2 = header_block hs @ CRLF"
    and "sane_env (res_env r1)" and "sane_env (res_env r2)"
  shows "written (on_conn n (obs_log (http_observe evs))) = reply_bytes (http_reply (env_fs (res_env r2)) method uri version)"
  using http_connection_run [OF assms(1)] service_replies [OF assms(3-12), of rs] assms(2) by auto

text \<open>The connections of a running HTTP server are independent: what a service has been through is a run of that service
  alone on the results of its own operations, with the same actions, and it waits in the server exactly as it
  waits at the end of that run.\<close>

theorem connections_independent:
  assumes "n < srv_created (http_server_run evs)"
  shows "\<exists>p s. service_run (map (Completes 0) (on_conn n (obs_inputs (http_observe evs))))
      = (p, s, on_conn n (obs_log (http_observe evs))) \<and>
    on_conn n (zip (obs_names (http_observe evs)) (srv_serving (http_server_run evs))) = map (\<lambda>k. (k, s)) p"
  using assms by (rule http_connection_run)

subsection \<open>The echo server\<close>

definition echo_observe ::
  "echo_result server_event list \<Rightarrow> (echo_handler, echo_service, echo_result, unit) observed" where
  "echo_observe evs = observe (StartHandling new_echo_service) echo_step evs"

lemma echo_connection_run:
  assumes "n < srv_created (echo_server_run evs)"
  shows "\<exists>p s. echo_run (map (Completes 0) (on_conn n (obs_inputs (echo_observe evs))))
      = (p, s, on_conn n (obs_log (echo_observe evs))) \<and>
    on_conn n (zip (obs_names (echo_observe evs)) (srv_serving (echo_server_run evs))) = map (\<lambda>k. (k, s)) p"
  using connection_run [OF echo.async_chain_axioms, of "StartHandling new_echo_service" n evs] assms
  by (simp add: echo_observe_def echo_server_run_def echo_run_def StartHandling_def next_or_end_def)

lemma echo_completes:
  assumes "echo_run (map (Completes 0) (r # rs)) = (p, s, tr)"
  shows "written tr = (if is_error (er_ec r) then [] else ''Response'' @ [LF]) \<and> (p = [] \<longleftrightarrow> is_error (er_ec r) \<or> rs \<noteq> [])"
  using assms
  by (cases rs)
     (auto simp: echo_run_def chain_begin_def StartHandling_def chain_step_def echo_defs ProcessRequest_def ended_stays
        split: if_splits)

text \<open>Every client of a running echo server whose line has been read is answered with exactly one response line, one whose
  read failed is not answered, and the service of both is gone after the next completion, independently of all other
  connections.\<close>

theorem every_client_echoed:
  assumes "n < srv_created (echo_server_run evs)" and "on_conn n (obs_inputs (echo_observe evs)) = r # rs"
  shows "written (on_conn n (obs_log (echo_observe evs))) = (if is_error (er_ec r) then [] else ''Response'' @ [LF]) \<and>
    (on_conn n (zip (obs_names (echo_observe evs)) (srv_serving (echo_server_run evs))) = [] \<longleftrightarrow> is_error (er_ec r) \<or> rs \<noteq> [])"
  using echo_connection_run [OF assms(1)] echo_completes [of r rs] assms(2) by fastforce

subsection \<open>Witnesses\<close>

text \<open>Two connections; a request on the first is refused while the second fails in between.\<close>

definition put_result :: service_result where
  "put_result = sane_result (''PUT /a HTTP/1.1'' @ CRLF)"

definition two_connections :: "service_result server_event list" where
  "two_connections = [Accepted accept_ok, Accepted accept_ok, Service_Completes 0 put_result,
     Service_Completes 0 \<lparr>res_ec = asio_eof, res_data = [], res_env = one_file_env\<rparr>, Service_Completes 0 (sane_result CRLF)]"

lemma put_step:
  "service_step On_Request_Line_Received put_result new_service
     = send_response one_file_env (new_service\<lparr>m_request := [], m_response_status_code := 501\<rparr>)"
proof -
  have words: "is_word ''PUT''" "is_word ''/a''" "is_word ''HTTP/1.1''" by (simp_all add: is_word_def is_space_def)
  have data: "res_data put_result = request_line ''PUT'' ''/a'' ''HTTP/1.1'' @ CRLF @ []"
    by (simp add: put_result_def request_line_def)
  have "service_step On_Request_Line_Received put_result new_service
      = on_request_line_received (res_env put_result) (res_ec put_result) (new_service\<lparr>m_request := res_data put_result\<rparr>)"
    by (simp add: service_step_def new_service_def)
  also have "\<dots> = send_response one_file_env (new_service\<lparr>m_request := [], m_response_status_code := 501\<rparr>)"
    using request_line_received [OF _ words, of "res_ec put_result" "new_service\<lparr>m_request := res_data put_result\<rparr>" "[]"] data
    by (simp add: put_result_def)
  finally show ?thesis .
qed

lemma put_response:
  "\<exists>s bufs. service_step On_Request_Line_Received put_result new_service
     = (s, [Shutdown shutdown_receive, Start On_Response_Sent (Async_Write bufs)])"
  unfolding put_step by (simp add: send_response_def one_file_env_def http_status_table_def new_service_def Let_def)

lemma eof_step:
  "service_step On_Request_Line_Received \<lparr>res_ec = asio_eof, res_data = [], res_env = one_file_env\<rparr> new_service
     = (new_service, [Log asio_eof, Delete_This])"
  by (simp add: service_step_def on_request_line_received_def on_finish_def new_service_def)

text \<open>The effect of one completion on the record.\<close>

lemma observe_completion:
  assumes "\<not> srv_stopped (obs_server obs)" and "\<not> srv_crashed (obs_server obs)" and "srv_serving (obs_server obs) = (k, s) # cs"
    and "obs_names obs = n # ns" and "handler k r s = (s', as)"
  shows "observe_step start handler (Service_Completes 0 r) obs = obs
    \<lparr>obs_server := (obs_server obs)\<lparr>srv_serving := cs @ map (\<lambda>k'. (k', s')) (conts as),
        srv_deleted := srv_deleted (obs_server obs) + deletions as, srv_crashed := throws as\<rparr>,
     obs_names := ns @ map (\<lambda>k'. n) (conts as), obs_inputs := obs_inputs obs @ [(n, r)],
     obs_log := obs_log obs @ map (Pair n) as\<rparr>"
  using assms by (simp add: observe_step_def server_step_def Let_def)

lemma two_connections_inputs:
  "on_conn 0 (obs_inputs (http_observe two_connections)) = [put_result, sane_result CRLF] \<and>
   srv_created (http_server_run two_connections) = 2"
proof -
  let ?step = "observe_step (start_handling new_service) service_step"
  let ?wait = "(On_Request_Line_Received, new_service)"
  obtain s bufs where put: "service_step On_Request_Line_Received put_result new_service
      = (s, [Shutdown shutdown_receive, Start On_Response_Sent (Async_Write bufs)])" using put_response by blast
  define o2 where "o2 = ?step (Accepted accept_ok) (?step (Accepted accept_ok) new_observed)"
  have o2: "\<not> srv_stopped (obs_server o2)" "\<not> srv_crashed (obs_server o2)" "srv_serving (obs_server o2) = [?wait, ?wait]"
    "obs_names o2 = [0, 1]" "obs_inputs o2 = []" "srv_created (obs_server o2) = 2"
    by (simp_all add: o2_def observe_step_def server_step_def new_observed_def new_server_def accept_step_def onAccept_def
        accept_ok_def InitAccept_def new_acceptor_def start_handling_def Let_def)
  define o3 where "o3 = ?step (Service_Completes 0 put_result) o2"
  have o3: "\<not> srv_stopped (obs_server o3)" "\<not> srv_crashed (obs_server o3)"
    "srv_serving (obs_server o3) = [?wait, (On_Response_Sent, s)]"
    "obs_names o3 = [1, 0]" "obs_inputs o3 = [(0, put_result)]" "srv_created (obs_server o3) = 2"
    unfolding o3_def observe_completion [where handler = service_step, OF o2(1-4) put] by (simp_all add: o2)
  define o4 where "o4 = ?step (Service_Completes 0 \<lparr>res_ec = asio_eof, res_data = [], res_env = one_file_env\<rparr>) o3"
  have o4: "\<not> srv_stopped (obs_server o4)" "\<not> srv_crashed (obs_server o4)"
    "srv_serving (obs_server o4) = [(On_Response_Sent, s)]" "obs_names o4 = [0]" "on_conn 0 (obs_inputs o4) = [put_result]"
    "srv_created (obs_server o4) = 2"
    unfolding o4_def observe_completion [where handler = service_step, OF o3(1-4) eof_step] by (simp_all add: o3)
  obtain s5 as5 where "service_step On_Response_Sent (sane_result CRLF) s = (s5, as5)" by fastforce
  note o5 = observe_completion [where handler = service_step and start = "start_handling new_service", OF o4(1-4) this]
  have "http_observe two_connections = ?step (Service_Completes 0 (sane_result CRLF)) o4"
    by (simp add: http_observe_def observe_def two_connections_def o2_def o3_def o4_def)
  moreover have "obs_server (http_observe two_connections) = http_server_run two_connections"
    by (simp add: http_observe_def observe_server http_server_run_def)
  moreover have "on_conn 0 (obs_inputs (?step (Service_Completes 0 (sane_result CRLF)) o4)) = [put_result, sane_result CRLF]"
    and "srv_created (obs_server (?step (Service_Completes 0 (sane_result CRLF)) o4)) = 2"
    using o4(5,6) by (simp_all add: o5)
  ultimately show ?thesis by simp
qed

theorem every_connection_answered_witness:
  "written (on_conn 0 (obs_log (http_observe two_connections))) = reply_bytes (Status_Reply ''501 Not Implemented'')"
proof -
  have words: "is_word ''PUT''" "is_word ''/a''" "is_word ''HTTP/1.1''" by (simp_all add: is_word_def is_space_def)
  have data: "res_data put_result = request_line ''PUT'' ''/a'' ''HTTP/1.1'' @ CRLF @ []" "[] @ res_data (sane_result CRLF) = header_block [] @ CRLF"
    by (simp_all add: put_result_def request_line_def)
  have n: "0 < srv_created (http_server_run two_connections)" using two_connections_inputs by simp
  have inputs: "on_conn 0 (obs_inputs (http_observe two_connections)) = put_result # sane_result CRLF # []"
    using two_connections_inputs by simp
  from every_connection_answered [OF n inputs _ _ words _ data] show ?thesis
    by (simp add: put_result_def one_file_env_sane http_reply_def)
qed

theorem connections_independent_witness:
  "\<exists>p s. service_run [Completes 0 put_result, Completes 0 (sane_result CRLF)] = (p, s, on_conn 0 (obs_log (http_observe two_connections)))"
  using connections_independent [of 0 two_connections] two_connections_inputs by auto

text \<open>A client of the echo server that sends a line.\<close>

theorem every_client_echoed_witness:
  "written (on_conn 0 (obs_log (echo_observe [Accepted accept_ok, Service_Completes 0 (echo_read ''hello'')]))) = ''Response'' @ [LF]"
proof -
  let ?evs = "[Accepted accept_ok, Service_Completes 0 (echo_read ''hello'')]"
  have o: "on_conn 0 (obs_inputs (echo_observe ?evs)) = echo_read ''hello'' # []" "srv_created (echo_server_run ?evs) = 1"
    by (simp_all add: echo_observe_def observe_def new_observed_def observe_step_def server_step_def new_server_def
        accept_step_def onAccept_def accept_ok_def InitAccept_def new_acceptor_def StartHandling_def echo_server_run_def
        Let_def case_prod_beta)
  then have "0 < srv_created (echo_server_run ?evs)" by simp
  from every_client_echoed [OF this o(1)] show ?thesis by (simp add: echo_read_def)
qed

end
