(* ===== verification/Async_Tcp_Mt.thy ===== *)
theory Async_Tcp_Mt
  imports Async_Tcp_Locks
begin

section \<open>Multi-threaded TCP client: its member functions between the lock operations\<close>

text \<open>
  \<^verbatim>\<open>chapter3/asyncTCPClientMT/asynctcpclient.cpp\<close> with its data. \<open>Async_Tcp_Client\<close> takes a handler, a submission and a
  cancellation as single steps and \<open>Async_Tcp_Locks\<close> looks at the mutexes alone; here sessions, table, operations and
  callbacks change as the code changes them, between one lock operation or access to shared data and the next, while any number
  of user threads and of threads of the pool are inside the client. A place is where a thread is, with the local
  variables it still needs; \<open>h\<close> says whether \<^verbatim>\<open>onRequestComplete\<close> was called under \<^verbatim>\<open>cancel_lock\<close>. \<^verbatim>\<open>async_write\<close> and
  \<^verbatim>\<open>async_read_until\<close> are documented to be composed of calls of \<^verbatim>\<open>async_write_some\<close> and \<^verbatim>\<open>async_read_some\<close>: any number of their
  parts may complete first, and each time a thread of the pool is in the library (\<open>In_Operation\<close>), without any
  mutex, and calls the socket for the next part.
\<close>

datatype mt_place =
  Call_Submit error_code error_code u32 string "16 word" "nat option" u32
| Insert_Lock nat
| Insert nat
| Start_Connect nat                                \<comment> \<open>the lock has been released\<close>
| In_Handler nat session_handler session_result    \<comment> \<open>a completion handler of session \<open>ref\<close> begins\<close>
| In_Operation nat session_handler session_result  \<comment> \<open>a part of its \<^verbatim>\<open>async_write\<close> or \<^verbatim>\<open>async_read_until\<close> has completed\<close>
| Test_Flag nat session_handler
| Start_Next nat session_handler
| Leave_Scope nat
| Shut_Down nat bool                               \<comment> \<open>\<^verbatim>\<open>onRequestComplete\<close>, down to \<open>Report\<close>\<close>
| Erase_Lock nat bool
| Erase nat bool
| Report nat bool
| Call_Cancel u32 error_code
| Find_Session u32 error_code
| Guard_Wait nat error_code
| Set_Flag nat error_code
| Cancel_Sock nat error_code
| Call_Returned

fun mt_holds :: "mt_place \<Rightarrow> mutex \<Rightarrow> bool" where
  "mt_holds (Insert ref) m = (m = Active_Sessions_Guard)"
| "mt_holds (Test_Flag ref k) m = (m = Cancel_Guard ref)"
| "mt_holds (Start_Next ref k) m = (m = Cancel_Guard ref)"
| "mt_holds (Leave_Scope ref) m = (m = Cancel_Guard ref)"
| "mt_holds (Shut_Down ref h) m = (h \<and> m = Cancel_Guard ref)"
| "mt_holds (Erase_Lock ref h) m = (h \<and> m = Cancel_Guard ref)"
| "mt_holds (Erase ref h) m = (m = Active_Sessions_Guard \<or> h \<and> m = Cancel_Guard ref)"
| "mt_holds (Report ref h) m = (h \<and> m = Cancel_Guard ref)"
| "mt_holds (Find_Session i ec) m = (m = Active_Sessions_Guard)"
| "mt_holds (Guard_Wait ref ec) m = (m = Active_Sessions_Guard)"
| "mt_holds (Set_Flag ref ec) m = (m = Active_Sessions_Guard \<or> m = Cancel_Guard ref)"
| "mt_holds (Cancel_Sock ref ec) m = (m = Active_Sessions_Guard \<or> m = Cancel_Guard ref)"
| "mt_holds _ m = False"

definition mt_free :: "mutex \<Rightarrow> mt_place list \<Rightarrow> bool" where
  "mt_free m ps \<longleftrightarrow> list_all (\<lambda>p. \<not> mt_holds p m) ps"

text \<open>The session in the state the library leaves it in before it calls a handler, and a session put back.\<close>

definition received :: "session_result \<Rightarrow> session \<Rightarrow> session" where
  "received r s = s\<lparr>ses_response_buf := ses_response_buf s @ sr_data r\<rparr>"

definition put_session :: "nat \<Rightarrow> session \<Rightarrow> tcp_client \<Rightarrow> tcp_client" where
  "put_session ref s c = c\<lparr>session_heap := (session_heap c)(ref \<mapsto> s)\<rparr>"

definition read_response :: "session \<Rightarrow> session" where
  "read_response s =
     (let (response, strm) = getline LF (open_istream (ses_response_buf s)) (ses_response s)
      in s\<lparr>ses_response := response, ses_response_buf := rdbuf strm\<rparr>)"

text \<open>The operation that follows that of a handler.\<close>

fun next_operation :: "session_handler \<Rightarrow> session \<Rightarrow> session_handler \<times> async_op" where
  "next_operation On_Connected s = (On_Written, Async_Write [ses_request s])"
| "next_operation _ s = (On_Response_Read, Async_Read_Until [LF])"

text \<open>One move of one thread, with the actions it makes.\<close>

inductive mt_move ::
  "mt_place list \<Rightarrow> mt_place \<Rightarrow> tcp_client \<Rightarrow> mt_place \<Rightarrow> tcp_client \<Rightarrow> session_action list \<Rightarrow> bool" for ps where
  submit_address: "is_error aec \<Longrightarrow>
    mt_move ps (Call_Submit aec oec d ip port cb i) c Call_Returned c [Raise (System_Error aec)]"
| submit_open: "\<not> is_error aec \<Longrightarrow> is_error oec \<Longrightarrow>
    mt_move ps (Call_Submit aec oec d ip port cb i) c Call_Returned c [Raise (System_Error oec)]"
| submit_session: "\<not> is_error aec \<Longrightarrow> \<not> is_error oec \<Longrightarrow>
    mt_move ps (Call_Submit aec oec d ip port cb i) c (Insert_Lock (session_count c))
      (put_session (session_count c) (new_session ip port (calc_request d) i cb) (c\<lparr>session_count := Suc (session_count c)\<rparr>)) []"
| insert_lock: "mt_free Active_Sessions_Guard ps \<Longrightarrow> mt_move ps (Insert_Lock ref) c (Insert ref) c []"
| insert: "session_heap c ref = Some s \<Longrightarrow> mt_move ps (Insert ref) c (Start_Connect ref)
      (c\<lparr>m_active_sessions := insert_session (m_active_sessions c) (ses_id s) ref\<rparr>) []"
| start_connect: "mt_move ps (Start_Connect ref) c Call_Returned
      (c\<lparr>waiting := waiting c @ [(ref, On_Connected)]\<rparr>) [Start On_Connected Async_Connect]"
| next_part: "session_heap c ref = Some s \<Longrightarrow>
    mt_move ps (In_Operation ref k r) c Call_Returned
      (put_session ref (received r s) (c\<lparr>waiting := waiting c @ [(ref, k)]\<rparr>)) []"
| handler_error: "session_heap c ref = Some s \<Longrightarrow> is_error (sr_ec r) \<Longrightarrow>
    mt_move ps (In_Handler ref k r) c (Shut_Down ref False) (put_session ref ((received r s)\<lparr>ses_ec := sr_ec r\<rparr>) c) []"
| handler_response: "session_heap c ref = Some s \<Longrightarrow> \<not> is_error (sr_ec r) \<Longrightarrow>
    mt_move ps (In_Handler ref On_Response_Read r) c (Shut_Down ref False) (put_session ref (read_response (received r s)) c) []"
| handler_lock: "session_heap c ref = Some s \<Longrightarrow> \<not> is_error (sr_ec r) \<Longrightarrow> k \<noteq> On_Response_Read \<Longrightarrow>
    mt_free (Cancel_Guard ref) ps \<Longrightarrow>
    mt_move ps (In_Handler ref k r) c (Test_Flag ref k) (put_session ref (received r s) c) []"
| flag_set: "session_heap c ref = Some s \<Longrightarrow> ses_was_cancelled s \<Longrightarrow>
    mt_move ps (Test_Flag ref k) c (Shut_Down ref True) c []"
| flag_clear: "session_heap c ref = Some s \<Longrightarrow> \<not> ses_was_cancelled s \<Longrightarrow>
    mt_move ps (Test_Flag ref k) c (Start_Next ref k) c []"
| start_next: "session_heap c ref = Some s \<Longrightarrow> next_operation k s = (k', op) \<Longrightarrow>
    mt_move ps (Start_Next ref k) c (Leave_Scope ref) (c\<lparr>waiting := waiting c @ [(ref, k')]\<rparr>) [Start k' op]"
| leave_scope: "mt_move ps (Leave_Scope ref) c Call_Returned c []"
| shut_down: "mt_move ps (Shut_Down ref h) c (Erase_Lock ref h) c [Shutdown shutdown_both]"
| erase_lock: "mt_free Active_Sessions_Guard ps \<Longrightarrow> mt_move ps (Erase_Lock ref h) c (Erase ref h) c []"
| erase: "session_heap c ref = Some s \<Longrightarrow> mt_move ps (Erase ref h) c (Report ref h)
      (c\<lparr>m_active_sessions := erase_session (m_active_sessions c) (ses_id s)\<rparr>) []"
| report: "session_heap c ref = Some s \<Longrightarrow>
    mt_move ps (Report ref h) c Call_Returned c
      [case ses_callback s of
         None \<Rightarrow> Throw Bad_Function_Call
       | Some cb \<Rightarrow> Callback (cb, ses_id s, ses_response s, completion_code s)]"
| cancel_lock: "mt_free Active_Sessions_Guard ps \<Longrightarrow> mt_move ps (Call_Cancel i ec) c (Find_Session i ec) c []"
| find_none: "find_session (m_active_sessions c) i = None \<Longrightarrow> mt_move ps (Find_Session i ec) c Call_Returned c []"
| find_some: "find_session (m_active_sessions c) i = Some ref \<Longrightarrow> mt_move ps (Find_Session i ec) c (Guard_Wait ref ec) c []"
| cancel_guard: "mt_free (Cancel_Guard ref) ps \<Longrightarrow> mt_move ps (Guard_Wait ref ec) c (Set_Flag ref ec) c []"
| set_flag: "session_heap c ref = Some s \<Longrightarrow>
    mt_move ps (Set_Flag ref ec) c (Cancel_Sock ref ec) (put_session ref (s\<lparr>ses_was_cancelled := True\<rparr>) c) []"
| cancel_sock: "mt_move ps (Cancel_Sock ref ec) c Call_Returned c
      ([Cancel_Socket] @ (if is_error ec then [Raise (System_Error ec)] else []))"

inductive_cases mt_moveE: "mt_move ps p c p' c' as"

type_synonym mt_state = "mt_place list \<times> tcp_client \<times> session_action list"

text \<open>A thread moves, an operation completes and a thread of the pool begins its handler, a part of a composed operation completes,
  or the user calls a member function.\<close>

inductive mt_step :: "mt_state \<Rightarrow> mt_state \<Rightarrow> bool" where
  move: "j < length ps \<Longrightarrow> mt_move ps (ps ! j) c p c' as \<Longrightarrow> mt_step (ps, c, tr) (ps[j := p], c', tr @ as)"
| completes: "n < length (waiting c) \<Longrightarrow> waiting c ! n = (ref, k) \<Longrightarrow>
    mt_step (ps, c, tr)
      (ps @ [In_Handler ref k r], c\<lparr>waiting := take n (waiting c) @ drop (Suc n) (waiting c)\<rparr>, tr)"
| part_completes: "n < length (waiting c) \<Longrightarrow> waiting c ! n = (ref, k) \<Longrightarrow> k \<noteq> On_Connected \<Longrightarrow>
    mt_step (ps, c, tr)
      (ps @ [In_Operation ref k r], c\<lparr>waiting := take n (waiting c) @ drop (Suc n) (waiting c)\<rparr>, tr)"
| submit_called: "mt_step (ps, c, tr) (ps @ [Call_Submit aec oec d ip port cb i], c, tr)"
| cancel_called: "mt_step (ps, c, tr) (ps @ [Call_Cancel i ec], c, tr)"
| close_called: "mt_step (ps, c, tr) (ps, close_client c, tr)"

inductive_cases mt_stepE: "mt_step (ps, c, tr) (ps', c', tr')"

text \<open>What the interface asks of its user: no id is submitted while it is still in use.\<close>

fun inserts_fresh :: "tcp_client \<Rightarrow> mt_place \<Rightarrow> bool" where
  "inserts_fresh c (Insert ref) =
     (case session_heap c ref of None \<Rightarrow> True | Some s \<Rightarrow> find_session (m_active_sessions c) (ses_id s) = None)"
| "inserts_fresh c _ = True"

definition ids_fresh :: "mt_state \<Rightarrow> bool" where
  "ids_fresh st = (case st of (ps, c, tr) \<Rightarrow> list_all (inserts_fresh c) ps)"

inductive mt_reachable :: "mt_state \<Rightarrow> bool" where
  start: "mt_reachable ([], new_tcp_client, [])"
| step: "mt_reachable st \<Longrightarrow> ids_fresh st \<Longrightarrow> mt_step st st' \<Longrightarrow> mt_reachable st'"

text \<open>\<^verbatim>\<open>close\<close> joins all threads of the pool: each leaves \<^verbatim>\<open>run\<close> when it is in no handler and no operation
  waits. The calls of user threads have returned by then.\<close>

definition mt_join_returns :: "mt_state \<Rightarrow> bool" where
  "mt_join_returns st = (case st of (ps, c, tr) \<Rightarrow>
     \<not> m_work c \<and> waiting c = [] \<and> list_all (\<lambda>p. p = Call_Returned) ps)"

end
