(* ===== verification/Async_Tcp_Mt_Properties.thy ===== *)
theory Async_Tcp_Mt_Properties
  imports Async_Tcp_Mt Async_Tcp_Accounting
begin

section \<open>Multi-threaded TCP client: the invariant of its schedules\<close>

text \<open>
  Mutual exclusion of the mutexes, and what is true of the sessions at every place of every thread: each session has at
  most one thread or waiting operation that drives it, and its entry is in the table of active sessions exactly
  between its insertion and its completion.
\<close>

subsection \<open>Mutual exclusion\<close>

lemma mt_move_acquires: "mt_move ps p c p' c' as \<Longrightarrow> mt_holds p' m \<Longrightarrow> mt_holds p m \<or> nobody_holds mt_holds m ps"
  unfolding nobody_holds_def mt_free_def [symmetric] by (erule mt_moveE) auto

interpretation mt: mutex_discipline mt_holds "\<lambda>ps p p'. \<exists>c c' as. mt_move ps p c p' c' as"
  by unfold_locales (use mt_move_acquires in blast)

subsection \<open>Sessions and the places that drive them\<close>

fun chain_ref :: "mt_place \<Rightarrow> nat option" where
  "chain_ref (Insert_Lock ref) = Some ref"
| "chain_ref (Insert ref) = Some ref"
| "chain_ref (Start_Connect ref) = Some ref"
| "chain_ref (In_Handler ref k r) = Some ref"
| "chain_ref (In_Operation ref k r) = Some ref"
| "chain_ref (Test_Flag ref k) = Some ref"
| "chain_ref (Start_Next ref k) = Some ref"
| "chain_ref (Shut_Down ref h) = Some ref"
| "chain_ref (Erase_Lock ref h) = Some ref"
| "chain_ref (Erase ref h) = Some ref"
| "chain_ref (Report ref h) = Some ref"
| "chain_ref _ = None"

definition tokens :: "mt_place list \<Rightarrow> tcp_client \<Rightarrow> nat \<Rightarrow> nat" where
  "tokens ps c ref = length (filter (\<lambda>p. chain_ref p = Some ref) ps) + length (filter (\<lambda>x. fst x = ref) (waiting c))"

definition registered :: "tcp_client \<Rightarrow> nat \<Rightarrow> bool" where
  "registered c ref \<longleftrightarrow> (\<exists>i. find_session (m_active_sessions c) i = Some ref)"

definition table_ok :: "tcp_client \<Rightarrow> bool" where
  "table_ok c \<longleftrightarrow> (\<forall>i ref. find_session (m_active_sessions c) i = Some ref \<longrightarrow>
     (\<exists>s. session_heap c ref = Some s \<and> ses_id s = i))"

fun place_ok :: "tcp_client \<Rightarrow> mt_place \<Rightarrow> bool" where
  "place_ok c (Insert_Lock ref) = (session_heap c ref \<noteq> None \<and> \<not> registered c ref)"
| "place_ok c (Insert ref) = (session_heap c ref \<noteq> None \<and> \<not> registered c ref)"
| "place_ok c (Report ref h) = (session_heap c ref \<noteq> None \<and> \<not> registered c ref)"
| "place_ok c (Start_Connect ref) = registered c ref"
| "place_ok c (In_Handler ref k r) = registered c ref"
| "place_ok c (In_Operation ref k r) = registered c ref"
| "place_ok c (Test_Flag ref k) = registered c ref"
| "place_ok c (Start_Next ref k) = registered c ref"
| "place_ok c (Shut_Down ref h) = registered c ref"
| "place_ok c (Erase_Lock ref h) = registered c ref"
| "place_ok c (Erase ref h) = registered c ref"
| "place_ok c (Guard_Wait ref ec) = registered c ref"
| "place_ok c (Set_Flag ref ec) = registered c ref"
| "place_ok c (Cancel_Sock ref ec) = registered c ref"
| "place_ok c _ = True"

definition heap_ok :: "tcp_client \<Rightarrow> bool" where
  "heap_ok c \<longleftrightarrow> (\<forall>ref. session_heap c ref \<noteq> None \<longleftrightarrow> ref < session_count c)"

definition mt_ok :: "mt_place list \<Rightarrow> tcp_client \<Rightarrow> bool" where
  "mt_ok ps c \<longleftrightarrow> exclusive_holders mt_holds ps \<and> (\<forall>ref. tokens ps c ref \<le> 1) \<and> table_ok c \<and> heap_ok c \<and>
     list_all (place_ok c) ps \<and> list_all (\<lambda>x. registered c (fst x)) (waiting c)"

lemma mt_okD:
  assumes "mt_ok ps c"
  shows "exclusive_holders mt_holds ps" "tokens ps c ref \<le> 1" "table_ok c" "heap_ok c" "j < length ps \<Longrightarrow> place_ok c (ps ! j)"
    "x \<in> set (waiting c) \<Longrightarrow> registered c (fst x)"
  using assms by (auto simp: mt_ok_def list_all_iff)

lemma mt_ok_start: "mt_ok [] new_tcp_client"
  by (simp add: mt_ok_def exclusive_holders_def tokens_def table_ok_def heap_ok_def new_tcp_client_def tab.find_empty)

text \<open>A registered session is in the heap, under its own id and no other.\<close>

lemma registeredE:
  assumes "table_ok c" and "registered c ref"
  obtains s where "session_heap c ref = Some s" and "find_session (m_active_sessions c) (ses_id s) = Some ref"
    and "\<And>i. find_session (m_active_sessions c) i = Some ref \<Longrightarrow> i = ses_id s"
  using assms unfolding table_ok_def registered_def by (metis option.inject)

lemma registered_heap: "table_ok c \<Longrightarrow> registered c ref \<Longrightarrow> session_heap c ref \<noteq> None"
  by (auto elim: registeredE)

lemma place_ok_heap: "table_ok c \<Longrightarrow> place_ok c p \<Longrightarrow> chain_ref p = Some ref \<Longrightarrow> session_heap c ref \<noteq> None"
  by (cases p) (auto elim: registeredE)

subsection \<open>What a move changes\<close>

text \<open>The part of a session that never changes.\<close>

definition ident :: "tcp_client \<Rightarrow> nat \<Rightarrow> (u32 \<times> nat option) option" where
  "ident c ref = map_option (\<lambda>s. (ses_id s, ses_callback s)) (session_heap c ref)"

lemma ident_None: "ident c ref = None \<longleftrightarrow> session_heap c ref = None"
  by (simp add: ident_def)

lemma session_parts [simp]:
  "ses_id (received r s) = ses_id s" "ses_callback (received r s) = ses_callback s"
  "ses_was_cancelled (received r s) = ses_was_cancelled s"
  "ses_id (read_response s) = ses_id s" "ses_callback (read_response s) = ses_callback s"
  "ses_was_cancelled (read_response s) = ses_was_cancelled s"
  by (simp_all add: received_def read_response_def case_prod_beta)

lemma put_session_sel [simp]:
  "session_heap (put_session ref s c) = (session_heap c)(ref \<mapsto> s)" "waiting (put_session ref s c) = waiting c"
  "m_active_sessions (put_session ref s c) = m_active_sessions c" "session_count (put_session ref s c) = session_count c"
  "m_work (put_session ref s c) = m_work c"
  by (simp_all add: put_session_def)

text \<open>Only four kinds of moves matter to the invariant: those that keep the table and the identities of the sessions, the
  creation of a session, its insertion, and its removal.\<close>

lemma mt_move_effect:
  assumes "mt_move ps p c p' c' as"
  obtains (keeps) "ident c' = ident c" "m_active_sessions c' = m_active_sessions c" "session_count c' = session_count c"
    | (creates) s where "ident c' = (ident c)(session_count c \<mapsto> s)" "m_active_sessions c' = m_active_sessions c"
        "session_count c' = Suc (session_count c)" "chain_ref p = None" "p' = Insert_Lock (session_count c)"
    | (inserts) ref s where "p = Insert ref" "p' = Start_Connect ref" "session_heap c ref = Some s"
        "c' = c\<lparr>m_active_sessions := insert_session (m_active_sessions c) (ses_id s) ref\<rparr>"
    | (erases) ref h s where "p = Erase ref h" "p' = Report ref h" "session_heap c ref = Some s"
        "c' = c\<lparr>m_active_sessions := erase_session (m_active_sessions c) (ses_id s)\<rparr>"
  using assms
  by (cases rule: mt_move.cases) (auto simp: ident_def fun_eq_iff)

lemma registered_insert:
  assumes "find_session (m_active_sessions c) i = None"
  shows "registered (c\<lparr>m_active_sessions := insert_session (m_active_sessions c) i ref\<rparr>) x \<longleftrightarrow> registered c x \<or> x = ref"
proof -
  have "(\<exists>j. (if j = i then Some ref else find_session (m_active_sessions c) j) = Some x) \<longleftrightarrow> registered c x \<or> x = ref"
    unfolding registered_def using assms by (metis option.inject option.distinct(1))
  then show ?thesis by (simp add: registered_def tab.find_insert)
qed

lemma find_registered:
  assumes "table_ok c" and "session_heap c ref = Some s" and "registered c ref"
  shows "find_session (m_active_sessions c) i = Some ref \<longleftrightarrow> i = ses_id s"
proof -
  from assms(3) obtain j where "find_session (m_active_sessions c) j = Some ref" by (auto simp: registered_def)
  moreover have "find_session (m_active_sessions c) i = Some ref \<Longrightarrow> i = ses_id s" for i
    using assms(1,2) unfolding table_ok_def by fastforce
  ultimately show ?thesis by blast
qed

lemma registered_erase:
  assumes "table_ok c" and "session_heap c ref = Some s" and "registered c ref"
  shows "registered (c\<lparr>m_active_sessions := erase_session (m_active_sessions c) (ses_id s)\<rparr>) x \<longleftrightarrow> registered c x \<and> x \<noteq> ref"
proof -
  note key = find_registered [OF assms]
  have "(\<exists>j. (if j = ses_id s then None else find_session (m_active_sessions c) j) = Some x) \<longleftrightarrow> registered c x \<and> x \<noteq> ref"
    unfolding registered_def using key by (metis option.inject option.distinct(1))
  then show ?thesis by (simp add: registered_def tab.find_erase)
qed

lemma registered_same: "m_active_sessions c' = m_active_sessions c \<Longrightarrow> registered c' x = registered c x"
  by (simp add: registered_def)

lemma fresh_ref: "table_ok c \<Longrightarrow> heap_ok c \<Longrightarrow> session_heap c (session_count c) = None \<and> \<not> registered c (session_count c)"
  by (auto simp: heap_ok_def elim: registeredE)

text \<open>The place a thread moves to.\<close>

lemma place_ok_own:
  assumes "mt_move ps p c p' c' as" and "place_ok c p" and "table_ok c" and "heap_ok c" and "inserts_fresh c p"
  shows "place_ok c' p'"
  using assms
proof (cases rule: mt_move.cases)
  case (erase ref s h)
  with assms(2,3) show ?thesis using registered_erase [of c ref s ref] by simp
next
  case (insert ref s)
  with assms(5) show ?thesis using registered_insert [of c "ses_id s" ref ref] by simp
next
  case (submit_session aec oec d ip port cb i)
  with fresh_ref [OF assms(3,4)] show ?thesis by (simp add: registered_def)
qed (auto simp: registered_def)

text \<open>The places of the other threads.\<close>

lemma place_ok_frame:
  assumes move: "mt_move ps p c p' c' as" and p: "place_ok c p" "table_ok c" "inserts_fresh c p"
    and q: "place_ok c q" and chain: "chain_ref p \<noteq> None \<Longrightarrow> chain_ref p \<noteq> chain_ref q"
    and excl: "\<And>m. \<not> (mt_holds p m \<and> mt_holds q m)"
  shows "place_ok c' q"
  using move
proof (cases rule: mt_move_effect)
  case keeps
  then have "session_heap c' ref = None \<longleftrightarrow> session_heap c ref = None" for ref by (metis ident_None)
  with q registered_same [OF keeps(2)] show ?thesis by (cases q) simp_all
next
  case (creates s)
  then have "session_heap c ref \<noteq> None \<Longrightarrow> session_heap c' ref \<noteq> None" for ref
    by (metis ident_None fun_upd_apply option.distinct(1))
  with q registered_same [OF creates(2)] show ?thesis by (cases q) simp_all
next
  case (inserts ref s)
  with p(3) have reg: "registered c' x \<longleftrightarrow> registered c x \<or> x = ref" for x using registered_insert by simp
  with q chain inserts show ?thesis by (cases q) auto
next
  case (erases ref h s)
  with p have reg: "registered c' x \<longleftrightarrow> registered c x \<and> x \<noteq> ref" for x using registered_erase by simp
  have "\<not> mt_holds q Active_Sessions_Guard" using excl [of Active_Sessions_Guard] erases(1) by simp
  with q chain erases reg show ?thesis by (cases q) auto
qed

lemma table_ok_move:
  assumes "mt_move ps p c p' c' as" and p: "place_ok c p" "table_ok c" "heap_ok c"
  shows "table_ok c'"
  using assms(1)
proof (cases rule: mt_move_effect)
  case keeps
  have "\<exists>t. session_heap c' x = Some t \<and> ses_id t = ses_id s" if "session_heap c x = Some s" for x s
    using fun_cong [OF keeps(1), of x] that by (auto simp: ident_def)
  with p(2) keeps(2) show ?thesis unfolding table_ok_def by metis
next
  case (creates t)
  have "\<exists>t. session_heap c' x = Some t \<and> ses_id t = ses_id s" if "session_heap c x = Some s" for x s
    using fun_cong [OF creates(1), of x] that fresh_ref [OF p(2,3)] by (auto simp: ident_def split: if_splits)
  with p(2) creates(2) show ?thesis unfolding table_ok_def by metis
next
  case (inserts ref s)
  with p(2) show ?thesis by (auto simp: table_ok_def tab.find_insert)
next
  case (erases ref h s)
  with p(2) show ?thesis by (auto simp: table_ok_def tab.find_erase)
qed

lemma heap_ok_move:
  assumes "mt_move ps p c p' c' as" and "heap_ok c"
  shows "heap_ok c'"
  using assms(1)
proof (cases rule: mt_move_effect)
  case keeps
  then have "session_heap c' x = None \<longleftrightarrow> session_heap c x = None" for x by (metis ident_None)
  with assms(2) keeps(3) show ?thesis by (simp add: heap_ok_def)
next
  case (creates t)
  have "session_heap c' x = None \<longleftrightarrow> session_heap c x = None \<and> x \<noteq> session_count c" for x
    using fun_cong [OF creates(1), of x] ident_None [of c' x] ident_None [of c x] by (auto split: if_splits)
  with assms(2) creates(3) show ?thesis by (auto simp: heap_ok_def less_Suc_eq)
qed (use assms(2) in \<open>simp_all add: heap_ok_def\<close>)

text \<open>A move hands the token of its session on, to its next place or to the operation it starts.\<close>

lemma tokens_move:
  assumes "mt_move ps p c p' c' as" and "j < length ps" and "ps ! j = p"
  shows "tokens (ps[j := p']) c' ref = tokens ps c ref \<or> (chain_ref p = None \<and> p' = Insert_Lock (session_count c) \<and>
      ref = session_count c \<and> tokens (ps[j := p']) c' ref = Suc (tokens ps c ref)) \<or> tokens (ps[j := p']) c' ref < tokens ps c ref"
proof -
  note upd = filter_update_length [OF assms(2), of "\<lambda>p. chain_ref p = Some ref" p']
  show ?thesis
    using assms(1) upd assms(3)
    by (cases rule: mt_move.cases) (auto simp: tokens_def split: if_splits)
qed

subsection \<open>The invariant is kept\<close>

lemma two_tokens:
  assumes "tokens ps c ref \<le> 1" and "j < length ps" and "k < length ps" and "j \<noteq> k"
    and "chain_ref (ps ! j) = Some ref"
  shows "chain_ref (ps ! k) \<noteq> Some ref"
  using two_in_filter [OF assms(2-4), of "\<lambda>p. chain_ref p = Some ref"] assms(1,5) by (auto simp: tokens_def)

lemma token_waits:
  assumes "tokens ps c ref \<le> 1" and "j < length ps" and "chain_ref (ps ! j) = Some ref" and "x \<in> set (waiting c)"
  shows "fst x \<noteq> ref"
proof
  assume "fst x = ref"
  with assms(4) have "filter (\<lambda>x. fst x = ref) (waiting c) \<noteq> []" by (auto simp: filter_empty_conv)
  moreover have "filter (\<lambda>p. chain_ref p = Some ref) ps \<noteq> []" using assms(2,3) by (auto simp: filter_empty_conv intro: nth_mem)
  ultimately have "1 \<le> length (filter (\<lambda>x. fst x = ref) (waiting c))" "1 \<le> length (filter (\<lambda>p. chain_ref p = Some ref) ps)"
    by (simp_all add: Suc_le_eq)
  with assms(1) show False by (simp add: tokens_def)
qed

text \<open>A session that is not in the heap has no token.\<close>

lemma no_token:
  assumes "mt_ok ps c" and "session_heap c ref = None"
  shows "tokens ps c ref = 0"
proof -
  note ok = mt_okD [OF assms(1)]
  have "chain_ref p \<noteq> Some ref" if "p \<in> set ps" for p
    using that ok(5) place_ok_heap [OF ok(3), of p ref] assms(2) by (auto simp: in_set_conv_nth)
  moreover have "fst x \<noteq> ref" if "x \<in> set (waiting c)" for x
    using registered_heap [OF ok(3) ok(6) [OF that]] assms(2) by auto
  ultimately show ?thesis by (simp add: tokens_def)
qed

lemma waiting_move:
  assumes "mt_move ps p c p' c' as" and "place_ok c p"
  shows "waiting c' = waiting c \<or> (\<exists>ref k. waiting c' = waiting c @ [(ref, k)] \<and> registered c ref \<and> m_active_sessions c' = m_active_sessions c)"
  using assms by (cases rule: mt_move.cases) auto

lemma mt_ok_move:
  assumes ok: "mt_ok ps c" and j: "j < length ps" and move: "mt_move ps (ps ! j) c p' c' as"
    and fresh: "inserts_fresh c (ps ! j)"
  shows "mt_ok (ps[j := p']) c'"
proof -
  note okD = mt_okD [OF ok]
  note p = okD(5) [OF j] okD(3) fresh
  have excl: "\<not> (mt_holds (ps ! j) m \<and> mt_holds (ps ! k) m)" if "k < length ps" "k \<noteq> j" for k m
    using exclusive_holdersD [OF okD(1) j that(1)] that(2) by blast
  have chain: "chain_ref (ps ! j) \<noteq> chain_ref (ps ! k)" if "k < length ps" "k \<noteq> j" "chain_ref (ps ! j) \<noteq> None" for k
    using two_tokens [OF okD(2) j that(1)] that by fastforce
  have frame: "place_ok c' (ps ! k)" if "k < length ps" "k \<noteq> j" for k
    using place_ok_frame [OF move p okD(5) [OF that(1)]] chain [OF that] excl [OF that] by blast
  from move have moves: "\<exists>c c' as. mt_move ps (ps ! j) c p' c' as" by blast
  have tok: "tokens (ps[j := p']) c' ref \<le> 1" for ref
    using tokens_move [OF move j refl, of ref] okD(2) [of ref] no_token [OF ok, of ref] fresh_ref [OF okD(3,4)] by auto
  have "list_all (place_ok c') (ps[j := p'])"
    using place_ok_own [OF move p(1,2) okD(4) fresh] frame j by (auto simp: list_all_length nth_list_update)
  moreover have "registered c' (fst x)" if "x \<in> set (waiting c)" for x
    using move
  proof (cases rule: mt_move_effect)
    case keeps
    with okD(6) [OF that] show ?thesis by (simp add: registered_def)
  next
    case (creates s)
    with okD(6) [OF that] show ?thesis by (simp add: registered_def)
  next
    case (inserts ref s)
    with fresh registered_insert [of c "ses_id s" ref "fst x"] okD(6) [OF that] show ?thesis by simp
  next
    case (erases ref h s)
    then have ref: "chain_ref (ps ! j) = Some ref" by simp
    have "registered c ref" using p(1) erases(1) by simp
    from registered_erase [OF okD(3) erases(3) this, of "fst x"] okD(6) [OF that] token_waits [OF okD(2) j ref that]
    show ?thesis by (simp add: erases(4))
  qed
  then have "list_all (\<lambda>x. registered c' (fst x)) (waiting c')"
    using waiting_move [OF move p(1)] by (auto simp: list_all_iff registered_def)
  ultimately show ?thesis
    using mt.move_exclusive [OF okD(1) j moves] table_ok_move [OF move p(1,2) okD(4)] heap_ok_move [OF move okD(4)] tok
    by (simp add: mt_ok_def)
qed

text \<open>The steps that are not moves: a waiting operation hands its token to the handler, a call begins without one.\<close>

lemma mt_ok_same:
  assumes "mt_ok ps c" and "m_active_sessions c' = m_active_sessions c" and "session_heap c' = session_heap c"
    and "session_count c' = session_count c" and "set (waiting c') \<subseteq> set (waiting c)"
    and "exclusive_holders mt_holds ps'" and "\<And>ref. tokens ps' c' ref = tokens ps c ref"
    and "\<And>p. p \<in> set ps' \<Longrightarrow> p \<in> set ps \<or> place_ok c p"
  shows "mt_ok ps' c'"
proof -
  have "registered c' x = registered c x" for x using assms(2) by (rule registered_same)
  moreover from this have "place_ok c' p = place_ok c p" for p by (cases p) (simp_all add: assms(3))
  then have "place_ok c' = place_ok c" by (rule ext)
  moreover have "list_all (place_ok c) ps'" using assms(8) assms(1) unfolding mt_ok_def list_all_iff by blast
  moreover have "list_all (\<lambda>x. registered c (fst x)) (waiting c')"
    using assms(5) assms(1) unfolding mt_ok_def list_all_iff by blast
  moreover have "table_ok c'" "heap_ok c'"
    using mt_okD(3,4) [OF assms(1)] by (simp_all add: table_ok_def heap_ok_def assms(2-4))
  moreover have "tokens ps' c' ref \<le> 1" for ref using mt_okD(2) [OF assms(1), of ref] unfolding assms(7) .
  ultimately show ?thesis using assms(6) unfolding mt_ok_def by simp
qed

lemma tokens_completes:
  assumes "n < length (waiting c)" and "waiting c ! n = (ref, k)" and "chain_ref q = Some ref"
  shows "tokens (ps @ [q]) (c\<lparr>waiting := take n (waiting c) @ drop (Suc n) (waiting c)\<rparr>) x = tokens ps c x"
  using arg_cong [OF id_take_nth_drop [OF assms(1)], of "\<lambda>w. length (filter (\<lambda>y. fst y = x) w)"] assms(2,3)
  by (simp add: tokens_def)

lemma mt_ok_completes:
  assumes ok: "mt_ok ps c" and n: "n < length (waiting c)" "waiting c ! n = (ref, k)"
    and q: "q = In_Handler ref k r \<or> q = In_Operation ref k r"
  shows "mt_ok (ps @ [q]) (c\<lparr>waiting := take n (waiting c) @ drop (Suc n) (waiting c)\<rparr>)"
proof (rule mt_ok_same [OF ok])
  have "(ref, k) \<in> set (waiting c)" using n nth_mem by force
  from mt_okD(6) [OF ok this] q have "place_ok c q" by auto
  then show "p \<in> set ps \<or> place_ok c p" if "p \<in> set (ps @ [q])" for p using that by auto
  show "exclusive_holders mt_holds (ps @ [q])" using mt_okD(1) [OF ok] q by (auto simp: exclusive_holders_append)
  have "chain_ref q = Some ref" using q by auto
  then show "tokens (ps @ [q]) (c\<lparr>waiting := take n (waiting c) @ drop (Suc n) (waiting c)\<rparr>) x = tokens ps c x" for x
    by (rule tokens_completes [OF n])
qed (use set_take_subset [of n "waiting c"] set_drop_subset [of "Suc n" "waiting c"] in auto)

lemma mt_ok_called:
  assumes "mt_ok ps c" and "chain_ref p = None" and "place_ok c p" and "\<And>m. \<not> mt_holds p m"
  shows "mt_ok (ps @ [p]) c"
  using assms by (simp add: mt_ok_def exclusive_holders_append tokens_def)

lemma mt_ok_closed: "mt_ok ps c \<Longrightarrow> mt_ok ps (close_client c)"
  using mt_okD(1) by (auto intro!: mt_ok_same [of ps c] simp: close_client_def tokens_def)

lemma mt_ok_step:
  assumes ok: "mt_ok ps c" and step: "mt_step (ps, c, tr) (ps', c', tr')" and fresh: "ids_fresh (ps, c, tr)"
  shows "mt_ok ps' c'"
  using step
proof (rule mt_stepE)
  fix j p as assume "ps' = ps[j := p]" and j: "j < length ps" and "mt_move ps (ps ! j) c p c' as"
  moreover have "inserts_fresh c (ps ! j)" using fresh j by (simp add: ids_fresh_def list_all_length)
  ultimately show ?thesis using mt_ok_move [OF ok j] by blast
qed (use ok in \<open>auto intro: mt_ok_completes mt_ok_called mt_ok_closed\<close>)

lemma mt_reachable_ok: "mt_reachable st \<Longrightarrow> case st of (ps, c, tr) \<Rightarrow> mt_ok ps c"
proof (induction rule: mt_reachable.induct)
  case (step st st')
  then show ?case using mt_ok_step by (cases st; cases st') auto
qed (simp add: mt_ok_start)

end
