(* ===== verification/Async_Tcp_Mt_Refinement.thy ===== *)
theory Async_Tcp_Mt_Refinement
  imports Async_Tcp_Mt_Properties
begin

section \<open>Multi-threaded TCP client: every schedule keeps the contract\<close>

text \<open>
  The registry of \<open>Async_Tcp_Spec\<close> is what the single-threaded client promises. Here every schedule of the threads of the
  multi-threaded client is shown to keep the same promise: each member function takes effect in the registry at one
  of its moves, under \<^verbatim>\<open>m_active_sessions_guard\<close>, and what a thread still owes its user is the report of that move.
\<close>

subsection \<open>Where the calls take effect\<close>

fun move_event :: "tcp_client \<Rightarrow> mt_place \<Rightarrow> registry_event" where
  "move_event c (Call_Submit aec oec d ip port cb i) =
     (if is_error aec then Submission_Fails aec else if is_error oec then Submission_Fails oec else Nothing)"
| "move_event c (Insert ref) =
     (case session_heap c ref of None \<Rightarrow> Nothing | Some s \<Rightarrow> Submitted (ses_id s) (ses_callback s))"
| "move_event c (Erase ref h) = Operation_Done (session_id c ref)"
| "move_event c (Find_Session i ec) =
     (if find_session (m_active_sessions c) i = None then Cancel_Requested i ec else Nothing)"
| "move_event c (Set_Flag ref ec) = Cancel_Requested (session_id c ref) ec"
| "move_event c _ = Nothing"

text \<open>The reports a thread owes after the move that decided them.\<close>

fun owed :: "tcp_client \<Rightarrow> mt_place \<Rightarrow> report list" where
  "owed c (Report ref h) =
     (case session_heap c ref of None \<Rightarrow> [] | Some s \<Rightarrow> [report_to (ses_callback s) (ses_id s) (completion_code s)])"
| "owed c (Cancel_Sock ref ec) = (if is_error ec then [Refused (System_Error ec)] else [])"
| "owed c _ = []"

text \<open>The request of a session, and the one a thread has still to insert.\<close>

definition request_at :: "tcp_client \<Rightarrow> nat \<Rightarrow> (u32 \<times> nat) multiset" where
  "request_at c ref =
     (case session_heap c ref of
        None \<Rightarrow> {#}
      | Some s \<Rightarrow> (case ses_callback s of None \<Rightarrow> {#} | Some cb \<Rightarrow> {#(ses_id s, cb)#}))"

fun uninserted :: "tcp_client \<Rightarrow> mt_place \<Rightarrow> (u32 \<times> nat) multiset" where
  "uninserted c (Insert_Lock ref) = request_at c ref"
| "uninserted c (Insert ref) = request_at c ref"
| "uninserted c _ = {#}"

text \<open>Sessions that a thread drives but that are not in the table: before \<open>Insert\<close> and after \<open>Erase\<close>.\<close>

fun hidden_ref :: "mt_place \<Rightarrow> nat option" where
  "hidden_ref (Insert_Lock ref) = Some ref"
| "hidden_ref (Insert ref) = Some ref"
| "hidden_ref (Report ref h) = Some ref"
| "hidden_ref _ = None"

lemma hidden_place:
  "hidden_ref q = Some ref \<Longrightarrow> place_ok c q \<Longrightarrow> session_heap c ref \<noteq> None \<and> \<not> registered c ref \<and> chain_ref q = Some ref"
  by (cases q) auto

lemma move_heap:
  "mt_move ps p c p' c' as \<Longrightarrow> session_heap c' x = session_heap c x \<or> chain_ref p = Some x \<or> (\<exists>ec. p = Set_Flag x ec) \<or>
     x = session_count c"
  by (erule mt_moveE) auto

text \<open>No other thread changes a hidden session.\<close>

lemma hidden_heap:
  assumes "mt_move ps p c p' c' as" and "place_ok c p" and "heap_ok c" and "place_ok c q" and "hidden_ref q = Some ref"
    and "chain_ref p \<noteq> Some ref"
  shows "session_heap c' ref = session_heap c ref"
  using move_heap [OF assms(1), of ref] hidden_place [OF assms(5,4)] assms(2,3,6) by (auto simp: heap_ok_def)

text \<open>A session is cancelled only while it is in the table.\<close>

fun flag_ok :: "tcp_client \<Rightarrow> mt_place \<Rightarrow> bool" where
  "flag_ok c (Insert_Lock ref) = (case session_heap c ref of None \<Rightarrow> True | Some s \<Rightarrow> \<not> ses_was_cancelled s)"
| "flag_ok c (Insert ref) = (case session_heap c ref of None \<Rightarrow> True | Some s \<Rightarrow> \<not> ses_was_cancelled s)"
| "flag_ok c _ = True"

lemma hidden_same:
  assumes "\<And>ref. hidden_ref q = Some ref \<Longrightarrow> session_heap c' ref = session_heap c ref"
  shows "owed c' q = owed c q" and "flag_ok c' q = flag_ok c q" and "uninserted c' q = uninserted c q"
  using assms by (cases q; simp add: request_at_def)+

lemma flag_ok_own: "mt_move ps p c p' c' as \<Longrightarrow> flag_ok c p \<Longrightarrow> flag_ok c' p'"
  by (erule mt_moveE) (auto simp: new_session_def)

lemma other_place:
  assumes "mt_ok ps c" and "j < length ps" and "mt_move ps (ps ! j) c p' c' as" and "k < length ps" and "k \<noteq> j"
  shows "owed c' (ps ! k) = owed c (ps ! k)" and "flag_ok c' (ps ! k) = flag_ok c (ps ! k)"
    and "uninserted c' (ps ! k) = uninserted c (ps ! k)"
proof -
  note ok = mt_okD [OF assms(1)]
  have "session_heap c' ref = session_heap c ref" if hidden: "hidden_ref (ps ! k) = Some ref" for ref
  proof -
    from hidden_place [OF hidden] ok(5) [OF assms(4)] have "chain_ref (ps ! k) = Some ref" by blast
    then have "chain_ref (ps ! j) \<noteq> Some ref" using two_tokens [OF ok(2) assms(4,2,5)] by blast
    with hidden_heap [OF assms(3) ok(5) [OF assms(2)] ok(4) ok(5) [OF assms(4)] hidden] show ?thesis .
  qed
  note same = hidden_same [of "ps ! k" c' c, OF this]
  show "owed c' (ps ! k) = owed c (ps ! k)" and "flag_ok c' (ps ! k) = flag_ok c (ps ! k)"
    and "uninserted c' (ps ! k) = uninserted c (ps ! k)" by (rule same; assumption)+
qed

lemma mt_flags_ok: "mt_reachable st \<Longrightarrow> case st of (ps, c, tr) \<Rightarrow> mt_ok ps c \<and> list_all (flag_ok c) ps"
proof (induction rule: mt_reachable.induct)
  case (step st st')
  obtain ps c tr ps' c' tr' where st: "st = (ps, c, tr)" "st' = (ps', c', tr')" by (cases st; cases st')
  with step.IH have ok: "mt_ok ps c" and flags: "list_all (flag_ok c) ps" by simp_all
  have "list_all (flag_ok c') ps'"
    using step.hyps(3) unfolding st
  proof (rule mt_stepE)
    fix j p as assume ps': "ps' = ps[j := p]" and j: "j < length ps" and move: "mt_move ps (ps ! j) c p c' as"
    have "flag_ok c' p" using flag_ok_own [OF move] flags j by (simp add: list_all_length)
    moreover have "flag_ok c' (ps ! k)" if "k < length ps" "k \<noteq> j" for k
      using other_place(2) [OF ok j move that] flags that(1) by (simp add: list_all_length)
    ultimately show ?thesis using j unfolding ps' by (auto simp: list_all_length nth_list_update)
  next
    assume "ps' = ps" and "c' = close_client c"
    moreover have "flag_ok (close_client c) p = flag_ok c p" for p by (rule hidden_same(2)) (simp add: close_client_def)
    ultimately show ?thesis using flags by (simp add: list_all_iff)
  next
    have same: "flag_ok (c\<lparr>waiting := w\<rparr>) p = flag_ok c p" for p w by (rule hidden_same(2)) simp
    fix n ref k r assume c': "c' = c\<lparr>waiting := take n (waiting c) @ drop (Suc n) (waiting c)\<rparr>"
    { assume "ps' = ps @ [In_Handler ref k r]" with c' same flags show ?thesis by (simp add: list_all_iff) }
    { assume "ps' = ps @ [In_Operation ref k r]" with c' same flags show ?thesis by (simp add: list_all_iff) }
  qed (use flags in simp_all)
  with mt_ok_step [OF ok] step.hyps(2,3) show ?case unfolding st by blast
qed (simp add: mt_ok_start)

subsection \<open>One move, one step of the registry\<close>

lemma entry_of_parts [simp]:
  "entry_of (received r s) = entry_of s" "entry_of (read_response s) = entry_of s" "entry_of (s\<lparr>ses_ec := e\<rparr>) = entry_of s"
  "entry_of (s\<lparr>ses_was_cancelled := True\<rparr>) = (entry_of s)\<lparr>entry_cancelled := True\<rparr>"
  by (simp_all add: entry_of_def)

lemma registry_same:
  assumes "m_active_sessions c' = m_active_sessions c"
    and "\<And>ref. registered c ref \<Longrightarrow> map_option entry_of (session_heap c' ref) = map_option entry_of (session_heap c ref)"
  shows "registry_of c' = registry_of c"
  using assms(2) by (auto simp: registry_of_def registered_def assms(1) fun_eq_iff split: option.split)

lemma registry_insert:
  assumes "session_heap c ref = Some s"
  shows "registry_of (c\<lparr>m_active_sessions := insert_session (m_active_sessions c) (ses_id s) ref\<rparr>)
    = (registry_of c)(ses_id s \<mapsto> entry_of s)"
  using assms by (auto simp: registry_of_def fun_eq_iff tab.find_insert split: option.split)

lemma registry_erase:
  "registry_of (c\<lparr>m_active_sessions := erase_session (m_active_sessions c) i\<rparr>) = (registry_of c)(i := None)"
  by (auto simp: registry_of_def fun_eq_iff tab.find_erase split: option.split)

lemma registry_put:
  assumes "table_ok c" and "registered c ref" and "session_heap c ref = Some s" and "ses_id s' = ses_id s"
  shows "registry_of (put_session ref s' c) = (registry_of c)(ses_id s \<mapsto> entry_of s')"
proof
  fix i
  show "registry_of (put_session ref s' c) i = ((registry_of c)(ses_id s \<mapsto> entry_of s')) i"
    using find_registered [OF assms(1,3,2), of i] by (cases "i = ses_id s") (auto simp: registry_of_def split: option.split)
qed

lemma registry_entry:
  assumes "table_ok c" and "registered c ref" and "session_heap c ref = Some s"
  shows "registry_of c (ses_id s) = Some (entry_of s)"
  using find_registered [OF assms(1,3,2), of "ses_id s"] assms(3) by (simp add: registry_of_def)

definition move_refines :: "tcp_client \<Rightarrow> mt_place \<Rightarrow> tcp_client \<Rightarrow> mt_place \<Rightarrow> session_action list \<Rightarrow> report list \<Rightarrow> bool" where
  "move_refines c p c' p' as rs \<longleftrightarrow> registry_step (registry_of c) (move_event c p) (registry_of c') rs \<and>
     mset rs + mset (owed c p) = mset (reports_of as) + mset (owed c' p')"

lemma move_silent:
  assumes "move_event c p = Nothing" and "registry_of c' = registry_of c" and "mset (owed c p) = mset (reports_of as) + mset (owed c' p')"
  shows "\<exists>rs. move_refines c p c' p' as rs"
  using assms registry_step.nothing by (intro exI [of _ "[]"]) (simp add: move_refines_def)

lemma move_refines_registry:
  assumes move: "mt_move ps p c p' c' as" and p: "place_ok c p" "table_ok c" "heap_ok c" "inserts_fresh c p" "flag_ok c p"
  shows "\<exists>rs. move_refines c p c' p' as rs"
  using move
proof (cases rule: mt_move.cases)
  case (submit_address aec oec d ip port cb i)
  then show ?thesis using registry_step.submission_fails
    by (intro exI [of _ "[Refused (System_Error aec)]"]) (simp add: move_refines_def)
next
  case (submit_open aec oec d ip port cb i)
  then show ?thesis using registry_step.submission_fails
    by (intro exI [of _ "[Refused (System_Error oec)]"]) (simp add: move_refines_def)
next
  case (submit_session aec oec d ip port cb i)
  show ?thesis
  proof (rule move_silent)
    show "registry_of c' = registry_of c"
      using submit_session fresh_ref [OF p(2,3)] by (intro registry_same) auto
  qed (use submit_session in simp_all)
next
  case (insert ref s)
  with p(4,5) registry_insert [OF insert(5)] registry_step.submitted [of "registry_of c" "ses_id s" "ses_callback s"]
  show ?thesis by (intro exI [of _ "[]"]) (simp add: move_refines_def registry_of_def entry_of_def)
next
  case (erase ref s h)
  with p(1) have "registered c ref" by simp
  from registry_entry [OF p(2) this erase(5)]
  have "registry_step (registry_of c) (Operation_Done (ses_id s)) ((registry_of c)(ses_id s := None))
      [report_to (entry_callback (entry_of s)) (ses_id s) (completion_code s)]"
    by (rule registry_step.ends) (auto simp: entry_of_def completion_code_def)
  with erase show ?thesis
    by (intro exI [of _ "[report_to (ses_callback s) (ses_id s) (completion_code s)]"])
       (simp add: move_refines_def registry_erase session_id_def entry_of_def)
next
  case (find_none i ec)
  with registry_step.cancel_unknown [of "registry_of c" i ec] show ?thesis
    by (intro exI [of _ "[]"]) (simp add: move_refines_def registry_of_def)
next
  case (set_flag ref s ec)
  with p(1) have reg: "registered c ref" by simp
  from registry_step.cancel_known [where m = "registry_of c" and i = "ses_id s" and ec = ec, OF registry_entry [OF p(2) reg set_flag(5)]]
    registry_put [OF p(2) reg set_flag(5), of "s\<lparr>ses_was_cancelled := True\<rparr>"] set_flag
  show ?thesis
    by (intro exI [of _ "if is_error ec then [Refused (System_Error ec)] else []"]) (simp add: move_refines_def session_id_def)
qed (auto intro!: move_silent registry_same simp: report_to_def split: option.split)


subsection \<open>What all threads owe\<close>

definition sum_over :: "('a \<Rightarrow> 'b multiset) \<Rightarrow> 'a list \<Rightarrow> 'b multiset" where
  "sum_over f ps = \<Sum>\<^sub># (mset (map f ps))"

lemma sum_over_simps [simp]: "sum_over f [] = {#}" "sum_over f (p # ps) = f p + sum_over f ps" "sum_over f (ps @ qs) = sum_over f ps + sum_over f qs"
  by (simp_all add: sum_over_def)

lemma sum_over_update:
  assumes "j < length ps" and "\<And>k. k < length ps \<Longrightarrow> k \<noteq> j \<Longrightarrow> g (ps ! k) = f (ps ! k)"
  shows "sum_over g (ps[j := p]) + f (ps ! j) = sum_over f ps + g p"
proof -
  have map: "map g (ps[j := p]) = (map f ps)[j := g p]"
    using assms by (intro nth_equalityI) (simp_all add: nth_list_update)
  have "mset ((map f ps)[j := g p]) = add_mset (g p) (mset (map f ps) - {#f (ps ! j)#})"
    using assms(1) mset_update [of j "map f ps" "g p"] by simp
  moreover have "f (ps ! j) \<in># mset (map f ps)" using assms(1) by simp
  then have "\<Sum>\<^sub># (mset (map f ps)) = f (ps ! j) + \<Sum>\<^sub># (mset (map f ps) - {#f (ps ! j)#})" by (rule sum_mset.remove)
  ultimately show ?thesis unfolding sum_over_def map by (simp add: ac_simps)
qed

definition outstanding :: "mt_place list \<Rightarrow> tcp_client \<Rightarrow> report multiset" where
  "outstanding ps c = sum_over (\<lambda>p. mset (owed c p)) ps"

lemma outstanding_move:
  assumes "mt_ok ps c" and "j < length ps" and "mt_move ps (ps ! j) c p' c' as"
  shows "outstanding (ps[j := p']) c' + mset (owed c (ps ! j)) = outstanding ps c + mset (owed c' p')"
  unfolding outstanding_def by (rule sum_over_update [OF assms(2)]) (simp add: other_place(1) [OF assms])

lemma mt_move_refines:
  assumes "mt_reachable (ps, c, tr)" and "ids_fresh (ps, c, tr)" and j: "j < length ps" and move: "mt_move ps (ps ! j) c p' c' as"
  shows "\<exists>rs. registry_step (registry_of c) (move_event c (ps ! j)) (registry_of c') rs \<and>
    mset rs + outstanding ps c = mset (reports_of as) + outstanding (ps[j := p']) c'"
proof -
  from mt_flags_ok [OF assms(1)] have ok: "mt_ok ps c" and flag: "flag_ok c (ps ! j)" using j by (simp_all add: list_all_length)
  have "inserts_fresh c (ps ! j)" using assms(2) j by (simp add: ids_fresh_def list_all_length)
  from move_refines_registry [OF move mt_okD(5) [OF ok j] mt_okD(3,4) [OF ok] this flag] obtain rs where
    step: "registry_step (registry_of c) (move_event c (ps ! j)) (registry_of c') rs" and
    eq: "mset rs + mset (owed c (ps ! j)) = mset (reports_of as) + mset (owed c' p')"
    unfolding move_refines_def by blast
  have "mset rs + outstanding ps c + mset (owed c' p') = mset (reports_of as) + outstanding (ps[j := p']) c' + mset (owed c' p')"
    using eq outstanding_move [OF ok j move] by (metis add.assoc add.commute)
  with step show ?thesis by auto
qed

subsection \<open>Every request is reported once\<close>

text \<open>The requests of all sessions ever created.\<close>

definition all_requests :: "tcp_client \<Rightarrow> (u32 \<times> nat) multiset" where
  "all_requests c = sum_over (request_at c) [0..<session_count c]"

lemma request_at_ident:
  "request_at c ref = (case ident c ref of Some (i, Some cb) \<Rightarrow> {#(i, cb)#} | _ \<Rightarrow> {#})"
  by (simp add: request_at_def ident_def split: option.split)

lemma sum_over_cong: "(\<And>p. p \<in> set ps \<Longrightarrow> f p = g p) \<Longrightarrow> sum_over f ps = sum_over g ps"
  unfolding sum_over_def by (metis map_cong)

lemma all_requests_same: "ident c' = ident c \<Longrightarrow> session_count c' = session_count c \<Longrightarrow> all_requests c' = all_requests c"
  unfolding all_requests_def by (auto intro: sum_over_cong simp: request_at_ident)

lemma all_requests_new:
  assumes "ident c' = (ident c)(session_count c \<mapsto> s)" and "session_count c' = Suc (session_count c)"
  shows "all_requests c' = all_requests c + request_at c' (session_count c)"
proof -
  have "sum_over (request_at c') [0..<session_count c] = sum_over (request_at c) [0..<session_count c]"
    by (rule sum_over_cong) (simp add: request_at_ident assms(1))
  then show ?thesis by (simp add: all_requests_def assms(2))
qed

lemma uninserted_move:
  assumes "mt_move ps p c p' c' as" and "heap_ok c" and "place_ok c p"
  shows "all_requests c' + uninserted c p = all_requests c + uninserted c' p' + accepted_request (move_event c p)"
  using assms(1)
proof (cases rule: mt_move_effect)
  case keeps
  have "uninserted c p = uninserted c' p' + accepted_request (move_event c p)"
    using assms(1) keeps(3) by (cases rule: mt_move.cases) (simp_all add: request_at_def split: option.split)
  with all_requests_same [OF keeps(1,3)] show ?thesis by (simp add: ac_simps)
next
  case (creates s)
  have "uninserted c p = {#} \<and> accepted_request (move_event c p) = {#}"
    using assms(1) creates(4,5) by (cases rule: mt_move.cases) simp_all
  with creates(5) all_requests_new [OF creates(1,3)] show ?thesis by simp
next
  case (inserts ref s)
  then have "ident c' = ident c" by (simp add: ident_def fun_eq_iff)
  from all_requests_same [OF this] inserts show ?thesis
    by (cases "ses_callback s") (simp_all add: request_at_def)
next
  case (erases ref h s)
  then have "ident c' = ident c" by (simp add: ident_def fun_eq_iff)
  from all_requests_same [OF this] erases show ?thesis by simp
qed

definition reported_later :: "mt_place list \<Rightarrow> tcp_client \<Rightarrow> (u32 \<times> nat) multiset" where
  "reported_later ps c = sum_over (\<lambda>p. reported (owed c p) + uninserted c p) ps"

definition accounted :: "mt_place list \<Rightarrow> tcp_client \<Rightarrow> session_action list \<Rightarrow> bool" where
  "accounted ps c tr \<longleftrightarrow>
     all_requests c = reported (reports_of tr) + reported_later ps c + mset_set (open_requests (registry_of c))"

lemma reported_mset: "mset rs = mset rs' \<Longrightarrow> reported rs = reported rs'"
  by (simp add: reported_def)

lemma reports_of_append [simp]: "reports_of (as @ bs) = reports_of as @ reports_of bs"
  by (simp add: reports_of_def)

lemma accounted_move:
  assumes ok: "mt_ok ps c" and flag: "list_all (flag_ok c) ps" and fresh: "list_all (inserts_fresh c) ps"
    and j: "j < length ps" and move: "mt_move ps (ps ! j) c p' c' as" and acc: "accounted ps c tr"
  shows "accounted (ps[j := p']) c' (tr @ as)"
proof -
  note okD = mt_okD [OF ok]
  from flag fresh j have "inserts_fresh c (ps ! j)" "flag_ok c (ps ! j)" by (simp_all add: list_all_length)
  from move_refines_registry [OF move okD(5) [OF j] okD(3,4) this] obtain rs where
    step: "registry_step (registry_of c) (move_event c (ps ! j)) (registry_of c') rs" and
    rs: "mset (rs @ owed c (ps ! j)) = mset (reports_of as @ owed c' p')"
    unfolding move_refines_def mset_append by blast
  have "reported_later (ps[j := p']) c' + (reported (owed c (ps ! j)) + uninserted c (ps ! j))
      = reported_later ps c + (reported (owed c' p') + uninserted c' p')"
    unfolding reported_later_def by (intro sum_over_update [OF j]) (simp add: other_place(1,3) [OF ok j move])
  note eqs = this acc [unfolded accounted_def] reported_mset [OF rs] registry_step_accounts [OF step]
    uninserted_move [OF move okD(4) okD(5) [OF j]]
  show ?thesis
    unfolding accounted_def
  proof (rule multiset_eqI)
    fix x
    show "count (all_requests c') x = count (reported (reports_of (tr @ as)) + reported_later (ps[j := p']) c' +
        mset_set (open_requests (registry_of c'))) x"
      using eqs [THEN arg_cong [of _ _ "\<lambda>m. count m x"]] by simp
  qed
qed

lemma accounted_same:
  assumes "session_heap c' = session_heap c" and "m_active_sessions c' = m_active_sessions c" and "session_count c' = session_count c"
    and "sum_over (\<lambda>p. reported (owed c p) + uninserted c p) ps' = sum_over (\<lambda>p. reported (owed c p) + uninserted c p) ps"
  shows "accounted ps' c' tr = accounted ps c tr"
proof -
  have "all_requests c' = all_requests c" using assms(1,3) by (intro all_requests_same) (simp_all add: ident_def fun_eq_iff)
  moreover have "registry_of c' = registry_of c" by (rule registry_same) (simp_all add: assms)
  moreover have "owed c' p = owed c p" "uninserted c' p = uninserted c p" for p by (rule hidden_same; simp add: assms(1))+
  ultimately show ?thesis using assms(4) by (simp add: accounted_def reported_later_def)
qed

lemma mt_reachable_accounted: "mt_reachable st \<Longrightarrow> case st of (ps, c, tr) \<Rightarrow> accounted ps c tr"
proof (induction rule: mt_reachable.induct)
  case start
  show ?case by (simp add: accounted_def all_requests_def reported_later_def new_client_registry) (simp add: new_tcp_client_def)
next
  case (step st st')
  obtain ps c tr ps' c' tr' where st: "st = (ps, c, tr)" "st' = (ps', c', tr')" by (cases st; cases st')
  with step.IH have acc: "accounted ps c tr" by simp
  from mt_flags_ok [OF step.hyps(1)] st have ok: "mt_ok ps c" "list_all (flag_ok c) ps" by simp_all
  have fresh: "list_all (inserts_fresh c) ps" using step.hyps(2) st by (simp add: ids_fresh_def)
  have "accounted ps' c' tr'"
    using step.hyps(3) unfolding st
  proof (rule mt_stepE)
    fix j p as assume "ps' = ps[j := p]" "tr' = tr @ as" and j: "j < length ps" "mt_move ps (ps ! j) c p c' as"
    with accounted_move [OF ok fresh j acc] show ?thesis by simp
  next
    fix n ref k r assume "ps' = ps @ [In_Handler ref k r]" "c' = c\<lparr>waiting := take n (waiting c) @ drop (Suc n) (waiting c)\<rparr>" "tr' = tr"
    with acc accounted_same [of c' c ps' ps tr] show ?thesis by simp
  next
    fix n ref k r assume "ps' = ps @ [In_Operation ref k r]" "c' = c\<lparr>waiting := take n (waiting c) @ drop (Suc n) (waiting c)\<rparr>" "tr' = tr"
    with acc accounted_same [of c' c ps' ps tr] show ?thesis by simp
  next
    assume "ps' = ps" "c' = close_client c" "tr' = tr"
    with acc accounted_same [of c' c ps' ps tr] show ?thesis by (simp add: close_client_def)
  next
    fix aec oec d ip port cb i assume "ps' = ps @ [Call_Submit aec oec d ip port cb i]" "c' = c" "tr' = tr"
    with acc accounted_same [of c c ps' ps tr] show ?thesis by simp
  next
    fix i ec assume "ps' = ps @ [Call_Cancel i ec]" "c' = c" "tr' = tr"
    with acc accounted_same [of c c ps' ps tr] show ?thesis by simp
  qed
  then show ?case unfolding st by simp
qed

text \<open>A session in the table is driven by a thread or by an operation that waits.\<close>

definition driven :: "mt_place list \<Rightarrow> tcp_client \<Rightarrow> bool" where
  "driven ps c \<longleftrightarrow> (\<forall>ref. registered c ref \<longrightarrow> 0 < tokens ps c ref)"

lemma tokens_kept:
  assumes "mt_move ps (ps ! j) c p' c' as" and "j < length ps"
  shows "tokens ps c ref \<le> tokens (ps[j := p']) c' ref \<or> (\<exists>h. ps ! j = Report ref h)"
  using assms(1) filter_update_length [OF assms(2), of "\<lambda>p. chain_ref p = Some ref" p']
  by (cases rule: mt_move.cases) (auto simp: tokens_def split: if_splits)

lemma driven_move:
  assumes ok: "mt_ok ps c" and j: "j < length ps" and move: "mt_move ps (ps ! j) c p' c' as" and fresh: "inserts_fresh c (ps ! j)"
    and driven: "driven ps c"
  shows "driven (ps[j := p']) c'"
  unfolding driven_def
proof (intro allI impI)
  fix ref assume reg': "registered c' ref"
  note okD = mt_okD [OF ok]
  show "0 < tokens (ps[j := p']) c' ref"
  proof (cases "registered c ref")
    case True
    with driven have "0 < tokens ps c ref" by (simp add: driven_def)
    moreover have "ps ! j \<noteq> Report ref h" for h using okD(5) [OF j] True by auto
    ultimately show ?thesis using tokens_kept [OF move j, of ref] by auto
  next
    case False
    from move have "p' = Start_Connect ref"
    proof (cases rule: mt_move_effect)
      case (inserts x s)
      with fresh registered_insert [of c "ses_id s" x ref] reg' False show ?thesis by simp
    next
      case (erases x h s)
      with registered_erase [OF okD(3) erases(3)] okD(5) [OF j] reg' False show ?thesis by simp
    qed (use reg' False in \<open>simp_all add: registered_def\<close>)
    then have "Start_Connect ref \<in> set (ps[j := p'])" using j by (simp add: set_update_memI)
    then show ?thesis by (force simp: tokens_def filter_empty_conv)
  qed
qed

lemma mt_driven: "mt_reachable st \<Longrightarrow> case st of (ps, c, tr) \<Rightarrow> driven ps c"
proof (induction rule: mt_reachable.induct)
  case start
  show ?case by (simp add: driven_def registered_def new_tcp_client_def tab.find_empty)
next
  case (step st st')
  obtain ps c tr ps' c' tr' where st: "st = (ps, c, tr)" "st' = (ps', c', tr')" by (cases st; cases st')
  with step.IH have driven: "driven ps c" by simp
  from mt_reachable_ok [OF step.hyps(1)] st have ok: "mt_ok ps c" by simp
  have "driven ps' c'"
    using step.hyps(3) unfolding st
  proof (rule mt_stepE)
    fix j p as assume "ps' = ps[j := p]" and j: "j < length ps" and "mt_move ps (ps ! j) c p c' as"
    moreover have "inserts_fresh c (ps ! j)" using step.hyps(2) j st by (simp add: ids_fresh_def list_all_length)
    ultimately show ?thesis using driven_move [OF ok j] driven by simp
  next
    fix n ref k r assume "n < length (waiting c)" "waiting c ! n = (ref, k)" "ps' = ps @ [In_Handler ref k r]"
      and "c' = c\<lparr>waiting := take n (waiting c) @ drop (Suc n) (waiting c)\<rparr>"
    with driven tokens_completes [of n c ref k "In_Handler ref k r" ps] show ?thesis by (simp add: driven_def registered_def)
  next
    fix n ref k r assume "n < length (waiting c)" "waiting c ! n = (ref, k)" "ps' = ps @ [In_Operation ref k r]"
      and "c' = c\<lparr>waiting := take n (waiting c) @ drop (Suc n) (waiting c)\<rparr>"
    with driven tokens_completes [of n c ref k "In_Operation ref k r" ps] show ?thesis by (simp add: driven_def registered_def)
  qed (use driven in \<open>simp_all add: driven_def registered_def tokens_def close_client_def\<close>)
  then show ?case unfolding st by simp
qed

lemma joined_reports_all:
  assumes "mt_reachable (ps, c, tr)" and "mt_join_returns (ps, c, tr)"
  shows "reported (reports_of tr) = all_requests c"
proof -
  from assms(2) have ps: "p \<in> set ps \<Longrightarrow> p = Call_Returned" and idle: "waiting c = []" for p
    by (simp_all add: mt_join_returns_def list_all_iff)
  have "reported (owed c p) + uninserted c p = {#}" if "p \<in> set ps" for p using ps [OF that] by simp
  from sum_over_cong [of ps _ "\<lambda>p. {#}", OF this] have "reported_later ps c = {#}" unfolding reported_later_def by (simp add: sum_over_def)
  moreover have "registry_of c = Map.empty"
  proof
    fix i
    have "chain_ref p \<noteq> Some ref" if "p \<in> set ps" for p ref using ps [OF that] by simp
    then have "\<not> registered c ref" for ref
      using mt_driven [OF assms(1)] idle by (auto simp: driven_def tokens_def)
    then show "registry_of c i = None" by (auto simp: registry_of_def registered_def split: option.split)
  qed
  ultimately show ?thesis
    using mt_reachable_accounted [OF assms(1)] by (simp add: accounted_def)
qed

subsection \<open>Who uses a socket at the same time\<close>

text \<open>The places at which a thread is about to call a member function of the socket of a session, in the program or, for the next part
  of a composed operation, in the library.\<close>

fun uses_socket :: "mt_place \<Rightarrow> nat option" where
  "uses_socket (Start_Connect ref) = Some ref"
| "uses_socket (In_Operation ref k r) = Some ref"
| "uses_socket (Start_Next ref k) = Some ref"
| "uses_socket (Shut_Down ref h) = Some ref"
| "uses_socket (Cancel_Sock ref ec) = Some ref"
| "uses_socket _ = None"

fun unguarded_use :: "mt_place \<Rightarrow> bool" where
  "unguarded_use (Start_Connect ref) = True"
| "unguarded_use (In_Operation ref k r) = True"
| "unguarded_use (Shut_Down ref h) = (\<not> h)"
| "unguarded_use _ = False"

lemma guarded_use:
  "uses_socket p = Some ref \<Longrightarrow> unguarded_use p \<or> mt_holds p (Cancel_Guard ref)"
  by (cases p) auto

lemma driving_use: "uses_socket p = Some ref \<Longrightarrow> chain_ref p = Some ref \<or> (\<exists>ec. p = Cancel_Sock ref ec)"
  by (cases p) auto

lemma socket_uses:
  assumes "mt_ok ps c" and jk: "j < length ps" "k < length ps" "j \<noteq> k"
    and uses: "uses_socket (ps ! j) = Some ref" "uses_socket (ps ! k) = Some ref"
  shows "(\<exists>ec. ps ! j = Cancel_Sock ref ec \<and> unguarded_use (ps ! k)) \<or> (\<exists>ec. ps ! k = Cancel_Sock ref ec \<and> unguarded_use (ps ! j))"
proof -
  note ok = mt_okD [OF assms(1)]
  have "\<not> (mt_holds (ps ! j) (Cancel_Guard ref) \<and> mt_holds (ps ! k) (Cancel_Guard ref))"
    using exclusive_holdersD [OF ok(1) jk(1,2)] jk(3) by blast
  moreover have "\<not> (chain_ref (ps ! j) = Some ref \<and> chain_ref (ps ! k) = Some ref)"
    using two_tokens [OF ok(2) jk] by blast
  ultimately show ?thesis using guarded_use [OF uses(1)] guarded_use [OF uses(2)] driving_use [OF uses(1)] driving_use [OF uses(2)]
    by auto
qed

subsection \<open>A run\<close>

text \<open>A request is submitted, its connection fails, and its callback is called.\<close>

lemma reach_move:
  "mt_reachable (ps, c, tr) \<Longrightarrow> mt_move ps p0 c p c' as \<Longrightarrow> ps ! j = p0 \<Longrightarrow> list_all (inserts_fresh c) ps \<Longrightarrow> j < length ps \<Longrightarrow>
   ps[j := p] = ps' \<Longrightarrow> tr @ as = tr' \<Longrightarrow> mt_reachable (ps', c', tr')"
  using mt_reachable.step [of "(ps, c, tr)" "(ps[j := p], c', tr @ as)"] mt_step.move [of j ps c p c' as tr] by (auto simp: ids_fresh_def)

definition demo_session :: session where
  "demo_session = new_session ''127.0.0.1'' 3333 (calc_request 10) 1 (Some 7)"

definition demo_created :: tcp_client where
  "demo_created = put_session 0 demo_session (new_tcp_client\<lparr>session_count := 1\<rparr>)"

definition demo_inserted :: tcp_client where
  "demo_inserted = demo_created\<lparr>m_active_sessions := insert_session (m_active_sessions demo_created) 1 0\<rparr>"

lemma demo_session_sel [simp]:
  "ses_id demo_session = 1" "ses_callback demo_session = Some 7" "ses_was_cancelled demo_session = False" "ses_response demo_session = []"
  by (simp_all add: demo_session_def new_session_def)

lemma demo_created_sel [simp]:
  "session_heap demo_created = [0 \<mapsto> demo_session]" "waiting demo_created = []" "session_count demo_created = 1"
  "m_active_sessions demo_created = Map.empty"
  by (simp_all add: demo_created_def new_tcp_client_def)

lemma demo_inserted_sel [simp]:
  "session_heap demo_inserted = [0 \<mapsto> demo_session]" "waiting demo_inserted = []" "session_count demo_inserted = 1"
  "find_session (m_active_sessions demo_inserted) i = (if i = 1 then Some 0 else None)"
  by (simp_all add: demo_inserted_def tab.find_insert tab.find_empty)

lemma demo_insert:
  "mt_reachable ([Insert 0], demo_created, [])" "ids_fresh ([Insert 0], demo_created, [])"
  "mt_move [Insert 0] ([Insert 0] ! 0) demo_created (Start_Connect 0) demo_inserted []"
proof -
  let ?call = "Call_Submit no_error no_error 10 ''127.0.0.1'' 3333 (Some 7) 1"
  have "mt_step ([], new_tcp_client, []) ([?call], new_tcp_client, [])"
    using mt_step.submit_called [of "[]" new_tcp_client "[]" no_error no_error 10 "''127.0.0.1''" 3333 "Some 7" 1] by simp
  from mt_reachable.step [OF mt_reachable.start _ this] have "mt_reachable ([?call], new_tcp_client, [])" by (simp add: ids_fresh_def)
  moreover have "mt_move [?call] ?call new_tcp_client (Insert_Lock 0) demo_created []"
    using mt_move.submit_session [of no_error no_error "[?call]" 10 "''127.0.0.1''" 3333 "Some 7" 1 new_tcp_client]
    by (simp add: demo_created_def demo_session_def new_tcp_client_def)
  ultimately have "mt_reachable ([Insert_Lock 0], demo_created, [])" by (rule reach_move [where j = 0]) simp_all
  then show "mt_reachable ([Insert 0], demo_created, [])"
    by (rule reach_move [OF _ mt_move.insert_lock, where j = 0]) (simp_all add: mt_free_def)
  show "ids_fresh ([Insert 0], demo_created, [])" by (simp add: ids_fresh_def tab.find_empty)
  show "mt_move [Insert 0] ([Insert 0] ! 0) demo_created (Start_Connect 0) demo_inserted []"
    using mt_move.insert [of demo_created 0 demo_session "[Insert 0]"] by (simp add: demo_inserted_def)
qed

lemma demo_connects: "mt_reachable ([Start_Connect 0], demo_inserted, [])"
  by (rule reach_move [OF demo_insert(1,3), of 0]) (simp_all add: tab.find_empty)

lemma demo_inserted_waiting [simp]: "demo_inserted\<lparr>waiting := []\<rparr> = demo_inserted"
  by (simp add: demo_inserted_def demo_created_def new_tcp_client_def put_session_def)

text \<open>The connection fails.\<close>

definition demo_failed :: session where
  "demo_failed = (received (session_answer operation_aborted []) demo_session)\<lparr>ses_ec := operation_aborted\<rparr>"

definition demo_handled :: tcp_client where
  "demo_handled = put_session 0 demo_failed demo_inserted"

definition demo_erased :: tcp_client where
  "demo_erased = demo_handled\<lparr>m_active_sessions := erase_session (m_active_sessions demo_handled) 1\<rparr>"

lemma demo_failed_sel [simp]:
  "ses_id demo_failed = 1" "ses_callback demo_failed = Some 7" "ses_response demo_failed = []"
  "completion_code demo_failed = operation_aborted"
  by (simp_all add: demo_failed_def completion_code_def received_def)

lemma demo_handled_sel [simp]: "session_heap demo_handled = [0 \<mapsto> demo_failed]" "session_heap demo_erased = [0 \<mapsto> demo_failed]"
  "waiting demo_erased = []" "session_count demo_erased = 1"
  by (simp_all add: demo_handled_def demo_erased_def)

lemma demo_joined:
  "mt_reachable ([Call_Returned, Call_Returned], close_client demo_erased,
     [Start On_Connected Async_Connect, Shutdown shutdown_both, Callback (7, 1, [], operation_aborted)])"
proof -
  let ?started = "demo_inserted\<lparr>waiting := [(0, On_Connected)]\<rparr>"
  let ?r = "session_answer operation_aborted []"
  let ?tr = "[Start On_Connected Async_Connect]"
  have "mt_reachable ([Call_Returned], ?started, ?tr)"
    using mt_move.start_connect [of "[Start_Connect 0]" 0 demo_inserted] by (intro reach_move [OF demo_connects, of "Start_Connect 0" Call_Returned _ _ 0]) simp_all
  moreover have "mt_step ([Call_Returned], ?started, ?tr) ([Call_Returned, In_Handler 0 On_Connected ?r], demo_inserted, ?tr)"
    using mt_step.completes [of 0 ?started 0 On_Connected "[Call_Returned]" ?tr ?r] by simp
  ultimately have "mt_reachable ([Call_Returned, In_Handler 0 On_Connected ?r], demo_inserted, ?tr)"
    using mt_reachable.step [of "([Call_Returned], ?started, ?tr)"] by (simp add: ids_fresh_def)
  moreover have "mt_move [Call_Returned, In_Handler 0 On_Connected ?r] (In_Handler 0 On_Connected ?r) demo_inserted
      (Shut_Down 0 False) demo_handled []"
    using mt_move.handler_error [of demo_inserted 0 demo_session ?r "[Call_Returned, In_Handler 0 On_Connected ?r]" On_Connected]
    by (simp add: demo_handled_def demo_failed_def)
  ultimately have "mt_reachable ([Call_Returned, Shut_Down 0 False], demo_handled, ?tr)"
    by (rule reach_move [where j = 1]) simp_all
  then have "mt_reachable ([Call_Returned, Erase_Lock 0 False], demo_handled, ?tr @ [Shutdown shutdown_both])"
    by (rule reach_move [OF _ mt_move.shut_down [where ref = 0 and h = False], where j = 1]) simp_all
  then have "mt_reachable ([Call_Returned, Erase 0 False], demo_handled, ?tr @ [Shutdown shutdown_both])"
    by (rule reach_move [OF _ mt_move.erase_lock [where ref = 0 and h = False], where j = 1]) (simp_all add: mt_free_def)
  moreover have "mt_move [Call_Returned, Erase 0 False] (Erase 0 False) demo_handled (Report 0 False) demo_erased []"
    using mt_move.erase [of demo_handled 0 demo_failed "[Call_Returned, Erase 0 False]" False] by (simp add: demo_erased_def)
  ultimately have "mt_reachable ([Call_Returned, Report 0 False], demo_erased, ?tr @ [Shutdown shutdown_both])"
    by (rule reach_move [where j = 1]) simp_all
  moreover have "mt_move [Call_Returned, Report 0 False] (Report 0 False) demo_erased Call_Returned demo_erased
      [Callback (7, 1, [], operation_aborted)]"
    using mt_move.report [of demo_erased 0 demo_failed "[Call_Returned, Report 0 False]" False] by simp
  ultimately have "mt_reachable ([Call_Returned, Call_Returned], demo_erased,
      ?tr @ [Shutdown shutdown_both, Callback (7, 1, [], operation_aborted)])"
    by (rule reach_move [where j = 1]) simp_all
  from mt_reachable.step [OF this _ mt_step.close_called] show ?thesis by (simp add: ids_fresh_def)
qed

lemma demo_race: "mt_reachable ([Start_Connect 0, Cancel_Sock 0 no_error],
    put_session 0 (demo_session\<lparr>ses_was_cancelled := True\<rparr>) demo_inserted, [])"
proof -
  have "mt_reachable ([Start_Connect 0, Call_Cancel 1 no_error], demo_inserted, [])"
    using mt_reachable.step [OF demo_connects _ mt_step.cancel_called [of "[Start_Connect 0]" demo_inserted "[]" 1 no_error]]
    by (simp add: ids_fresh_def)
  then have "mt_reachable ([Start_Connect 0, Find_Session 1 no_error], demo_inserted, [])"
    by (rule reach_move [OF _ mt_move.cancel_lock [where i = 1 and ec = no_error], where j = 1]) (simp_all add: mt_free_def)
  then have "mt_reachable ([Start_Connect 0, Guard_Wait 0 no_error], demo_inserted, [])"
    by (rule reach_move [OF _ mt_move.find_some [where ref = 0 and i = 1 and ec = no_error], where j = 1]) simp_all
  then have "mt_reachable ([Start_Connect 0, Set_Flag 0 no_error], demo_inserted, [])"
    by (rule reach_move [OF _ mt_move.cancel_guard [where ref = 0 and ec = no_error], where j = 1]) (simp_all add: mt_free_def)
  moreover have "mt_move [Start_Connect 0, Set_Flag 0 no_error] (Set_Flag 0 no_error) demo_inserted
      (Cancel_Sock 0 no_error) (put_session 0 (demo_session\<lparr>ses_was_cancelled := True\<rparr>) demo_inserted) []"
    using mt_move.set_flag [of demo_inserted 0 demo_session "[Start_Connect 0, Set_Flag 0 no_error]" no_error] by simp
  ultimately show ?thesis by (rule reach_move [where j = 1]) simp_all
qed

text \<open>The request is being written, in parts, when it is cancelled.\<close>

lemma demo_part_race:
  "\<exists>c tr. mt_reachable ([Call_Returned, Call_Returned, Cancel_Sock 0 no_error, In_Operation 0 On_Written (session_answer no_error [])], c, tr)"
proof -
  let ?r = "session_answer no_error []"
  let ?started = "demo_inserted\<lparr>waiting := [(0, On_Connected)]\<rparr>"
  let ?writes = "demo_inserted\<lparr>waiting := [(0, On_Written)]\<rparr>"
  let ?cancelled = "put_session 0 (demo_session\<lparr>ses_was_cancelled := True\<rparr>) ?writes"
  let ?tr = "[Start On_Connected Async_Connect]"
  let ?w = "[Start On_Connected Async_Connect, Start On_Written (Async_Write [ses_request demo_session])]"
  have same: "put_session 0 (received ?r demo_session) demo_inserted = demo_inserted"
    by (simp add: put_session_def received_def demo_inserted_def demo_created_def)
  have "mt_reachable ([Call_Returned], ?started, ?tr)"
    using mt_move.start_connect [of "[Start_Connect 0]" 0 demo_inserted] by (intro reach_move [OF demo_connects, of "Start_Connect 0" Call_Returned _ _ 0]) simp_all
  moreover have "mt_step ([Call_Returned], ?started, ?tr) ([Call_Returned, In_Handler 0 On_Connected ?r], demo_inserted, ?tr)"
    using mt_step.completes [of 0 ?started 0 On_Connected "[Call_Returned]" ?tr ?r] by simp
  ultimately have "mt_reachable ([Call_Returned, In_Handler 0 On_Connected ?r], demo_inserted, ?tr)"
    using mt_reachable.step [of "([Call_Returned], ?started, ?tr)"] by (simp add: ids_fresh_def)
  moreover have "mt_move [Call_Returned, In_Handler 0 On_Connected ?r] (In_Handler 0 On_Connected ?r) demo_inserted
      (Test_Flag 0 On_Connected) demo_inserted []"
    using mt_move.handler_lock [of demo_inserted 0 demo_session ?r On_Connected "[Call_Returned, In_Handler 0 On_Connected ?r]"] same
    by (simp add: mt_free_def)
  ultimately have "mt_reachable ([Call_Returned, Test_Flag 0 On_Connected], demo_inserted, ?tr)"
    by (rule reach_move [where j = 1]) simp_all
  then have "mt_reachable ([Call_Returned, Start_Next 0 On_Connected], demo_inserted, ?tr)"
    by (rule reach_move [OF _ mt_move.flag_clear [of demo_inserted 0 demo_session], where j = 1]) simp_all
  moreover have "mt_move [Call_Returned, Start_Next 0 On_Connected] (Start_Next 0 On_Connected) demo_inserted (Leave_Scope 0) ?writes
      [Start On_Written (Async_Write [ses_request demo_session])]"
    using mt_move.start_next [of demo_inserted 0 demo_session On_Connected] by simp
  ultimately have "mt_reachable ([Call_Returned, Leave_Scope 0], ?writes, ?w)" by (rule reach_move [where j = 1]) simp_all
  then have "mt_reachable ([Call_Returned, Call_Returned], ?writes, ?w)"
    by (rule reach_move [OF _ mt_move.leave_scope, where j = 1]) simp_all
  from mt_reachable.step [OF this _ mt_step.cancel_called [of _ _ _ 1 no_error]]
  have "mt_reachable ([Call_Returned, Call_Returned, Call_Cancel 1 no_error], ?writes, ?w)" by (simp add: ids_fresh_def)
  then have "mt_reachable ([Call_Returned, Call_Returned, Find_Session 1 no_error], ?writes, ?w)"
    by (rule reach_move [OF _ mt_move.cancel_lock [where i = 1 and ec = no_error], where j = 2]) (simp_all add: mt_free_def)
  then have "mt_reachable ([Call_Returned, Call_Returned, Guard_Wait 0 no_error], ?writes, ?w)"
    by (rule reach_move [OF _ mt_move.find_some [where ref = 0 and i = 1 and ec = no_error], where j = 2]) simp_all
  then have "mt_reachable ([Call_Returned, Call_Returned, Set_Flag 0 no_error], ?writes, ?w)"
    by (rule reach_move [OF _ mt_move.cancel_guard [where ref = 0 and ec = no_error], where j = 2]) (simp_all add: mt_free_def)
  then have "mt_reachable ([Call_Returned, Call_Returned, Cancel_Sock 0 no_error], ?cancelled, ?w)"
    by (rule reach_move [OF _ mt_move.set_flag [of ?writes 0 demo_session _ no_error], where j = 2]) simp_all
  from mt_reachable.step [OF this _ mt_step.part_completes [of 0 _ 0 On_Written _ _ ?r]] show ?thesis
    by (auto simp: ids_fresh_def)
qed

subsection \<open>The promises of the client\<close>

text \<open>C8: Whatever the user threads and the threads of the pool do, and in whatever order, the multi-threaded client keeps the
  contract of the single-threaded one: as long as no id is submitted that is still in use, every move of every thread
  between the lock operations is one step of the registry of the requests under way, the one named by
  \<open>move_event\<close>, or leaves it alone, and what that step reports is reported by this move or by a later move of
  the same thread.\<close>

theorem mt_client_refines_registry:
  assumes "mt_reachable (ps, c, tr)" and "ids_fresh (ps, c, tr)" and "j < length ps" and "mt_move ps (ps ! j) c p' c' as"
  shows "\<exists>rs. registry_step (registry_of c) (move_event c (ps ! j)) (registry_of c') rs \<and>
    mset rs + outstanding ps c = mset (reports_of as) + outstanding (ps[j := p']) c'"
  using assms by (rule mt_move_refines)

theorem mt_client_refines_registry_witness:
  "\<exists>rs. registry_step (registry_of demo_created) (Submitted 1 (Some 7)) (registry_of demo_inserted) rs \<and> rs = []"
  using mt_client_refines_registry [OF demo_insert(1,2) _ demo_insert(3)] by (simp add: outstanding_def)

text \<open>C9: Whatever the user threads and the threads of the pool do, and in whatever order: once the joins of \<^verbatim>\<open>close\<close> have
  returned and the calls of the user threads too, every request whose session was created with a callback has been
  reported exactly once, to that callback under its own id, as long as no id was submitted that was still in use.\<close>

theorem mt_close_reports_every_request:
  assumes "mt_reachable (ps, c, tr)" and "mt_join_returns (ps, c, tr)"
  shows "reported (reports_of tr) = all_requests c"
  using assms by (rule joined_reports_all)

theorem mt_close_reports_every_request_witness:
  "\<exists>ps c tr. mt_reachable (ps, c, tr) \<and> mt_join_returns (ps, c, tr) \<and> all_requests c = {#(1, 7)#} \<and>
     reported (reports_of tr) = {#(1, 7)#}"
proof -
  have "mt_join_returns ([Call_Returned, Call_Returned], close_client demo_erased,
     [Start On_Connected Async_Connect, Shutdown shutdown_both, Callback (7, 1, [], operation_aborted)])"
    by (simp add: mt_join_returns_def close_client_def)
  from this mt_close_reports_every_request [OF demo_joined this] demo_joined show ?thesis
    by (intro exI conjI) (assumption+, simp_all)
qed

text \<open>C25: Two threads are about to call a member function of the socket of one session of the multi-threaded client at the same time
  only when one of them is at \<^verbatim>\<open>m_sock.cancel()\<close> in \<^verbatim>\<open>cancelRequest\<close> and the other at a call that \<^verbatim>\<open>m_cancel_guard\<close> does
  not cover: the \<^verbatim>\<open>async_connect\<close> after the lock of the submission has been released, the \<^verbatim>\<open>shutdown\<close> of a request
  that ended with an error or a response, or the library's own call for the next part of an \<^verbatim>\<open>async_write\<close> or
  \<^verbatim>\<open>async_read_until\<close>. All other calls exclude each other. The witness reaches a connect and a part of a write that
  meet a cancel.\<close>

theorem mt_socket_races:
  assumes "mt_reachable (ps, c, tr)" and "j < length ps" and "k < length ps" and "j \<noteq> k"
    and "uses_socket (ps ! j) = Some ref" and "uses_socket (ps ! k) = Some ref"
  shows "(\<exists>ec. ps ! j = Cancel_Sock ref ec \<and> unguarded_use (ps ! k)) \<or> (\<exists>ec. ps ! k = Cancel_Sock ref ec \<and> unguarded_use (ps ! j))"
  using socket_uses [OF _ assms(2-6)] mt_reachable_ok [OF assms(1)] by simp

theorem mt_socket_races_witness:
  "(\<exists>ps c tr. mt_reachable (ps, c, tr) \<and> ps ! 0 = Start_Connect 0 \<and> ps ! 1 = Cancel_Sock 0 no_error \<and> unguarded_use (ps ! 0)) \<and>
   (\<exists>ps c tr. mt_reachable (ps, c, tr) \<and> ps ! 2 = Cancel_Sock 0 no_error \<and>
      ps ! 3 = In_Operation 0 On_Written (session_answer no_error []) \<and> unguarded_use (ps ! 3))"
proof
  show "\<exists>ps c tr. mt_reachable (ps, c, tr) \<and> ps ! 0 = Start_Connect 0 \<and> ps ! 1 = Cancel_Sock 0 no_error \<and> unguarded_use (ps ! 0)"
    using mt_socket_races [OF demo_race, of 0 1 0] demo_race by (intro exI conjI) (assumption, simp_all)
  from demo_part_race obtain c tr where
    part: "mt_reachable ([Call_Returned, Call_Returned, Cancel_Sock 0 no_error, In_Operation 0 On_Written (session_answer no_error [])], c, tr)"
    by blast
  from mt_socket_races [OF part, of 2 3 0] part
  show "\<exists>ps c tr. mt_reachable (ps, c, tr) \<and> ps ! 2 = Cancel_Sock 0 no_error \<and>
      ps ! 3 = In_Operation 0 On_Written (session_answer no_error []) \<and> unguarded_use (ps ! 3)"
    by (intro exI conjI) (assumption, simp_all)
qed

end
