(* ===== verification/Sync_Server_Threads.thy ===== *)
theory Sync_Server_Threads
  imports Sync_Servers
begin

section \<open>The synchronous servers: their threads and the life of the server object\<close>

text \<open>
  \<open>Sync_Servers\<close> runs the thread of a server and the handling of a client as programs of their own. Here all threads of
  a program run side by side: \<^verbatim>\<open>main\<close>, which destroys the \<^verbatim>\<open>Server\<close> with its \<^verbatim>\<open>io_context\<close> after the join
  in \<^verbatim>\<open>Stop\<close>, the thread of the server, and in \<^verbatim>\<open>chapter4/syncParallel\<close> the detached threads of the clients, for which
  nobody waits. The outcome of every call of the library is arbitrary; an exception that leaves a thread function
  ends the process.
\<close>

datatype main_place = Starts | Sleeps | Stores_Stop | Joins | Destroys_Server | Returns_Zero | Process_Gone

datatype client_place = Handshakes | Reads | Works | Writes | Logs_Error | Deletes_Service | Releases_Socket | Client_Done

datatype server_place = Not_Started | Creates_Acceptor | Loads_Stop | Accepts | Starts_Client | Serves client_place | Server_Done

record process =
  main_at :: main_place
  server_at :: server_place
  client_threads :: "client_place list"
  stop_flag :: bool
  io_context_alive :: bool

definition new_process :: process where
  "new_process = \<lparr>main_at = Starts, server_at = Not_Started, client_threads = [], stop_flag = False, io_context_alive = False\<rparr>"

text \<open>The places at which the next statement works on the socket, and so on the \<^verbatim>\<open>io_context\<close> it was created with.\<close>

fun client_uses_context :: "client_place \<Rightarrow> bool" where
  "client_uses_context p = (p \<in> {Handshakes, Reads, Writes, Releases_Socket})"

fun server_uses_context :: "server_place \<Rightarrow> bool" where
  "server_uses_context (Serves p) = client_uses_context p"
| "server_uses_context p = (p \<in> {Creates_Acceptor, Accepts})"

subsection \<open>The statements\<close>

text \<open>\<^verbatim>\<open>HandleClient\<close>: each call of the library succeeds or throws into the handler; the service object is deleted in the
  parallel server only.\<close>

inductive client_statement :: "bool \<Rightarrow> client_place \<Rightarrow> client_place \<Rightarrow> bool" for deletes where
  handshake: "client_statement deletes Handshakes Reads"
| handshake_fails: "client_statement deletes Handshakes Logs_Error"
| request_read: "client_statement deletes Reads Works"
| read_fails: "client_statement deletes Reads Logs_Error"
| works: "client_statement deletes Works Writes"
| written: "client_statement deletes Writes (if deletes then Deletes_Service else Releases_Socket)"
| write_fails: "client_statement deletes Writes Logs_Error"
| logs: "client_statement deletes Logs_Error (if deletes then Deletes_Service else Releases_Socket)"
| service_deleted: "client_statement deletes Deletes_Service Releases_Socket"
| socket_released: "client_statement deletes Releases_Socket Client_Done"

inductive main_statement :: "process \<Rightarrow> process \<Rightarrow> bool" where
  start: "main_at p = Starts \<Longrightarrow>
    main_statement p (p\<lparr>main_at := Sleeps, server_at := Creates_Acceptor, io_context_alive := True\<rparr>)"
| start_fails: "main_at p = Starts \<Longrightarrow> main_statement p (p\<lparr>main_at := Process_Gone\<rparr>)"   \<comment> \<open>no thread can be created\<close>
| slept: "main_at p = Sleeps \<Longrightarrow> main_statement p (p\<lparr>main_at := Stores_Stop\<rparr>)"
| stop: "main_at p = Stores_Stop \<Longrightarrow> main_statement p (p\<lparr>main_at := Joins, stop_flag := True\<rparr>)"
| join: "main_at p = Joins \<Longrightarrow> server_at p = Server_Done \<Longrightarrow> main_statement p (p\<lparr>main_at := Destroys_Server\<rparr>)"
| destroy: "main_at p = Destroys_Server \<Longrightarrow> main_statement p (p\<lparr>main_at := Returns_Zero, io_context_alive := False\<rparr>)"
| exit_process: "main_at p = Returns_Zero \<Longrightarrow> main_statement p (p\<lparr>main_at := Process_Gone\<rparr>)"

text \<open>\<^verbatim>\<open>Server::Run\<close> and \<^verbatim>\<open>Acceptor::Accept\<close>; \<open>serve\<close> is where the handling of a client begins when the server's own
  thread does it, and \<open>None\<close> when each client has a thread.\<close>

inductive server_statement :: "client_place option \<Rightarrow> process \<Rightarrow> process \<Rightarrow> bool" for serve where
  acceptor: "server_at p = Creates_Acceptor \<Longrightarrow> server_statement serve p (p\<lparr>server_at := Loads_Stop\<rparr>)"
| stopped: "server_at p = Loads_Stop \<Longrightarrow> stop_flag p \<Longrightarrow> server_statement serve p (p\<lparr>server_at := Server_Done\<rparr>)"
| continues: "server_at p = Loads_Stop \<Longrightarrow> \<not> stop_flag p \<Longrightarrow> server_statement serve p (p\<lparr>server_at := Accepts\<rparr>)"
| accepted: "server_at p = Accepts \<Longrightarrow> server_statement serve p (p\<lparr>server_at := Starts_Client\<rparr>)"
| thread: "server_at p = Starts_Client \<Longrightarrow> serve = None \<Longrightarrow>
    server_statement serve p (p\<lparr>server_at := Loads_Stop, client_threads := client_threads p @ [Reads]\<rparr>)"
| inline: "server_at p = Starts_Client \<Longrightarrow> serve = Some q \<Longrightarrow> server_statement serve p (p\<lparr>server_at := Serves q\<rparr>)"
| serving: "server_at p = Serves q \<Longrightarrow> client_statement False q q' \<Longrightarrow> server_statement serve p (p\<lparr>server_at := Serves q'\<rparr>)"
| served: "server_at p = Serves Client_Done \<Longrightarrow> server_statement serve p (p\<lparr>server_at := Loads_Stop\<rparr>)"
| throws: "server_at p \<in> {Creates_Acceptor, Accepts, Starts_Client} \<Longrightarrow>
    server_statement serve p (p\<lparr>main_at := Process_Gone\<rparr>)"

text \<open>One statement of one thread, as long as there is a process.\<close>

inductive process_step :: "client_place option \<Rightarrow> process \<Rightarrow> process \<Rightarrow> bool" for serve where
  main: "main_at p \<noteq> Process_Gone \<Longrightarrow> main_statement p p' \<Longrightarrow> process_step serve p p'"
| server: "main_at p \<noteq> Process_Gone \<Longrightarrow> server_statement serve p p' \<Longrightarrow> process_step serve p p'"
| client: "main_at p \<noteq> Process_Gone \<Longrightarrow> i < length (client_threads p) \<Longrightarrow> client_statement True (client_threads p ! i) q \<Longrightarrow>
    process_step serve p (p\<lparr>client_threads := (client_threads p)[i := q]\<rparr>)"

definition iterative_program :: "process \<Rightarrow> bool" where
  "iterative_program p = (process_step (Some Reads))\<^sup>*\<^sup>* new_process p"

definition ssl_program :: "process \<Rightarrow> bool" where
  "ssl_program p = (process_step (Some Handshakes))\<^sup>*\<^sup>* new_process p"

definition parallel_program :: "process \<Rightarrow> bool" where
  "parallel_program p = (process_step None)\<^sup>*\<^sup>* new_process p"

subsection \<open>The life of the io_context\<close>

text \<open>In every server: the object is there from the start to the end of the join, and only then; and the thread of the
  server ends before.\<close>

definition life_ok :: "process \<Rightarrow> bool" where
  "life_ok p \<longleftrightarrow>
     (main_at p = Starts \<longrightarrow> server_at p = Not_Started \<and> client_threads p = []) \<and>
     (main_at p \<in> {Sleeps, Stores_Stop, Joins, Destroys_Server} \<longrightarrow> io_context_alive p) \<and>
     (main_at p \<in> {Destroys_Server, Returns_Zero} \<longrightarrow> server_at p = Server_Done)"

lemma life_ok_step: "process_step serve p p' \<Longrightarrow> life_ok p \<Longrightarrow> life_ok p'"
  by (elim process_step.cases main_statement.cases server_statement.cases) (auto simp: life_ok_def)

lemma life_ok_reachable: "(process_step serve)\<^sup>*\<^sup>* new_process p \<Longrightarrow> life_ok p"
proof (induction rule: rtranclp_induct)
  case base
  show ?case by (simp add: life_ok_def new_process_def)
qed (rule life_ok_step)

lemma server_thread_inside:
  assumes "(process_step serve)\<^sup>*\<^sup>* new_process p" and "main_at p \<noteq> Process_Gone" and "server_uses_context (server_at p)"
  shows "io_context_alive p"
  using life_ok_reachable [OF assms(1)] assms(2,3) by (cases "main_at p") (auto simp: life_ok_def)

lemma no_client_threads:
  assumes "(process_step (Some q))\<^sup>*\<^sup>* new_process p"
  shows "client_threads p = []"
  using assms
proof (induction rule: rtranclp_induct)
  case base
  show ?case by (simp add: new_process_def)
next
  case (step p p')
  from step.hyps(2) step.IH show ?case
    by (elim process_step.cases main_statement.cases server_statement.cases) simp_all
qed

text \<open>In the iterative server and the TLS server no statement of any thread works on a socket or the acceptor after the
  \<^verbatim>\<open>io_context\<close> they belong to is gone.\<close>

theorem inline_servers_use_live_context:
  assumes "iterative_program p \<or> ssl_program p" and "main_at p \<noteq> Process_Gone"
    and "server_uses_context (server_at p) \<or> (\<exists>q \<in> set (client_threads p). client_uses_context q)"
  shows "io_context_alive p"
  using assms server_thread_inside [OF _ assms(2)] no_client_threads [of _ p]
  unfolding iterative_program_def ssl_program_def by auto

subsection \<open>Detached threads\<close>

lemma client_reaches: "q \<noteq> Handshakes \<Longrightarrow> (client_statement True)\<^sup>*\<^sup>* Reads q"
proof -
  note go = rtranclp.rtrancl_into_rtrancl [of "client_statement True"]
  have r: "(client_statement True)\<^sup>*\<^sup>* Reads Reads" by simp
  have l: "(client_statement True)\<^sup>*\<^sup>* Reads Logs_Error" by (rule go [OF r client_statement.read_fails])
  have w: "(client_statement True)\<^sup>*\<^sup>* Reads Works" by (rule go [OF r client_statement.request_read])
  have w2: "(client_statement True)\<^sup>*\<^sup>* Reads Writes" by (rule go [OF w client_statement.works])
  have d: "(client_statement True)\<^sup>*\<^sup>* Reads Deletes_Service" using go [OF w2 client_statement.written] by simp
  have s: "(client_statement True)\<^sup>*\<^sup>* Reads Releases_Socket" by (rule go [OF d client_statement.service_deleted])
  show "q \<noteq> Handshakes \<Longrightarrow> (client_statement True)\<^sup>*\<^sup>* Reads q"
    using r l w w2 d s go [OF s client_statement.socket_released] by (cases q) simp_all
qed

lemma client_runs:
  assumes "(client_statement True)\<^sup>*\<^sup>* q q'" and "main_at p \<noteq> Process_Gone" and "client_threads p = cs @ [q]"
  shows "(process_step serve)\<^sup>*\<^sup>* p (p\<lparr>client_threads := cs @ [q']\<rparr>)"
  using assms(1)
proof (induction rule: rtranclp_induct)
  case base
  from assms(3) have "p = p\<lparr>client_threads := cs @ [q]\<rparr>" by simp
  then show ?case by (metis rtranclp.rtrancl_refl)
next
  case (step q' q'')
  have "process_step serve (p\<lparr>client_threads := cs @ [q']\<rparr>) (p\<lparr>client_threads := cs @ [q'']\<rparr>)"
    using process_step.client [of "p\<lparr>client_threads := cs @ [q']\<rparr>" "length cs" q'' serve] assms(2) step.hyps(2) by simp
  with step.IH show ?case by (rule rtranclp.rtrancl_into_rtrancl)
qed

text \<open>During the minute any clients can be in any stage.\<close>

definition busy :: "client_place list \<Rightarrow> process" where
  "busy cs = \<lparr>main_at = Sleeps, server_at = Loads_Stop, client_threads = cs, stop_flag = False, io_context_alive = True\<rparr>"

lemma busy_reachable: "list_all (\<lambda>q. q \<noteq> Handshakes) cs \<Longrightarrow> parallel_program (busy cs)"
proof (induction cs rule: rev_induct)
  case Nil
  let ?p = "\<lparr>main_at = Sleeps, server_at = Creates_Acceptor, client_threads = [], stop_flag = False, io_context_alive = True\<rparr>"
  have "process_step None new_process ?p"
    using process_step.main [OF _ main_statement.start, of new_process None] by (simp add: new_process_def)
  moreover have "process_step None ?p (busy [])"
    using process_step.server [OF _ server_statement.acceptor, of ?p None] by (simp add: busy_def)
  ultimately show ?case by (auto simp: parallel_program_def)
next
  case (snoc q cs)
  let ?accepting = "(busy cs)\<lparr>server_at := Accepts\<rparr>" and ?starting = "(busy cs)\<lparr>server_at := Starts_Client\<rparr>"
  have "process_step None (busy cs) ?accepting"
    using process_step.server [OF _ server_statement.continues, of "busy cs" None] by (simp add: busy_def)
  moreover have "process_step None ?accepting ?starting"
    using process_step.server [OF _ server_statement.accepted, of ?accepting None] by (simp add: busy_def)
  moreover have "process_step None ?starting (busy (cs @ [Reads]))"
    using process_step.server [OF _ server_statement.thread, of ?starting None] by (simp add: busy_def)
  moreover have "(process_step None)\<^sup>*\<^sup>* (busy (cs @ [Reads])) (busy (cs @ [q]))"
    using client_runs [OF client_reaches, of q "busy (cs @ [Reads])" cs None] snoc.prems by (simp add: busy_def)
  ultimately show ?case
    using snoc unfolding parallel_program_def by (auto intro: rtranclp.rtrancl_into_rtrancl rtranclp_trans)
qed

text \<open>Stopping does not wait for them.\<close>

definition abandoned :: "client_place list \<Rightarrow> process" where
  "abandoned cs = \<lparr>main_at = Returns_Zero, server_at = Server_Done, client_threads = cs, stop_flag = True, io_context_alive = False\<rparr>"

lemma stop_leaves_clients: "(process_step None)\<^sup>*\<^sup>* (busy cs) (abandoned cs)"
proof -
  let ?p1 = "(busy cs)\<lparr>main_at := Stores_Stop\<rparr>" and ?p2 = "(busy cs)\<lparr>main_at := Joins, stop_flag := True\<rparr>"
  let ?p3 = "?p2\<lparr>server_at := Server_Done\<rparr>"
  let ?p4 = "?p3\<lparr>main_at := Destroys_Server\<rparr>"
  have "process_step None (busy cs) ?p1" using process_step.main [OF _ main_statement.slept, of "busy cs" None] by (simp add: busy_def)
  moreover have "process_step None ?p1 ?p2" using process_step.main [OF _ main_statement.stop, of ?p1 None] by (simp add: busy_def)
  moreover have "process_step None ?p2 ?p3" using process_step.server [OF _ server_statement.stopped, of ?p2 None] by (simp add: busy_def)
  moreover have "process_step None ?p3 ?p4" using process_step.main [OF _ main_statement.join, of ?p3 None] by (simp add: busy_def)
  moreover have "process_step None ?p4 (abandoned cs)"
    using process_step.main [OF _ main_statement.destroy, of ?p4 None] by (simp add: busy_def abandoned_def)
  ultimately show ?thesis by (auto intro: rtranclp.rtrancl_into_rtrancl)
qed

text \<open>C26: In the parallel server \<^verbatim>\<open>Stop\<close> and the destruction of the server with its \<^verbatim>\<open>io_context\<close> wait for no client: whatever
  number of clients there is and wherever their threads are in \<^verbatim>\<open>HandleClient\<close>, all of them can still be there
  when the object is gone and \<^verbatim>\<open>main\<close> has not yet returned.\<close>

theorem detached_threads_outlive_server:
  assumes "list_all (\<lambda>q. q \<noteq> Handshakes) cs"
  shows "\<exists>p. parallel_program p \<and> main_at p = Returns_Zero \<and> \<not> io_context_alive p \<and> client_threads p = cs"
proof (intro exI conjI)
  show "parallel_program (abandoned cs)"
    using busy_reachable [OF assms] stop_leaves_clients unfolding parallel_program_def by (rule rtranclp_trans)
qed (simp_all add: abandoned_def)

theorem detached_threads_outlive_server_witness:
  "\<exists>p. parallel_program p \<and> \<not> io_context_alive p \<and> client_threads p = [Writes, Releases_Socket] \<and>
     list_all client_uses_context (client_threads p)"
  using detached_threads_outlive_server [of "[Writes, Releases_Socket]"] by auto

theorem inline_servers_use_live_context_witness:
  "\<exists>p. iterative_program p \<and> server_at p = Creates_Acceptor \<and> io_context_alive p"
proof -
  let ?p = "\<lparr>main_at = Sleeps, server_at = Creates_Acceptor, client_threads = [], stop_flag = False, io_context_alive = True\<rparr>"
  have "process_step (Some Reads) new_process ?p"
    using process_step.main [OF _ main_statement.start, of new_process "Some Reads"] by (simp add: new_process_def)
  then have "iterative_program ?p" by (auto simp: iterative_program_def)
  with inline_servers_use_live_context [of ?p] show ?thesis by (intro exI [of _ ?p]) simp
qed

end
