(* ===== verification/Http_Client_Getters.thy ===== *)
theory Http_Client_Getters
  imports Http_Client_Properties
begin

section \<open>HTTP client: what the user sees of a request\<close>

text \<open>
  The member functions by which a user reads a request and a response (\<^verbatim>\<open>httpclient.cpp\<close>). What was configured with the
  setters is what the getters return in the callback, whatever happened to the request on its way.
\<close>

definition get_host :: "http_request \<Rightarrow> string" where
  "get_host = m_host"

definition get_port :: "http_request \<Rightarrow> u32" where
  "get_port = m_port"

definition get_uri :: "http_request \<Rightarrow> string" where
  "get_uri = m_uri"

definition get_id :: "http_request \<Rightarrow> u32" where
  "get_id = m_id"

text \<open>The status code is \<open>None\<close> as long as no status line has been parsed: its value is then indeterminate.\<close>

definition get_status_code :: "http_response \<Rightarrow> u32 option" where
  "get_status_code = m_status_code"

definition get_status_message :: "http_response \<Rightarrow> string" where
  "get_status_message = m_status_message"

definition get_headers :: "http_response \<Rightarrow> string \<rightharpoonup> string" where
  "get_headers = m_headers"

definition get_response_buf :: "http_response \<Rightarrow> bytes" where
  "get_response_buf = m_response_buf"

text \<open>The stream over the buffer, at its beginning; extracting from it would change the buffer, but the
  reference that is returned is to a constant.\<close>

definition get_response :: "http_response \<Rightarrow> istream" where
  "get_response rsp = open_istream (m_response_buf rsp)"

lemmas getter_defs =
  get_host_def get_port_def get_uri_def get_id_def get_status_code_def get_status_message_def get_headers_def
  get_response_buf_def get_response_def

text \<open>What the setters configure.\<close>

definition configuration :: "http_request \<Rightarrow> string \<times> u32 \<times> string \<times> u32 \<times> nat option" where
  "configuration rq = (get_host rq, get_port rq, get_uri rq, get_id rq, m_callback rq)"

lemma configuration_simps [simp]:
  "configuration (set_host h rq) = (h, snd (configuration rq))"
  "configuration (rq\<lparr>m_response := rsp\<rparr>) = configuration rq" "configuration (rq\<lparr>m_request_buf := b\<rparr>) = configuration rq"
  "configuration (rq\<lparr>m_was_cancelled := f\<rparr>) = configuration rq" "configuration (set_buf st rq) = configuration rq"
  by (simp_all add: configuration_def getter_defs set_host_def set_buf_def)

text \<open>An action that passes a request to the callback passes it to the configured one.\<close>

fun own_callback :: "string \<times> u32 \<times> string \<times> u32 \<times> nat option \<Rightarrow> request_action \<Rightarrow> bool" where
  "own_callback conf (Callback (cb, rq, ec)) = (configuration rq = conf \<and> m_callback rq = Some cb)"
| "own_callback conf a = True"

lemma own_callback_finish [simp]:
  "configuration rq = conf \<Longrightarrow> list_all (own_callback conf) (snd (request_on_finish ec rq))"
  "configuration rq = conf \<Longrightarrow> list_all (own_callback conf) (snd (start_unless_cancelled k op rq))"
  by (auto simp: request_on_finish_def start_unless_cancelled_def split: option.split)

lemma request_step_configuration:
  "configuration rq = conf \<Longrightarrow>
   configuration (fst (request_step k r rq)) = conf \<and> list_all (own_callback conf) (snd (request_step k r rq))"
  by (cases k)
     (simp_all add: request_step_def request_handler_defs Let_def case_prod_beta split: sum.split option.split)

lemma execute_configuration:
  "configuration (fst (execute rq)) = configuration rq \<and> list_all (own_callback (configuration rq)) (snd (execute rq))"
  by (simp add: execute_def)

lemma request_run_configuration:
  assumes "request_run evs rq = (p, s, tr)"
  shows "list_all (own_callback (configuration rq)) tr"
proof -
  obtain s0 as0 where ex: "execute rq = (s0, as0)" by (cases "execute rq")
  with execute_configuration [of rq] execute_shape [of rq]
  have start: "configuration s0 = configuration rq" "list_all (own_callback (configuration rq)) as0"
    "length (conts as0) + end_count as0 = 1" by (simp_all add: next_or_end_def)
  have "(p \<noteq> [] \<longrightarrow> configuration s = configuration rq) \<and> list_all (own_callback (configuration rq)) tr"
  proof (rule rq.run_invariant [where evs = evs and p = "conts as0" and s = s0 and tr = as0 and
        I = "\<lambda>s. configuration s = configuration rq"])
    show "(conts (snd (request_step k r s)) \<noteq> [] \<longrightarrow> configuration (fst (request_step k r s)) = configuration rq) \<and>
        list_all (own_callback (configuration rq)) (snd (request_step k r s))" if "configuration s = configuration rq" for k r s
      using request_step_configuration [OF that] by simp
    show "(configuration s = configuration rq \<longrightarrow> configuration (fst (request_external e s)) = configuration rq) \<and>
        list_all (own_callback (configuration rq)) (snd (request_external e s))" for e s
      by (cases e) simp
    show "chain_run request_step request_external evs (conts as0, s0, as0) = (p, s, tr)"
      using assms ex by (simp add: request_run_def chain_begin_def)
  qed (use start in simp_all)
  then show ?thesis ..
qed

text \<open>What a user sets before \<^verbatim>\<open>execute\<close>: any calls of the setters, in any order and any number, on a request as the client
  creates it.\<close>

datatype setting = Set_Host string | Set_Port u32 | Set_Uri string | Set_Callback nat

fun apply_setting :: "setting \<Rightarrow> http_request \<Rightarrow> http_request" where
  "apply_setting (Set_Host h) rq = set_host h rq"
| "apply_setting (Set_Port n) rq = set_port n rq"
| "apply_setting (Set_Uri u) rq = set_uri u rq"
| "apply_setting (Set_Callback cb) rq = set_callback (Some cb) rq"

definition configured :: "u32 \<Rightarrow> setting list \<Rightarrow> http_request" where
  "configured i settings = fold apply_setting settings (create_request i)"

lemma configured_members:
  "m_host (configured i settings) = last ([] # [h. Set_Host h \<leftarrow> settings])"
  "m_port (configured i settings) = last (80 # [n. Set_Port n \<leftarrow> settings])"
  "m_uri (configured i settings) = last ([] # [u. Set_Uri u \<leftarrow> settings])"
  "m_callback (configured i settings) = last (None # [Some cb. Set_Callback cb \<leftarrow> settings])"
  "m_id (configured i settings) = i"
proof (induction settings rule: rev_induct)
  case Nil
  { case 1 show ?case by (simp add: configured_def create_request_def) }
  { case 2 show ?case by (simp add: configured_def create_request_def DEFAULT_PORT_def) }
  { case 3 show ?case by (simp add: configured_def create_request_def) }
  { case 4 show ?case by (simp add: configured_def create_request_def) }
  { case 5 show ?case by (simp add: configured_def create_request_def) }
next
  case (snoc x settings)
  have step: "configured i (settings @ [y]) = apply_setting y (configured i settings)" for y by (simp add: configured_def)
  { case 1 show ?case using snoc(1) by (cases x) (simp_all add: step set_host_def set_port_def set_uri_def set_callback_def) }
  { case 2 show ?case using snoc(2) by (cases x) (simp_all add: step set_host_def set_port_def set_uri_def set_callback_def) }
  { case 3 show ?case using snoc(3) by (cases x) (simp_all add: step set_host_def set_port_def set_uri_def set_callback_def) }
  { case 4 show ?case using snoc(4) by (cases x) (simp_all add: step set_host_def set_port_def set_uri_def set_callback_def) }
  { case 5 show ?case using snoc(5) by (cases x) (simp_all add: step set_host_def set_port_def set_uri_def set_callback_def) }
qed

text \<open>C13: The callback of an HTTP request sees what the user set: whichever setters were called before \<^verbatim>\<open>execute\<close>, in whatever order and
  how often, and whatever completions and cancellations happened then, the callback that is called is the last one that
  was set, and the getters of the request it is passed return the last host, port and target that were set, port 80 and empty
  strings where none was, and the id the request was created with.\<close>

theorem callback_gets_own_request:
  assumes "request_run evs (configured i settings) = (p, s, tr)" and "Callback (cb, rq', ec) \<in> set tr"
  shows "get_host rq' = last ([] # [h. Set_Host h \<leftarrow> settings]) \<and> get_port rq' = last (80 # [n. Set_Port n \<leftarrow> settings]) \<and>
    get_uri rq' = last ([] # [u. Set_Uri u \<leftarrow> settings]) \<and> get_id rq' = i \<and>
    Some cb = last (None # [Some c. Set_Callback c \<leftarrow> settings])"
proof -
  let ?rq = "configured i settings"
  from request_run_configuration [OF assms(1)] assms(2) have "own_callback (configuration ?rq) (Callback (cb, rq', ec))"
    unfolding list_all_iff by blast
  then have "m_host rq' = m_host ?rq \<and> m_port rq' = m_port ?rq \<and> m_uri rq' = m_uri ?rq \<and> m_id rq' = m_id ?rq \<and> m_callback ?rq = Some cb"
    by (auto simp: configuration_def getter_defs)
  then show ?thesis unfolding configured_members by (simp add: getter_defs)
qed

definition demo_settings :: "setting list" where
  "demo_settings = [Set_Port 8080, Set_Host ''x'', Set_Callback 7, Set_Uri ''/a'', Set_Host ''h'']"

theorem callback_gets_own_request_witness:
  "\<exists>p s tr rq' ec. request_run [Completes 0 (failed_result operation_aborted)] (configured 1 demo_settings) = (p, s, tr) \<and>
     Callback (7, rq', ec) \<in> set tr \<and> get_host rq' = ''h'' \<and> get_port rq' = 8080 \<and> get_uri rq' = ''/a'' \<and> get_id rq' = 1"
proof -
  have "\<exists>s tr rq'. request_run [Completes 0 (failed_result operation_aborted)] (configured 1 demo_settings) = ([], s, tr) \<and>
      Callback (7, rq', operation_aborted) \<in> set tr"
    by (simp add: request_run_def chain_begin_def execute_def start_unless_cancelled_def chain_step_def configured_def demo_settings_def
      request_step_def on_host_name_resolved_def request_on_finish_def create_request_def
      set_callback_def set_uri_def set_host_def set_port_def)
  then obtain s tr rq' where run: "request_run [Completes 0 (failed_result operation_aborted)] (configured 1 demo_settings) = ([], s, tr)"
    "Callback (7, rq', operation_aborted) \<in> set tr" by blast
  from callback_gets_own_request [OF run] have "get_host rq' = ''h'' \<and> get_port rq' = 8080 \<and> get_uri rq' = ''/a'' \<and> get_id rq' = 1"
    by (simp add: demo_settings_def)
  with run show ?thesis by blast
qed

end
