(* ===== verification/Async_Server_Threads.thy ===== *)
theory Async_Server_Threads
  imports Server_Connections "HOL-Library.Multiset"
begin

section \<open>Asynchronous servers: the threads of the pool\<close>

text \<open>
  \<^verbatim>\<open>server.cpp\<close> and \<^verbatim>\<open>acceptor.cpp\<close> of \<^verbatim>\<open>chapter4/asyncParallel\<close> (and of \<^verbatim>\<open>chapter5/HTTPServer\<close>, the same code) with the
  threads of the pool. \<open>Async_Server\<close> takes every handler as one step. Here \<^verbatim>\<open>main\<close> and any number of threads run side by
  side: a thread that is in \<^verbatim>\<open>m_ios.run()\<close> takes a completed operation, executes its handler statement by statement,
  and comes back; the handlers of different connections, that of the acceptor and the two statements of \<^verbatim>\<open>Stop\<close> interleave in
  every way. The members of a service are used by its own handlers only, so the statements of its handler down to the one
  that starts the next operation, deletes the service or throws are one move. Connections are numbered as in
  \<open>Server_Connections\<close>, with the same record of their results and actions.
\<close>

subsection \<open>The statements\<close>

datatype ('k, 's, 'r) pool_place =
  In_Run
| Handling nat 'k 'r 's                 \<comment> \<open>a handler of the service of a connection, with its result\<close>
| New_Connection error_code             \<comment> \<open>\<^verbatim>\<open>onAccept\<close> begins\<close>
| Loads_Flag error_code                 \<comment> \<open>\<^verbatim>\<open>m_isStopped.load()\<close>\<close>
| Inits_Accept
| Closes_Acceptor
| Handler_Returns
| Thread_Ended

datatype pool_main =
  Starts | Creates_Threads | Sleeps | Stops_Acceptor | Stops_Context | Joins | Destroys_Server | Returns_Zero | Process_Gone

record ('k, 's, 'r, 'cb) pool_process =
  pp_main :: pool_main
  pp_threads :: "('k, 's, 'r) pool_place list"
  pp_flag :: bool                                  \<comment> \<open>\<^verbatim>\<open>m_isStopped\<close>\<close>
  pp_stopped :: bool                               \<comment> \<open>\<^verbatim>\<open>m_ios.stop()\<close> has been called\<close>
  pp_alive :: bool                                 \<comment> \<open>the \<^verbatim>\<open>Server\<close> with its \<^verbatim>\<open>io_context\<close>\<close>
  pp_accepting :: bool                             \<comment> \<open>an \<^verbatim>\<open>async_accept\<close> waits\<close>
  pp_waiting :: "(nat \<times> 'k \<times> 's) list"
  pp_created :: nat
  pp_deleted :: nat
  pp_inputs :: "(nat \<times> 'r) list"
  pp_log :: "(nat \<times> ('k, 'cb) action) list"

definition new_pool_process :: "('k, 's, 'r, 'cb) pool_process" where
  "new_pool_process = \<lparr>pp_main = Starts, pp_threads = [], pp_flag = False, pp_stopped = False, pp_alive = False,
     pp_accepting = False, pp_waiting = [], pp_created = 0, pp_deleted = 0, pp_inputs = [], pp_log = []\<rparr>"

text \<open>A thread of the pool. An exception that leaves a handler leaves \<^verbatim>\<open>run\<close> and the thread function.\<close>

inductive pool_move ::
  "'s \<times> ('k, 'cb) action list \<Rightarrow> ('k \<Rightarrow> 'r \<Rightarrow> 's \<Rightarrow> 's \<times> ('k, 'cb) action list) \<Rightarrow>
   ('k, 's, 'r, 'cb) pool_process \<Rightarrow> ('k, 's, 'r) pool_place \<Rightarrow> ('k, 's, 'r, 'cb) pool_process \<Rightarrow> ('k, 's, 'r) pool_place \<Rightarrow> bool"
  for start handler where
  takes_service: "\<not> pp_stopped p \<Longrightarrow> pp_waiting p = xs @ (n, k, s) # ys \<Longrightarrow>
    pool_move start handler p In_Run (p\<lparr>pp_waiting := xs @ ys\<rparr>) (Handling n k r s)"
| handles: "handler k r s = (s', as) \<Longrightarrow> \<not> throws as \<Longrightarrow>
    pool_move start handler p (Handling n k r s)
      (p\<lparr>pp_waiting := pp_waiting p @ map (\<lambda>k'. (n, k', s')) (conts as), pp_deleted := pp_deleted p + deletions as,
         pp_inputs := pp_inputs p @ [(n, r)], pp_log := pp_log p @ map (Pair n) as\<rparr>) Handler_Returns"
| handler_throws: "handler k r s = (s', as) \<Longrightarrow> throws as \<Longrightarrow>
    pool_move start handler p (Handling n k r s) (p\<lparr>pp_main := Process_Gone\<rparr>) Thread_Ended"
| takes_accept: "\<not> pp_stopped p \<Longrightarrow> pp_accepting p \<Longrightarrow>
    pool_move start handler p In_Run (p\<lparr>pp_accepting := False\<rparr>) (New_Connection ec)"
| new_service: "\<not> is_error ec \<Longrightarrow>
    pool_move start handler p (New_Connection ec)
      (p\<lparr>pp_waiting := pp_waiting p @ map (\<lambda>k. (pp_created p, k, fst start)) (conts (snd start)),
         pp_log := pp_log p @ map (Pair (pp_created p)) (snd start), pp_created := Suc (pp_created p)\<rparr>) (Loads_Flag ec)"
| accept_failed: "is_error ec \<Longrightarrow> pool_move start handler p (New_Connection ec) p (Loads_Flag ec)"
| flag_clear: "\<not> pp_flag p \<Longrightarrow> pool_move start handler p (Loads_Flag ec) p Inits_Accept"
| flag_set: "pp_flag p \<Longrightarrow> pool_move start handler p (Loads_Flag ec) p Closes_Acceptor"
| init_accept: "pool_move start handler p Inits_Accept (p\<lparr>pp_accepting := True\<rparr>) Handler_Returns"
| closes: "pool_move start handler p Closes_Acceptor p Handler_Returns"
| close_throws: "pool_move start handler p Closes_Acceptor (p\<lparr>pp_main := Process_Gone\<rparr>) Thread_Ended"
| returns: "pool_move start handler p Handler_Returns p In_Run"
| leaves_run: "pp_stopped p \<Longrightarrow> pool_move start handler p In_Run p Thread_Ended"

inductive_cases pool_moveE: "pool_move start handler p q p' q'"

text \<open>\<^verbatim>\<open>main\<close> with \<^verbatim>\<open>Server::Start\<close>, \<^verbatim>\<open>Server::Stop\<close> and the destructor. An error of the acceptor is caught; one of \<^verbatim>\<open>std::thread\<close>
  is not.\<close>

inductive pool_main_step ::
  "nat \<Rightarrow> ('k, 's, 'r, 'cb) pool_process \<Rightarrow> ('k, 's, 'r, 'cb) pool_process \<Rightarrow> bool" for thread_pool_size where
  start: "pp_main p = Starts \<Longrightarrow> thread_pool_size > 0 \<Longrightarrow>
    pool_main_step thread_pool_size p (p\<lparr>pp_main := Creates_Threads, pp_alive := True, pp_accepting := True\<rparr>)"
| start_fails: "pp_main p = Starts \<Longrightarrow> thread_pool_size > 0 \<Longrightarrow> pool_main_step thread_pool_size p (p\<lparr>pp_main := Returns_Zero\<rparr>)"
| assertion: "pp_main p = Starts \<Longrightarrow> thread_pool_size = 0 \<Longrightarrow> pool_main_step thread_pool_size p (p\<lparr>pp_main := Process_Gone\<rparr>)"
| thread: "pp_main p = Creates_Threads \<Longrightarrow> length (pp_threads p) < thread_pool_size \<Longrightarrow>
    pool_main_step thread_pool_size p (p\<lparr>pp_threads := pp_threads p @ [In_Run]\<rparr>)"
| no_thread: "pp_main p = Creates_Threads \<Longrightarrow> length (pp_threads p) < thread_pool_size \<Longrightarrow>
    pool_main_step thread_pool_size p (p\<lparr>pp_main := Process_Gone\<rparr>)"
| started: "pp_main p = Creates_Threads \<Longrightarrow> length (pp_threads p) = thread_pool_size \<Longrightarrow>
    pool_main_step thread_pool_size p (p\<lparr>pp_main := Sleeps\<rparr>)"
| slept: "pp_main p = Sleeps \<Longrightarrow> pool_main_step thread_pool_size p (p\<lparr>pp_main := Stops_Acceptor\<rparr>)"
| stop_acceptor: "pp_main p = Stops_Acceptor \<Longrightarrow>
    pool_main_step thread_pool_size p (p\<lparr>pp_main := Stops_Context, pp_flag := True\<rparr>)"
| stop_context: "pp_main p = Stops_Context \<Longrightarrow> pool_main_step thread_pool_size p (p\<lparr>pp_main := Joins, pp_stopped := True\<rparr>)"
| joined: "pp_main p = Joins \<Longrightarrow> list_all (\<lambda>q. q = Thread_Ended) (pp_threads p) \<Longrightarrow>
    pool_main_step thread_pool_size p (p\<lparr>pp_main := Destroys_Server\<rparr>)"
| destroys: "pp_main p = Destroys_Server \<Longrightarrow> pool_main_step thread_pool_size p (p\<lparr>pp_main := Returns_Zero, pp_alive := False\<rparr>)"

inductive pool_step ::
  "'s \<times> ('k, 'cb) action list \<Rightarrow> ('k \<Rightarrow> 'r \<Rightarrow> 's \<Rightarrow> 's \<times> ('k, 'cb) action list) \<Rightarrow> nat \<Rightarrow>
   ('k, 's, 'r, 'cb) pool_process \<Rightarrow> ('k, 's, 'r, 'cb) pool_process \<Rightarrow> bool"
  for start handler thread_pool_size where
  main: "pool_main_step thread_pool_size p p' \<Longrightarrow> pool_step start handler thread_pool_size p p'"
| pool: "pp_main p \<noteq> Process_Gone \<Longrightarrow> j < length (pp_threads p) \<Longrightarrow> pool_move start handler p (pp_threads p ! j) p' q \<Longrightarrow>
    pool_step start handler thread_pool_size p (p'\<lparr>pp_threads := (pp_threads p)[j := q]\<rparr>)"

definition pool_reachable ::
  "'s \<times> ('k, 'cb) action list \<Rightarrow> ('k \<Rightarrow> 'r \<Rightarrow> 's \<Rightarrow> 's \<times> ('k, 'cb) action list) \<Rightarrow> nat \<Rightarrow>
   ('k, 's, 'r, 'cb) pool_process \<Rightarrow> bool" where
  "pool_reachable start handler thread_pool_size p =
     (pool_step start handler thread_pool_size)\<^sup>*\<^sup>* new_pool_process p"

lemma pool_move_threads: "pool_move start handler p q p' q' \<Longrightarrow> pp_threads p' = pp_threads p"
  by (erule pool_moveE) auto

subsection \<open>One accept at a time\<close>

text \<open>The acceptor has one operation that waits or one handler that runs, until it is closed.\<close>

fun in_accept :: "('k, 's, 'r) pool_place \<Rightarrow> bool" where
  "in_accept (New_Connection ec) = True"
| "in_accept (Loads_Flag ec) = True"
| "in_accept Inits_Accept = True"
| "in_accept Closes_Acceptor = True"
| "in_accept q = False"

definition accepts :: "('k, 's, 'r, 'cb) pool_process \<Rightarrow> nat" where
  "accepts p = (if pp_accepting p then 1 else 0) + length (filter in_accept (pp_threads p))"

lemma pool_move_accepts:
  "pool_move start handler p q p' q' \<Longrightarrow>
   (if pp_accepting p' then 1 else 0) + (if in_accept q' then 1 else 0) \<le> (if pp_accepting p then 1 else 0) + (if in_accept q then 1 else (0 :: nat))
   \<or> pp_accepting p \<and> in_accept q"
  by (erule pool_moveE) auto

lemma accepts_pool:
  assumes "accepts p \<le> 1" and "j < length (pp_threads p)" and "pool_move start handler p (pp_threads p ! j) p' q"
  shows "accepts (p'\<lparr>pp_threads := (pp_threads p)[j := q]\<rparr>) \<le> 1"
proof -
  have "in_accept (pp_threads p ! j) \<Longrightarrow> 1 \<le> length (filter in_accept (pp_threads p))"
    using assms(2) nth_mem [of j "pp_threads p"] by (auto simp: Suc_le_eq filter_empty_conv)
  then show ?thesis
    using assms(1) pool_move_accepts [OF assms(3)] filter_update_length [OF assms(2), of in_accept q]
    by (auto simp: accepts_def split: if_splits)
qed

text \<open>Before the server is started there is nothing; and the server is alive as long as there are threads.\<close>

definition pool_life :: "('k, 's, 'r, 'cb) pool_process \<Rightarrow> bool" where
  "pool_life p \<longleftrightarrow> accepts p \<le> 1 \<and>
     (pp_main p = Starts \<longrightarrow> p = new_pool_process) \<and>
     (pp_main p \<in> {Creates_Threads, Sleeps, Stops_Acceptor, Stops_Context, Joins, Destroys_Server} \<longrightarrow> pp_alive p) \<and>
     (pp_stopped p \<longrightarrow> pp_main p \<in> {Joins, Destroys_Server, Returns_Zero, Process_Gone}) \<and>
     (pp_main p \<in> {Destroys_Server, Returns_Zero} \<longrightarrow> list_all (\<lambda>q. q = Thread_Ended) (pp_threads p))"

lemma pool_life_step:
  assumes "pool_step start handler sz p p'" and life: "pool_life p"
  shows "pool_life p'"
  using assms(1)
proof (cases rule: pool_step.cases)
  case main
  then show ?thesis
    using life by cases (auto simp: pool_life_def accepts_def new_pool_process_def)
next
  case (pool j p1 q)
  have "list_all (\<lambda>q. q = Thread_Ended) (pp_threads p) \<Longrightarrow> pp_threads p ! j = Thread_Ended"
    using pool(3) by (simp add: list_all_length)
  moreover have "pp_threads p ! j \<noteq> Thread_Ended" using pool(4) by cases auto
  ultimately have open_main: "pp_main p \<in> {Creates_Threads, Sleeps, Stops_Acceptor, Stops_Context, Joins}"
    using life pool(2,3) by (cases "pp_main p") (auto simp: pool_life_def new_pool_process_def)
  have p1: "(pp_main p1 = pp_main p \<or> pp_main p1 = Process_Gone) \<and> pp_stopped p1 = pp_stopped p \<and> pp_alive p1 = pp_alive p"
    using pool(4) by cases simp_all
  have "accepts (p1\<lparr>pp_threads := (pp_threads p)[j := q]\<rparr>) \<le> 1"
    using life accepts_pool [OF _ pool(3,4)] by (simp add: pool_life_def)
  then show ?thesis
    using open_main life p1 unfolding pool(1) by (cases "pp_main p") (auto simp: pool_life_def)
qed

lemma pool_life_reachable: "pool_reachable start handler sz p \<Longrightarrow> pool_life p"
  unfolding pool_reachable_def
proof (induction rule: rtranclp_induct)
  case base
  show ?case by (simp add: pool_life_def accepts_def new_pool_process_def)
qed (rule pool_life_step)

lemma thread_is_alive:
  assumes "pool_life p" and "pp_main p \<noteq> Process_Gone" and "q \<in> set (pp_threads p)" and "q \<noteq> Thread_Ended"
  shows "pp_alive p" and "pp_main p \<in> {Creates_Threads, Sleeps, Stops_Acceptor, Stops_Context, Joins}"
proof -
  have "\<not> list_all (\<lambda>q. q = Thread_Ended) (pp_threads p)" using assms(3,4) by (auto simp: list_all_iff)
  then show "pp_main p \<in> {Creates_Threads, Sleeps, Stops_Acceptor, Stops_Context, Joins}"
    using assms(1-3) by (cases "pp_main p") (auto simp: pool_life_def new_pool_process_def)
  with assms(1) show "pp_alive p" by (auto simp: pool_life_def)
qed

subsection \<open>The events of a schedule\<close>

text \<open>The connections that wait or are being handled, and whether the acceptor will accept again.\<close>

fun being_handled :: "('k, 's, 'r) pool_place \<Rightarrow> (nat \<times> 'k \<times> 's) list" where
  "being_handled (Handling n k r s) = [(n, k, s)]"
| "being_handled q = []"

definition connections :: "('k, 's, 'r, 'cb) pool_process \<Rightarrow> (nat \<times> 'k \<times> 's) list" where
  "connections p = pp_waiting p @ concat (map being_handled (pp_threads p))"

fun will_accept :: "bool \<Rightarrow> ('k, 's, 'r) pool_place \<Rightarrow> bool" where
  "will_accept flag (New_Connection ec) = True"
| "will_accept flag (Loads_Flag ec) = (\<not> flag)"
| "will_accept flag Inits_Accept = True"
| "will_accept flag q = False"

definition accepting :: "('k, 's, 'r, 'cb) pool_process \<Rightarrow> bool" where
  "accepting p \<longleftrightarrow> pp_accepting p \<or> list_ex (will_accept (pp_flag p)) (pp_threads p)"

definition obs_matches :: "('k, 's, 'r, 'cb) observed \<Rightarrow> ('k, 's, 'r, 'cb) pool_process \<Rightarrow> bool" where
  "obs_matches obs p \<longleftrightarrow>
     \<not> srv_stopped (obs_server obs) \<and> \<not> srv_crashed (obs_server obs) \<and>
     srv_created (obs_server obs) = pp_created p \<and> srv_deleted (obs_server obs) = pp_deleted p \<and>
     obs_inputs obs = pp_inputs p \<and> obs_log obs = pp_log p \<and>
     length (obs_names obs) = length (srv_serving (obs_server obs)) \<and>
     mset (zip (obs_names obs) (srv_serving (obs_server obs))) = mset (connections p) \<and>
     m_isStopped (srv_acceptor (obs_server obs)) = pp_flag p \<and>
     (pp_alive p \<longrightarrow> srv_accepting (obs_server obs) = accepting p)"

text \<open>An accept takes effect when the service is created. As long as the flag has not been read, the event that
  stops the acceptor can still be put before it.\<close>

definition accepted :: "error_code \<Rightarrow> 'r server_event" where
  "accepted ec = Accepted \<lparr>ac_ec = ec, ac_close = no_error\<rparr>"

definition is_service_event :: "'r server_event \<Rightarrow> bool" where
  "is_service_event ev = (case ev of Service_Completes i r \<Rightarrow> True | _ \<Rightarrow> False)"

definition can_stop_before ::
  "'s \<times> ('k, 'cb) action list \<Rightarrow> ('k \<Rightarrow> 'r \<Rightarrow> 's \<Rightarrow> 's \<times> ('k, 'cb) action list) \<Rightarrow>
   'r server_event list \<Rightarrow> error_code \<Rightarrow> bool \<Rightarrow> bool" where
  "can_stop_before start handler evs ec flag \<longleftrightarrow>
     (\<exists>evs1 evs2. evs = evs1 @ accepted ec # evs2 \<and> list_all is_service_event evs2 \<and>
        (let srv = obs_server (observe start handler evs1)
         in \<not> srv_stopped srv \<and> \<not> srv_crashed srv \<and> srv_accepting srv \<and> m_isStopped (srv_acceptor srv) = flag))"

definition pool_simulated ::
  "'s \<times> ('k, 'cb) action list \<Rightarrow> ('k \<Rightarrow> 'r \<Rightarrow> 's \<Rightarrow> 's \<times> ('k, 'cb) action list) \<Rightarrow>
   ('k, 's, 'r, 'cb) pool_process \<Rightarrow> 'r server_event list \<Rightarrow> bool" where
  "pool_simulated start handler p evs \<longleftrightarrow> obs_matches (observe start handler evs) p \<and>
     (\<forall>ec. Loads_Flag ec \<in> set (pp_threads p) \<longrightarrow> can_stop_before start handler evs ec (pp_flag p))"

lemma observe_append: "observe start handler (evs @ evs') = fold (observe_step start handler) evs' (observe start handler evs)"
  by (simp add: observe_def)

text \<open>A thread's place changes: the connections and the acceptor.\<close>

lemma connections_update:
  assumes "j < length (pp_threads p)"
  shows "mset (concat (map being_handled ((pp_threads p)[j := q]))) + mset (being_handled (pp_threads p ! j))
    = mset (concat (map being_handled (pp_threads p))) + mset (being_handled q)"
proof -
  note split = id_take_nth_drop [OF assms]
  have "mset (concat (map being_handled (pp_threads p))) = mset (concat (map being_handled (take j (pp_threads p)))) +
      mset (being_handled (pp_threads p ! j)) + mset (concat (map being_handled (drop (Suc j) (pp_threads p))))"
    by (subst split) simp
  then show ?thesis using assms by (simp add: upd_conv_take_nth_drop)
qed

lemma list_ex_update:
  assumes "j < length xs" and "\<And>k. k < length xs \<Longrightarrow> k \<noteq> j \<Longrightarrow> \<not> P (xs ! k)"
  shows "list_ex P (xs[j := x]) = P x" and "list_ex P xs = P (xs ! j)"
  using assms by (auto simp: list_ex_length nth_list_update)

text \<open>While a thread accepts no other does, and nothing waits to be accepted.\<close>

lemma accept_alone:
  assumes "accepts p \<le> 1" and "j < length (pp_threads p)" and "in_accept (pp_threads p ! j)"
  shows "\<not> pp_accepting p" and "k < length (pp_threads p) \<Longrightarrow> k \<noteq> j \<Longrightarrow> \<not> in_accept (pp_threads p ! k)"
proof -
  have "1 \<le> length (filter in_accept (pp_threads p))"
    using assms(2,3) nth_mem [of j "pp_threads p"] by (auto simp: Suc_le_eq filter_empty_conv)
  then show "\<not> pp_accepting p" using assms(1) by (auto simp: accepts_def split: if_splits)
  show "k < length (pp_threads p) \<Longrightarrow> k \<noteq> j \<Longrightarrow> \<not> in_accept (pp_threads p ! k)"
    using two_in_filter [of j "pp_threads p" k in_accept] assms by (auto simp: accepts_def split: if_splits)
qed

lemma will_accept_in: "will_accept flag q \<Longrightarrow> in_accept q"
  by (cases q) simp_all

lemma accepting_in_accept:
  assumes "accepts p \<le> 1" and "j < length (pp_threads p)" and "in_accept (pp_threads p ! j)"
  shows "accepting p = will_accept (pp_flag p) (pp_threads p ! j)"
    and "list_ex (will_accept flag) ((pp_threads p)[j := q]) = will_accept flag q"
    and "Loads_Flag ec \<in> set ((pp_threads p)[j := q]) \<longleftrightarrow> q = Loads_Flag ec"
proof -
  have none: "\<not> will_accept f (pp_threads p ! k)" if "k < length (pp_threads p)" "k \<noteq> j" for f k
    using accept_alone(2) [OF assms that] will_accept_in by blast
  show "accepting p = will_accept (pp_flag p) (pp_threads p ! j)"
    using list_ex_update(2) [OF assms(2), of "will_accept (pp_flag p)"] none accept_alone(1) [OF assms] by (simp add: accepting_def)
  show "list_ex (will_accept flag) ((pp_threads p)[j := q]) = will_accept flag q"
    by (rule list_ex_update(1) [OF assms(2)]) (rule none)
  show "Loads_Flag ec \<in> set ((pp_threads p)[j := q]) \<longleftrightarrow> q = Loads_Flag ec"
    using accept_alone(2) [OF assms] assms(2) by (fastforce simp: in_set_conv_nth nth_list_update split: if_splits)
qed

lemma accepting_outside:
  assumes "j < length (pp_threads p)" and "\<not> in_accept (pp_threads p ! j)" and "\<not> in_accept q"
  shows "list_ex (will_accept flag) ((pp_threads p)[j := q]) = list_ex (will_accept flag) (pp_threads p)"
    and "Loads_Flag ec \<in> set ((pp_threads p)[j := q]) \<longleftrightarrow> Loads_Flag ec \<in> set (pp_threads p)"
proof -
  have "will_accept flag ((pp_threads p)[j := q] ! k) = will_accept flag (pp_threads p ! k)"
    "((pp_threads p)[j := q] ! k = Loads_Flag ec) = (pp_threads p ! k = Loads_Flag ec)" if "k < length (pp_threads p)" for k
    using assms will_accept_in that by (auto simp: nth_list_update)
  then show "list_ex (will_accept flag) ((pp_threads p)[j := q]) = list_ex (will_accept flag) (pp_threads p)"
    and "Loads_Flag ec \<in> set ((pp_threads p)[j := q]) \<longleftrightarrow> Loads_Flag ec \<in> set (pp_threads p)"
    by (auto simp: list_ex_length in_set_conv_nth)
qed

subsection \<open>Each move is an event or none\<close>

lemma zip_numbered: "zip (map (\<lambda>k. n) ks) (map (\<lambda>k. (k, t)) ks) = map (\<lambda>k. (n, k, t)) ks"
  by (induction ks) simp_all

text \<open>A handler completes.\<close>

lemma handler_event:
  assumes match: "obs_matches obs p" and j: "j < length (pp_threads p)" "pp_threads p ! j = Handling n k r s"
    and h: "handler k r s = (s', as)" "\<not> throws as"
  obtains i where "obs_matches (observe_step start handler (Service_Completes i r) obs)
    (p\<lparr>pp_waiting := pp_waiting p @ map (\<lambda>k'. (n, k', s')) (conts as), pp_deleted := pp_deleted p + deletions as,
       pp_inputs := pp_inputs p @ [(n, r)], pp_log := pp_log p @ map (Pair n) as, pp_threads := (pp_threads p)[j := Handler_Returns]\<rparr>)"
proof -
  let ?z = "zip (obs_names obs) (srv_serving (obs_server obs))"
  have len: "length (obs_names obs) = length (srv_serving (obs_server obs))"
    and conn: "mset ?z = mset (connections p)" using match by (simp_all add: obs_matches_def)
  have "(n, k, s) \<in> set (concat (map being_handled (pp_threads p)))" using j nth_mem [OF j(1)] by force
  then have "(n, k, s) \<in># mset ?z" unfolding conn by (simp add: connections_def)
  then obtain i where i: "i < length ?z" "?z ! i = (n, k, s)" by (auto simp: in_set_conv_nth)
  then have nth: "i < length (srv_serving (obs_server obs))" "obs_names obs ! i = n" "srv_serving (obs_server obs) ! i = (k, s)"
    using len by simp_all
  let ?names = "take i (obs_names obs) @ drop (Suc i) (obs_names obs)"
  let ?serving = "take i (srv_serving (obs_server obs)) @ drop (Suc i) (srv_serving (obs_server obs))"
  have "zip ?names ?serving = take i ?z @ drop (Suc i) ?z" using len nth(1) by (simp add: take_zip drop_zip)
  moreover have "mset ?z = mset (take i ?z @ drop (Suc i) ?z) + {#(n, k, s)#}"
    using id_take_nth_drop [OF i(1)] i(2) by (metis mset.simps(2) mset_append union_mset_add_mset_right add_mset_add_single)
  ultimately have "add_mset (n, k, s) (mset (zip ?names ?serving)) = mset (pp_waiting p) + mset (concat (map being_handled (pp_threads p)))"
    using conn by (simp add: connections_def)
  moreover have "mset (concat (map being_handled (pp_threads p)))
      = add_mset (n, k, s) (mset (concat (map being_handled ((pp_threads p)[j := Handler_Returns]))))"
    using connections_update [OF j(1), of Handler_Returns] j(2) by simp
  ultimately have rest: "mset (zip ?names ?serving)
      = mset (pp_waiting p) + mset (concat (map being_handled ((pp_threads p)[j := Handler_Returns])))" by simp
  with len nth(1) have rest: "mset (zip (take i (obs_names obs)) (take i (srv_serving (obs_server obs)))) +
      mset (zip (drop (Suc i) (obs_names obs)) (drop (Suc i) (srv_serving (obs_server obs))))
      = mset (pp_waiting p) + mset (concat (map being_handled ((pp_threads p)[j := Handler_Returns])))" by simp
  have "length ?names = length ?serving" using len nth(1) by simp
  then have zip: "zip (?names @ xs) (?serving @ ys) = zip ?names ?serving @ zip xs ys" for xs ys by (rule zip_append)
  show thesis
  proof (rule that [of i])
    show "obs_matches (observe_step start handler (Service_Completes i r) obs)
      (p\<lparr>pp_waiting := pp_waiting p @ map (\<lambda>k'. (n, k', s')) (conts as), pp_deleted := pp_deleted p + deletions as,
         pp_inputs := pp_inputs p @ [(n, r)], pp_log := pp_log p @ map (Pair n) as, pp_threads := (pp_threads p)[j := Handler_Returns]\<rparr>)"
      using match nth h len accepting_outside(1) [OF j(1), of Handler_Returns] j(2)
      by (simp add: obs_matches_def observe_step_def server_step_def Let_def connections_def accepting_def zip rest zip_numbered del: append_assoc)
  qed
qed

text \<open>A connection is accepted.\<close>

definition served_process ::
  "'s \<times> ('k, 'cb) action list \<Rightarrow> error_code \<Rightarrow> ('k, 's, 'r, 'cb) pool_process \<Rightarrow> ('k, 's, 'r, 'cb) pool_process" where
  "served_process start ec p =
     (if is_error ec then p
      else p\<lparr>pp_waiting := pp_waiting p @ map (\<lambda>k. (pp_created p, k, fst start)) (conts (snd start)),
             pp_log := pp_log p @ map (Pair (pp_created p)) (snd start), pp_created := Suc (pp_created p)\<rparr>)"

lemma accept_event:
  assumes match: "obs_matches obs p" and j: "j < length (pp_threads p)" "pp_threads p ! j = New_Connection ec"
    and life: "accepts p \<le> 1" "pp_alive p"
  shows "obs_matches (observe_step start handler (accepted ec) obs)
    ((served_process start ec p)\<lparr>pp_threads := (pp_threads p)[j := Loads_Flag ec]\<rparr>)"
proof -
  have acc: "in_accept (pp_threads p ! j)" using j(2) by simp
  note accept = accepting_in_accept [OF life(1) j(1) acc]
  have "srv_accepting (obs_server obs)" using match life(2) accept(1) j(2) by (simp add: obs_matches_def)
  moreover have "mset (concat (map being_handled ((pp_threads p)[j := Loads_Flag ec]))) = mset (concat (map being_handled (pp_threads p)))"
    using connections_update [OF j(1), of "Loads_Flag ec"] j(2) by simp
  ultimately show ?thesis
    using match accept(2) accept_alone(1) [OF life(1) j(1) acc]
    by (cases "is_error ec"; cases "pp_flag p")
       (simp_all add: obs_matches_def observe_step_def server_step_def accepted_def accept_step_def onAccept_def InitAccept_def
         served_process_def connections_def accepting_def zip_append zip_numbered Let_def)
qed

text \<open>The acceptor is stopped before an accept whose effects are under way.\<close>

definition closed :: "('k, 's, 'r, 'cb) observed \<Rightarrow> ('k, 's, 'r, 'cb) observed" where
  "closed obs = obs\<lparr>obs_server := (obs_server obs)\<lparr>srv_acceptor := \<lparr>m_isStopped = True\<rparr>, srv_accepting := False\<rparr>\<rparr>"

lemma closed_service_event: "is_service_event ev \<Longrightarrow> observe_step start handler ev (closed obs) = closed (observe_step start handler ev obs)"
  by (auto simp: is_service_event_def closed_def observe_step_def server_step_def Let_def split: server_event.splits prod.splits)

lemma closed_service_events:
  "list_all is_service_event evs \<Longrightarrow> fold (observe_step start handler) evs (closed obs) = closed (fold (observe_step start handler) evs obs)"
  by (induction evs arbitrary: obs) (simp_all add: closed_service_event)

lemma closed_accept:
  assumes "\<not> srv_stopped (obs_server obs)" and "\<not> srv_crashed (obs_server obs)" and "srv_accepting (obs_server obs)"
  shows "observe_step start handler (accepted ec) (observe_step start handler Stop_Acceptor obs)
    = closed (observe_step start handler (accepted ec) obs)"
  using assms
  by (cases "is_error ec"; cases "m_isStopped (srv_acceptor (obs_server obs))")
     (simp_all add: closed_def observe_step_def server_step_def accepted_def accept_step_def onAccept_def InitAccept_def
       Acceptor_Stop_def Let_def)

lemma stop_before:
  assumes "can_stop_before start handler evs ec flag"
  obtains evs' where "observe start handler evs' = closed (observe start handler evs)" and "can_stop_before start handler evs' ec True"
proof -
  from assms obtain evs1 evs2 where evs: "evs = evs1 @ accepted ec # evs2" and service: "list_all is_service_event evs2"
    and ok: "\<not> srv_stopped (obs_server (observe start handler evs1))" "\<not> srv_crashed (obs_server (observe start handler evs1))"
      "srv_accepting (obs_server (observe start handler evs1))"
    unfolding can_stop_before_def Let_def by blast
  show thesis
  proof (rule that)
    show "observe start handler ((evs1 @ [Stop_Acceptor]) @ accepted ec # evs2) = closed (observe start handler evs)"
      using closed_accept [OF ok] closed_service_events [OF service] by (simp add: evs observe_append)
    have "observe start handler (evs1 @ [Stop_Acceptor]) = (observe start handler evs1)
        \<lparr>obs_server := (obs_server (observe start handler evs1))\<lparr>srv_acceptor := fst (Acceptor_Stop () (srv_acceptor (obs_server (observe start handler evs1))))\<rparr>\<rparr>"
      using ok by (simp add: observe_append observe_step_def server_step_def Let_def)
    then show "can_stop_before start handler ((evs1 @ [Stop_Acceptor]) @ accepted ec # evs2) ec True"
      unfolding can_stop_before_def Let_def using service ok by (intro exI conjI) (assumption | rule refl | simp add: Acceptor_Stop_def)+
  qed
qed

lemma stop_event:
  assumes sim: "pool_simulated start handler p evs" and life: "accepts p \<le> 1"
  shows "\<exists>evs'. pool_simulated start handler (p\<lparr>pp_main := m, pp_flag := True\<rparr>) evs'"
proof (cases "\<exists>ec. Loads_Flag ec \<in> set (pp_threads p)")
  case True
  then obtain ec j where j: "j < length (pp_threads p)" "pp_threads p ! j = Loads_Flag ec" by (auto simp: in_set_conv_nth)
  then have acc: "in_accept (pp_threads p ! j)" by simp
  have "can_stop_before start handler evs ec (pp_flag p)" using sim j nth_mem [OF j(1)] by (simp add: pool_simulated_def)
  then obtain evs' where evs': "observe start handler evs' = closed (observe start handler evs)" "can_stop_before start handler evs' ec True"
    by (rule stop_before)
  have "(pp_threads p)[j := Loads_Flag ec] = pp_threads p" using j(2) by (metis list_update_id)
  with accepting_in_accept(2) [OF life j(1) acc, where flag = True and q = "Loads_Flag ec"]
    accepting_in_accept(3) [OF life j(1) acc, where q = "Loads_Flag ec"] accept_alone(1) [OF life j(1) acc]
  have "\<not> accepting (p\<lparr>pp_main := m, pp_flag := True\<rparr>)" and "Loads_Flag e \<in> set (pp_threads p) \<longleftrightarrow> e = ec" for e
    by (auto simp: accepting_def)
  then have "pool_simulated start handler (p\<lparr>pp_main := m, pp_flag := True\<rparr>) evs'"
    using sim evs' by (simp add: pool_simulated_def obs_matches_def closed_def connections_def)
  then show ?thesis by blast
next
  case False
  then have "will_accept True q = will_accept (pp_flag p) q" if "q \<in> set (pp_threads p)" for q using that by (cases q) auto
  then have "list_ex (will_accept True) (pp_threads p) = list_ex (will_accept (pp_flag p)) (pp_threads p)" by (auto simp: list_ex_iff)
  then have "pool_simulated start handler (p\<lparr>pp_main := m, pp_flag := True\<rparr>) (evs @ [Stop_Acceptor])"
    using sim False
    by (auto simp: pool_simulated_def obs_matches_def observe_append observe_step_def server_step_def Acceptor_Stop_def
        connections_def accepting_def Let_def)
  then show ?thesis by blast
qed

text \<open>The moves that are no event.\<close>

lemma silent_move:
  assumes sim: "pool_simulated start handler p evs" and "obs_matches (observe start handler evs) p'"
    and "pp_flag p' = pp_flag p" and "\<And>ec. Loads_Flag ec \<in> set (pp_threads p') \<Longrightarrow> Loads_Flag ec \<in> set (pp_threads p)"
  shows "\<exists>evs'. pool_simulated start handler p' evs'"
  using assms by (intro exI [of _ evs]) (simp add: pool_simulated_def)

lemma simulated_pool_move:
  assumes sim: "pool_simulated start handler p evs" and life: "accepts p \<le> 1" "pp_alive p"
    and j: "j < length (pp_threads p)" and move: "pool_move start handler p (pp_threads p ! j) p' q" and lives: "pp_main p' \<noteq> Process_Gone"
  shows "\<exists>evs'. pool_simulated start handler (p'\<lparr>pp_threads := (pp_threads p)[j := q]\<rparr>) evs'"
proof -
  let ?obs = "observe start handler evs"
  have match: "obs_matches ?obs p" and early: "\<And>ec. Loads_Flag ec \<in> set (pp_threads p) \<Longrightarrow> can_stop_before start handler evs ec (pp_flag p)"
    using sim by (simp_all add: pool_simulated_def)
  note outside = accepting_outside [OF j] and inside = accepting_in_accept [OF life(1) j] and alone = accept_alone(1) [OF life(1) j]
    and conns = connections_update [OF j]
  have accept_case: "\<exists>evs'. pool_simulated start handler ((served_process start ec p)\<lparr>pp_threads := (pp_threads p)[j := Loads_Flag ec]\<rparr>) evs'"
    if at: "pp_threads p ! j = New_Connection ec" for ec
  proof -
    have acc: "in_accept (pp_threads p ! j)" using at by simp
    have "can_stop_before start handler (evs @ [accepted ec]) ec (pp_flag p)"
      unfolding can_stop_before_def using match inside(1) [OF acc] life(2) at
      by (intro exI [of _ evs] exI [of _ "[]"]) (simp add: obs_matches_def Let_def)
    with accept_event [OF match j at life, where start = start and handler = handler] inside(3) [OF acc, where q = "Loads_Flag ec"]
    have "pool_simulated start handler ((served_process start ec p)\<lparr>pp_threads := (pp_threads p)[j := Loads_Flag ec]\<rparr>) (evs @ [accepted ec])"
      by (simp add: pool_simulated_def observe_append served_process_def)
    then show ?thesis by blast
  qed
  show ?thesis
    using move
  proof (cases rule: pool_move.cases)
    case (handles k r s s' as n)
    from handler_event [where start = start and handler = handler and k = k and r = r and s = s, OF match j handles(1,4,5)] obtain i where i: "obs_matches (observe_step start handler (Service_Completes i r) ?obs)
        (p'\<lparr>pp_threads := (pp_threads p)[j := q]\<rparr>)" unfolding handles(2,3) by auto
    have "can_stop_before start handler (evs @ [Service_Completes i r]) ec flag" if "can_stop_before start handler evs ec flag" for ec flag
      using that unfolding can_stop_before_def by (fastforce simp: is_service_event_def)
    with i early outside(2) [of q] have "pool_simulated start handler (p'\<lparr>pp_threads := (pp_threads p)[j := q]\<rparr>) (evs @ [Service_Completes i r])"
      by (simp add: pool_simulated_def observe_append handles)
    then show ?thesis by blast
  next
    case (takes_service xs n k s ys r)
    then show ?thesis using match outside [where q = q] conns [of q]
      by (intro silent_move [OF sim]) (simp_all add: obs_matches_def connections_def accepting_def)
  next
    case (takes_accept ec)
    moreover have "list_ex (will_accept flag) ((pp_threads p)[j := New_Connection ec])" for flag
      using j by (auto simp: list_ex_length nth_list_update)
    moreover have "Loads_Flag e \<in> set ((pp_threads p)[j := New_Connection ec]) \<Longrightarrow> Loads_Flag e \<in> set (pp_threads p)" for e
      using set_update_subset_insert by fastforce
    ultimately show ?thesis using match conns [of q]
      by (intro silent_move [OF sim]) (simp_all add: obs_matches_def connections_def accepting_def)
  next
    case (new_service ec)
    show ?thesis
      using accept_case [OF new_service(1)] new_service by (simp add: served_process_def)
  next
    case (accept_failed ec)
    show ?thesis
      using accept_case [OF accept_failed(1)] accept_failed by (simp add: served_process_def)
  next
    case (flag_clear ec)
    then show ?thesis using match inside(1) inside(2,3) [where q = q] conns [of q]
      by (intro silent_move [OF sim]) (simp_all add: obs_matches_def connections_def accepting_def)
  next
    case (flag_set ec)
    then show ?thesis using match inside(1) inside(2,3) [where q = q] conns [of q] alone
      by (intro silent_move [OF sim]) (simp_all add: obs_matches_def connections_def accepting_def)
  next
    case init_accept
    then show ?thesis using match inside(1) inside(2,3) [where q = q] conns [of q]
      by (intro silent_move [OF sim]) (simp_all add: obs_matches_def connections_def accepting_def)
  next
    case closes
    then show ?thesis using match inside(1) inside(2,3) [where q = q] conns [of q] alone
      by (intro silent_move [OF sim]) (simp_all add: obs_matches_def connections_def accepting_def)
  next
    case returns
    then show ?thesis using match outside [where q = q] conns [of q]
      by (intro silent_move [OF sim]) (simp_all add: obs_matches_def connections_def accepting_def)
  next
    case leaves_run
    then show ?thesis using match outside [where q = q] conns [of q]
      by (intro silent_move [OF sim]) (simp_all add: obs_matches_def connections_def accepting_def)
  qed (use lives in simp_all)
qed

lemma simulated_pool_main:
  assumes sim: "pool_simulated start handler p evs" and life: "pool_life p" and main: "pool_main_step sz p p'"
  shows "\<exists>evs'. pool_simulated start handler p' evs'"
  using main
proof (cases rule: pool_main_step.cases)
  case start
  with life have "p = new_pool_process" by (simp add: pool_life_def)
  then have "pool_simulated start handler p' []"
    by (simp add: start pool_simulated_def obs_matches_def observe_def new_observed_def new_server_def new_pool_process_def
        connections_def accepting_def new_acceptor_def)
  then show ?thesis by blast
next
  case thread
  then show ?thesis using sim
    by (intro silent_move [OF sim]) (auto simp: pool_simulated_def obs_matches_def connections_def accepting_def)
next
  case stop_acceptor
  with stop_event [OF sim] life show ?thesis by (simp add: pool_life_def)
qed (use sim in \<open>auto intro!: silent_move [OF sim] simp: pool_simulated_def obs_matches_def connections_def accepting_def\<close>)

lemma pool_move_gone: "pool_move start handler p q p' q' \<Longrightarrow> pp_main p' = pp_main p \<or> pp_main p' = Process_Gone"
  by (erule pool_moveE) auto

lemma pool_simulation:
  assumes "pool_reachable start handler sz p" and "pp_main p \<noteq> Process_Gone"
  shows "\<exists>evs. pool_simulated start handler p evs"
  using assms unfolding pool_reachable_def
proof (induction rule: rtranclp_induct)
  case base
  have "pool_simulated start handler new_pool_process []"
    by (simp add: pool_simulated_def obs_matches_def observe_def new_observed_def new_server_def new_pool_process_def
        connections_def new_acceptor_def)
  then show ?case by blast
next
  case (step p p')
  have life: "pool_life p" using step.hyps(1) pool_life_reachable unfolding pool_reachable_def by blast
  from step.hyps(2) show ?case
  proof cases
    case main
    then have "pp_main p \<noteq> Process_Gone" by cases auto
    with step.IH simulated_pool_main [OF _ life main] show ?thesis by blast
  next
    case (pool j p1 q)
    have "pp_threads p ! j \<noteq> Thread_Ended" using pool(4) by cases auto
    with thread_is_alive(1) [OF life pool(2) nth_mem [OF pool(3)]] have "pp_alive p" .
    with step.IH pool step.prems life simulated_pool_move [OF _ _ _ pool(3,4)] show ?thesis by (auto simp: pool_life_def)
  qed
qed

text \<open>C3: The model in which every handler is one step is the behaviour of the thread pool: whatever the threads and \<^verbatim>\<open>main\<close> do and
  in whatever order, as long as no exception has ended the process, there is a list of completions of the atomic model
  after which every connection has been through the same results and actions, the same services exist and wait or are
  being handled, and the acceptor is in the same state.\<close>

theorem server_threads_refine_events:
  assumes "pool_reachable start handler thread_pool_size p" and "pp_main p \<noteq> Process_Gone"
  shows "\<exists>evs. obs_matches (observe start handler evs) p"
  using pool_simulation [OF assms] by (auto simp: pool_simulated_def)

subsection \<open>Stopping\<close>

lemma threads_bounded: "pool_reachable start handler sz p \<Longrightarrow> length (pp_threads p) \<le> sz"
  unfolding pool_reachable_def
proof (induction rule: rtranclp_induct)
  case (step p p')
  from step.hyps(2) step.IH show ?case by (elim pool_step.cases pool_main_step.cases) auto
qed (simp add: new_pool_process_def)

text \<open>What a thread may still do after \<^verbatim>\<open>m_ios.stop()\<close>.\<close>

fun moves_left :: "('k, 's, 'r) pool_place \<Rightarrow> nat" where
  "moves_left In_Run = 1"
| "moves_left Handler_Returns = 2"
| "moves_left (Handling n k r s) = 3"
| "moves_left Inits_Accept = 3"
| "moves_left Closes_Acceptor = 3"
| "moves_left (Loads_Flag ec) = 4"
| "moves_left (New_Connection ec) = 5"
| "moves_left Thread_Ended = 0"

definition stop_rank :: "('k, 's, 'r, 'cb) pool_process \<Rightarrow> nat" where
  "stop_rank p = sum_list (map moves_left (pp_threads p)) +
     (case pp_main p of Joins \<Rightarrow> 2 | Destroys_Server \<Rightarrow> 1 | _ \<Rightarrow> 0)"

lemma moves_left_decreases: "pool_move start handler p q p' q' \<Longrightarrow> pp_stopped p \<Longrightarrow> moves_left q' < moves_left q \<and> pp_stopped p'"
  by (erule pool_moveE) auto

lemma sum_list_update_less:
  "j < length xs \<Longrightarrow> f x < f (xs ! j) \<Longrightarrow> sum_list (map f (xs[j := x])) < sum_list (map f xs :: nat list)"
proof (induction xs arbitrary: j)
  case (Cons y ys)
  then show ?case by (cases j) auto
qed simp

lemma stop_rank_decreases:
  assumes "pool_step start handler sz p p'" and "pp_stopped p" and life: "pool_life p"
  shows "stop_rank p' < stop_rank p \<and> pp_stopped p'"
  using assms(1)
proof cases
  case main
  then show ?thesis using assms(2) life by cases (auto simp: stop_rank_def pool_life_def)
next
  case (pool j p1 q)
  have main: "pp_main p \<in> {Joins, Destroys_Server, Returns_Zero, Process_Gone}" using assms(2) life by (simp add: pool_life_def)
  have "sum_list (map moves_left ((pp_threads p)[j := q])) < sum_list (map moves_left (pp_threads p))"
    using moves_left_decreases [OF pool(4) assms(2)] by (intro sum_list_update_less [OF pool(3)]) simp
  with moves_left_decreases [OF pool(4) assms(2)] pool_move_gone [OF pool(4)] main pool(1) show ?thesis
    by (auto simp: stop_rank_def)
qed

lemma thread_can_move:
  assumes "pp_stopped p" and "q \<noteq> Thread_Ended"
  shows "\<exists>p' q'. pool_move start handler p q p' q'"
proof (cases q)
  case In_Run
  with assms(1) show ?thesis using pool_move.leaves_run by blast
next
  case (Handling n k r s)
  then show ?thesis
    by (cases "handler k r s"; cases "throws (snd (handler k r s))") (auto intro: pool_move.handles pool_move.handler_throws)
next
  case (New_Connection ec)
  then show ?thesis by (cases "is_error ec") (auto intro: pool_move.new_service pool_move.accept_failed)
next
  case (Loads_Flag ec)
  then show ?thesis by (cases "pp_flag p") (auto intro: pool_move.flag_set pool_move.flag_clear)
qed (use assms(2) in \<open>auto intro: pool_move.intros\<close>)

lemma stop_not_stuck:
  assumes "pp_stopped p" and "pool_life p" and "pp_main p \<notin> {Returns_Zero, Process_Gone}"
  shows "\<exists>p'. pool_step start handler sz p p'"
proof (cases "list_all (\<lambda>q. q = Thread_Ended) (pp_threads p)")
  case True
  with assms show ?thesis
    by (auto simp: pool_life_def intro: pool_step.main pool_main_step.joined pool_main_step.destroys)
next
  case False
  then obtain j where j: "j < length (pp_threads p)" "pp_threads p ! j \<noteq> Thread_Ended" by (auto simp: list_all_length)
  from thread_can_move [OF assms(1) j(2)] obtain p' q where "pool_move start handler p (pp_threads p ! j) p' q" by blast
  with pool_step.pool [OF _ j(1)] assms(3) show ?thesis by blast
qed

lemma stop_run:
  assumes "pool_reachable start handler sz p" and "pp_stopped p" and "(pool_step start handler sz ^^ m) p p'"
  shows "pool_reachable start handler sz p' \<and> pp_stopped p' \<and> m + stop_rank p' \<le> stop_rank p"
  using assms(3)
proof (induction m arbitrary: p')
  case (Suc m)
  then obtain p1 where run: "(pool_step start handler sz ^^ m) p p1" and step: "pool_step start handler sz p1 p'" by auto
  note ih = Suc.IH [OF run]
  from ih step have "pool_reachable start handler sz p'" unfolding pool_reachable_def by (meson rtranclp.rtrancl_into_rtrancl)
  with stop_rank_decreases [OF step] ih pool_life_reachable show ?case by fastforce
qed (use assms in simp)

text \<open>C11: \<^verbatim>\<open>Server::Stop\<close> returns: from the moment at which \<^verbatim>\<open>m_ios.stop()\<close> has been called, whatever the threads are doing,
  all of them and \<^verbatim>\<open>main\<close> together make at most five times the pool size and two more moves, and the program stops moving only when \<^verbatim>\<open>main\<close> has
  joined them, destroyed the server and returned, unless an exception of a handler ends the process before.\<close>

theorem server_stop_returns:
  assumes "pool_reachable start handler thread_pool_size p" and "pp_stopped p" and "(pool_step start handler thread_pool_size ^^ m) p p'"
  shows "m \<le> 5 * thread_pool_size + 2 \<and>
    ((\<nexists>p''. pool_step start handler thread_pool_size p' p'') \<longrightarrow> pp_main p' \<in> {Returns_Zero, Process_Gone})"
proof -
  note run = stop_run [OF assms]
  have "moves_left q \<le> 5" for q :: "('b, 'a, 'd) pool_place" by (cases q) simp_all
  then have "sum_list (map moves_left (pp_threads p)) \<le> 5 * length (pp_threads p)"
    using sum_list_mono [of "pp_threads p" moves_left "\<lambda>q. 5"] by (simp add: sum_list_triv mult.commute)
  moreover have "stop_rank p \<le> sum_list (map moves_left (pp_threads p)) + 2" by (simp add: stop_rank_def split: pool_main.split)
  moreover have "length (pp_threads p) \<le> thread_pool_size" by (rule threads_bounded [OF assms(1)])
  ultimately have "m \<le> 5 * thread_pool_size + 2" using run by linarith
  then show ?thesis using run stop_not_stuck [OF _ pool_life_reachable] by blast
qed

subsection \<open>A pool with one thread\<close>

text \<open>Every event of the atomic model can be had from a single thread.\<close>

lemma pool_moves:
  assumes "pool_reachable start handler sz p" and "pool_move start handler p q p' q'" and "pp_threads p = [q]" and "pp_main p \<noteq> Process_Gone"
  shows "pool_reachable start handler sz (p'\<lparr>pp_threads := [q']\<rparr>)"
proof -
  have "pool_step start handler sz p (p'\<lparr>pp_threads := (pp_threads p)[0 := q']\<rparr>)"
    using assms(2-4) by (intro pool_step.pool) simp_all
  then show ?thesis using assms(1,3) unfolding pool_reachable_def by (auto intro: rtranclp.rtrancl_into_rtrancl)
qed

lemma one_thread_handles:
  assumes "pool_reachable start handler sz p" and "pp_threads p = [In_Run]" and "pp_main p \<noteq> Process_Gone" and "\<not> pp_stopped p"
    and "pp_waiting p = xs @ (n, k, s) # ys" and "handler k r s = (s', as)" and "\<not> throws as"
  shows "pool_reachable start handler sz
    (p\<lparr>pp_waiting := (xs @ ys) @ map (\<lambda>k'. (n, k', s')) (conts as), pp_deleted := pp_deleted p + deletions as,
       pp_inputs := pp_inputs p @ [(n, r)], pp_log := pp_log p @ map (Pair n) as\<rparr>)"
proof -
  let ?p = "p\<lparr>pp_waiting := xs @ ys, pp_threads := [Handling n k r s]\<rparr>"
  have "pool_reachable start handler sz ?p"
    using pool_moves [OF assms(1) pool_move.takes_service [OF assms(4,5)] assms(2,3)] by simp
  from pool_moves [OF this, of "Handling n k r s", OF pool_move.handles [where handler = handler and k = k and r = r and s = s, OF assms(6,7)]]
  have "pool_reachable start handler sz (p\<lparr>pp_waiting := (xs @ ys) @ map (\<lambda>k'. (n, k', s')) (conts as), pp_deleted := pp_deleted p + deletions as,
       pp_inputs := pp_inputs p @ [(n, r)], pp_log := pp_log p @ map (Pair n) as, pp_threads := [Handler_Returns]\<rparr>)"
    using assms(3) by simp
  from pool_moves [OF this pool_move.returns] assms(2,3) show ?thesis by (cases p) simp
qed

lemma one_thread_accepts:
  assumes "pool_reachable start handler sz p" and "pp_threads p = [In_Run]" and "pp_main p \<noteq> Process_Gone" and "\<not> pp_stopped p"
    and "pp_accepting p" and "\<not> pp_flag p"
  shows "pool_reachable start handler sz
    (p\<lparr>pp_waiting := pp_waiting p @ map (\<lambda>k. (pp_created p, k, fst start)) (conts (snd start)),
       pp_log := pp_log p @ map (Pair (pp_created p)) (snd start), pp_created := Suc (pp_created p)\<rparr>)"
proof -
  let ?served = "p\<lparr>pp_accepting := False, pp_waiting := pp_waiting p @ map (\<lambda>k. (pp_created p, k, fst start)) (conts (snd start)),
       pp_log := pp_log p @ map (Pair (pp_created p)) (snd start), pp_created := Suc (pp_created p)\<rparr>"
  have ok: "\<not> is_error no_error" by simp
  have "pool_reachable start handler sz (p\<lparr>pp_accepting := False, pp_threads := [New_Connection no_error]\<rparr>)"
    using pool_moves [OF assms(1) pool_move.takes_accept [OF assms(4,5)] assms(2,3)] by simp
  from pool_moves [OF this pool_move.new_service [OF ok]] assms(3)
  have "pool_reachable start handler sz (?served\<lparr>pp_threads := [Loads_Flag no_error]\<rparr>)" by simp
  from pool_moves [OF this pool_move.flag_clear] assms(3,6)
  have "pool_reachable start handler sz (?served\<lparr>pp_threads := [Inits_Accept]\<rparr>)" by simp
  from pool_moves [OF this pool_move.init_accept] assms(3)
  have "pool_reachable start handler sz (?served\<lparr>pp_accepting := True, pp_threads := [Handler_Returns]\<rparr>)" by simp
  from pool_moves [OF this pool_move.returns] assms(2,3,5) show ?thesis by (cases p) simp
qed

text \<open>The pool with one thread, started, with no connection.\<close>

definition idle_pool :: "('k, 's, 'r, 'cb) pool_process" where
  "idle_pool = \<lparr>pp_main = Sleeps, pp_threads = [In_Run], pp_flag = False, pp_stopped = False, pp_alive = True,
     pp_accepting = True, pp_waiting = [], pp_created = 0, pp_deleted = 0, pp_inputs = [], pp_log = []\<rparr>"

lemma one_thread_started:
  fixes start :: "'s \<times> ('k, 'cb) action list" and handler :: "'k \<Rightarrow> 'r \<Rightarrow> 's \<Rightarrow> 's \<times> ('k, 'cb) action list"
  shows "pool_reachable start handler 1 idle_pool"
proof -
  let ?idle = "idle_pool :: ('k, 's, 'r, 'cb) pool_process"
  let ?begun = "?idle\<lparr>pp_main := Creates_Threads, pp_threads := []\<rparr>"
  let ?full = "?idle\<lparr>pp_main := Creates_Threads\<rparr>"
  have "pool_main_step 1 new_pool_process ?begun"
    using pool_main_step.start [of new_pool_process 1] by (simp add: new_pool_process_def idle_pool_def)
  moreover have "pool_main_step 1 ?begun ?full"
    using pool_main_step.thread [of ?begun 1] by (simp add: idle_pool_def)
  moreover have "pool_main_step 1 ?full ?idle"
    using pool_main_step.started [of ?full 1] by (simp add: idle_pool_def)
  ultimately show ?thesis
    unfolding pool_reachable_def
    by (meson pool_step.main rtranclp.rtrancl_into_rtrancl rtranclp.rtrancl_refl)
qed

text \<open>One connection whose results are \<open>rs\<close>: the thread runs its handlers one after another.\<close>

definition serving_pool ::
  "('k \<times> 's) list \<Rightarrow> 'r list \<Rightarrow> ('k, 'cb) action list \<Rightarrow> ('k, 's, 'r, 'cb) pool_process" where
  "serving_pool ws rs tr = idle_pool\<lparr>pp_waiting := map (Pair 0) ws, pp_created := 1, pp_deleted := deletions tr,
     pp_inputs := map (Pair 0) rs, pp_log := map (Pair 0) tr\<rparr>"

lemma one_connection_accepted:
  assumes "deletions (snd start) = 0"
  shows "pool_reachable start handler 1 (serving_pool (map (\<lambda>k. (k, fst start)) (conts (snd start))) [] (snd start))"
proof -
  have "pool_reachable start handler 1 (idle_pool\<lparr>pp_waiting := map (\<lambda>k. (0, k, fst start)) (conts (snd start)),
       pp_log := map (Pair 0) (snd start), pp_created := 1\<rparr>)"
    using one_thread_accepts [OF one_thread_started] by (simp add: idle_pool_def)
  with assms show ?thesis by (simp add: serving_pool_def idle_pool_def comp_def)
qed

lemma one_connection_handled:
  assumes "pool_reachable start handler 1 (serving_pool [(k, s)] rs tr)" and "handler k r s = (s', as)" and "\<not> throws as"
  shows "pool_reachable start handler 1 (serving_pool (map (\<lambda>k'. (k', s')) (conts as)) (rs @ [r]) (tr @ as))"
  using one_thread_handles [OF assms(1), of "[]" 0 k s "[]" r s' as] assms(2,3)
  by (simp add: serving_pool_def idle_pool_def deletions_def comp_def)

lemma no_end_no_throw: "end_count as = 0 \<Longrightarrow> \<not> throws as"
  by (induction as) (auto simp: throws_def end_count_def ends_chain_def split: action.splits if_splits)

lemma one_connection_runs:
  assumes chain: "async_chain handler (no_external :: unit \<Rightarrow> _)" and start: "next_or_end (snd start)" "deletions (snd start) = 0"
    and run: "chain_run handler no_external (map (Completes 0) rs) (chain_begin start) = (k # ks, s, tr)"
  shows "pool_reachable start handler 1 (serving_pool [(k, s)] rs tr) \<and> ks = []"
  using run
proof (induction rs arbitrary: k ks s tr rule: rev_induct)
  case Nil
  then have "conts (snd start) = k # ks" "s = fst start" "tr = snd start" by (auto simp: chain_begin_def split: prod.splits)
  moreover from this(1) start(1) have "ks = []" by (simp add: next_or_end_def)
  ultimately show ?case using one_connection_accepted [of start handler] start(2) by simp
next
  case (snoc r rs)
  obtain p t tr' where run: "chain_run handler no_external (map (Completes 0) rs) (chain_begin start) = (p, t, tr')"
    by (metis prod.exhaust)
  note step = snoc.prems [unfolded map_append chain_run_append run]
  from async_chain.exactly_one [OF chain start(1) snoc.prems] have count: "ks = []" "end_count tr = 0" by simp_all
  show ?case
  proof (cases p)
    case Nil
    with async_chain.exactly_one [OF chain start(1) run] step count(2) show ?thesis by (simp add: chain_step_def)
  next
    case (Cons k1 ks1)
    from snoc.IH [of k1 ks1 t tr'] run Cons have reach: "pool_reachable start handler 1 (serving_pool [(k1, t)] rs tr')" and "p = [k1]"
      by simp_all
    obtain s' as where h: "handler k1 r t = (s', as)" by fastforce
    with step \<open>p = [k1]\<close> have res: "conts as = k # ks" "s = s'" "tr = tr' @ as" by (simp_all add: chain_step_def)
    have "\<not> throws as"
      using count(2) res(3) by (intro no_end_no_throw) simp
    from one_connection_handled [where handler = handler and k = k1, OF reach h this] res count(1) show ?thesis by simp
  qed
qed

subsection \<open>Witnesses\<close>

lemma echo_start_shape:
  "next_or_end (snd (StartHandling new_echo_service))" "deletions (snd (StartHandling new_echo_service)) = 0"
  by (simp_all add: StartHandling_def next_or_end_def deletions_def)

text \<open>A client of the echo server whose line has been read.\<close>

lemma echo_pool_hello:
  "\<exists>s tr. pool_reachable (StartHandling new_echo_service) echo_step 1 (serving_pool [(On_Echo_Sent, s)] [echo_read ''hello''] tr)"
proof -
  obtain ks s tr where run: "chain_run echo_step no_external (map (Completes 0) [echo_read ''hello'']) (chain_begin (StartHandling new_echo_service))
      = (ks, s, tr)" by (metis prod.exhaust)
  then have "ks = [On_Echo_Sent]"
    by (auto simp: chain_begin_def chain_step_def StartHandling_def new_echo_service_def echo_defs ProcessRequest_def echo_read_def)
  with one_connection_runs [OF echo.async_chain_axioms echo_start_shape] run show ?thesis by blast
qed

theorem server_threads_refine_events_witness:
  "\<exists>evs p. pp_inputs p = [(0, echo_read ''hello'')] \<and> obs_matches (observe (StartHandling new_echo_service) echo_step evs) p"
proof -
  from echo_pool_hello obtain p where p: "pool_reachable (StartHandling new_echo_service) echo_step 1 p"
    and sel: "pp_main p \<noteq> Process_Gone" "pp_inputs p = [(0, echo_read ''hello'')]"
    by (force simp: serving_pool_def idle_pool_def)
  from server_threads_refine_events [OF p sel(1)] sel(2) show ?thesis by blast
qed

text \<open>The server with one idle thread is stopped and joined.\<close>

lemma idle_pool_stops:
  fixes start :: "'s \<times> ('k, 'cb) action list" and handler :: "'k \<Rightarrow> 'r \<Rightarrow> 's \<Rightarrow> 's \<times> ('k, 'cb) action list"
  shows "\<exists>p p'. pool_reachable start handler 1 p \<and> pp_stopped p \<and> (pool_step start handler 1 ^^ 3) p p' \<and>
    (\<nexists>p''. pool_step start handler 1 p' p'')"
proof -
  let ?step = "pool_step start handler 1"
  let ?idle = "idle_pool :: ('k, 's, 'r, 'cb) pool_process"
  let ?off = "?idle\<lparr>pp_main := Joins, pp_flag := True, pp_stopped := True\<rparr>"
  let ?ended = "?off\<lparr>pp_threads := [Thread_Ended]\<rparr>"
  let ?free = "?ended\<lparr>pp_main := Destroys_Server\<rparr>"
  let ?done = "?free\<lparr>pp_main := Returns_Zero, pp_alive := False\<rparr>"
  have "pool_main_step 1 ?idle (?idle\<lparr>pp_main := Stops_Acceptor\<rparr>)"
    using pool_main_step.slept [of ?idle 1] by (simp add: idle_pool_def)
  moreover have "pool_main_step 1 (?idle\<lparr>pp_main := Stops_Acceptor\<rparr>) (?idle\<lparr>pp_main := Stops_Context, pp_flag := True\<rparr>)"
    using pool_main_step.stop_acceptor [of "?idle\<lparr>pp_main := Stops_Acceptor\<rparr>" 1] by (simp add: idle_pool_def)
  moreover have "pool_main_step 1 (?idle\<lparr>pp_main := Stops_Context, pp_flag := True\<rparr>) ?off"
    using pool_main_step.stop_context [of "?idle\<lparr>pp_main := Stops_Context, pp_flag := True\<rparr>" 1] by (simp add: idle_pool_def)
  ultimately have "?step\<^sup>*\<^sup>* ?idle ?off" by (meson pool_step.main rtranclp.rtrancl_into_rtrancl rtranclp.rtrancl_refl)
  with one_thread_started [of start handler] have off: "pool_reachable start handler 1 ?off" unfolding pool_reachable_def by simp
  have "?step ?off ?ended"
    using pool_step.pool [of ?off 0 start handler ?off Thread_Ended 1] pool_move.leaves_run [of ?off start handler]
    by (simp add: idle_pool_def)
  moreover have "?step ?ended ?free"
    using pool_main_step.joined [of ?ended 1] by (intro pool_step.main) (simp add: idle_pool_def)
  moreover have "?step ?free ?done"
    using pool_main_step.destroys [of ?free 1] by (intro pool_step.main) (simp add: idle_pool_def)
  ultimately have "(?step ^^ 3) ?off ?done" by (auto simp: numeral_3_eq_3)
  moreover have "\<not> ?step ?done p" for p
    by (auto simp: idle_pool_def elim!: pool_step.cases pool_main_step.cases pool_move.cases)
  moreover have "pp_stopped ?off" by simp
  ultimately show ?thesis using off by blast
qed

theorem server_stop_returns_witness:
  "\<exists>p p'. pp_stopped p \<and> (pool_step (StartHandling new_echo_service) echo_step 1 ^^ 3) p p' \<and> (3 :: nat) \<le> 5 * 1 + 2 \<and>
     pp_main p' \<in> {Returns_Zero, Process_Gone}"
proof -
  from idle_pool_stops obtain p p' where p: "pool_reachable (StartHandling new_echo_service) echo_step 1 p" "pp_stopped p"
      "(pool_step (StartHandling new_echo_service) echo_step 1 ^^ 3) p p'"
    and stuck: "\<nexists>p''. pool_step (StartHandling new_echo_service) echo_step 1 p' p''" by blast
  from server_stop_returns [OF p] stuck p(2,3) show ?thesis by blast
qed

end
