(* ===== verification/Async_Server_Pools.thy ===== *)
theory Async_Server_Pools
  imports Async_Server_Threads
begin

section \<open>The two asynchronous servers with their threads\<close>

text \<open>
  \<open>Async_Server_Threads\<close> with the service classes of \<^verbatim>\<open>chapter5/HTTPServer\<close> and \<^verbatim>\<open>chapter4/asyncParallel\<close>. What
  \<open>Server_Connections\<close> proves of every list of completions holds of every schedule of the pool.
\<close>

definition http_pool ::
  "nat \<Rightarrow> (service_handler, service, service_result, unit) pool_process \<Rightarrow> bool" where
  "http_pool = pool_reachable (start_handling new_service) service_step"

definition echo_pool ::
  "nat \<Rightarrow> (echo_handler, echo_service, echo_result, unit) pool_process \<Rightarrow> bool" where
  "echo_pool = pool_reachable (StartHandling new_echo_service) echo_step"

lemma pool_observed:
  assumes "pool_reachable start handler thread_pool_size p" and "pp_main p \<noteq> Process_Gone"
  obtains evs where "srv_created (server_run start handler evs new_server) = pp_created p"
    and "srv_deleted (server_run start handler evs new_server) = pp_deleted p"
    and "\<not> srv_crashed (server_run start handler evs new_server)"
    and "length (srv_serving (server_run start handler evs new_server)) = length (connections p)"
    and "obs_inputs (observe start handler evs) = pp_inputs p" and "obs_log (observe start handler evs) = pp_log p"
proof -
  from pool_simulation [OF assms] obtain evs where match: "obs_matches (observe start handler evs) p"
    by (auto simp: pool_simulated_def)
  have "length (zip (obs_names (observe start handler evs)) (srv_serving (obs_server (observe start handler evs))))
      = length (connections p)"
    using match by (intro mset_eq_length) (simp add: obs_matches_def)
  then have "length (srv_serving (server_run start handler evs new_server)) = length (connections p)"
    using match by (simp add: obs_matches_def observe_server)
  with match that [of evs] show thesis by (simp add: obs_matches_def observe_server)
qed

subsection \<open>Answers\<close>

lemma http_pool_replies:
  assumes "http_pool thread_pool_size p" and "pp_main p \<noteq> Process_Gone" and "n < pp_created p"
  shows "\<exists>ks s. service_run (map (Completes 0) (on_conn n (pp_inputs p))) = (ks, s, on_conn n (pp_log p))"
proof -
  from assms(1) have "pool_reachable (start_handling new_service) service_step thread_pool_size p" by (simp add: http_pool_def)
  from pool_observed [OF this assms(2)] obtain evs where
    "srv_created (http_server_run evs) = pp_created p" "obs_inputs (http_observe evs) = pp_inputs p" "obs_log (http_observe evs) = pp_log p"
    unfolding http_server_run_def http_observe_def by blast
  with http_connection_run [of n evs] assms(3) show ?thesis by auto
qed

lemma echo_pool_replies:
  assumes "echo_pool thread_pool_size p" and "pp_main p \<noteq> Process_Gone" and "n < pp_created p"
  shows "\<exists>ks s. echo_run (map (Completes 0) (on_conn n (pp_inputs p))) = (ks, s, on_conn n (pp_log p))"
proof -
  from assms(1) have "pool_reachable (StartHandling new_echo_service) echo_step thread_pool_size p" by (simp add: echo_pool_def)
  from pool_observed [OF this assms(2)] obtain evs where
    "srv_created (echo_server_run evs) = pp_created p" "obs_inputs (echo_observe evs) = pp_inputs p" "obs_log (echo_observe evs) = pp_log p"
    unfolding echo_server_run_def echo_observe_def by blast
  with echo_connection_run [of n evs] assms(3) show ?thesis by auto
qed

text \<open>C10: Every connection of the HTTP server is answered as the contract says, in every schedule of its threads: however many
  threads run handlers of other connections and of the acceptor at the same time, and whenever the server is stopped,
  once a connection's two reads have brought a well-formed request, cut anywhere, and their handlers have run,
  the bytes written on it are exactly those of the contract's reply to that request.\<close>

theorem pool_answers_every_connection:
  assumes "http_pool thread_pool_size p" and "pp_main p \<noteq> Process_Gone" and "n < pp_created p"
    and "on_conn n (pp_inputs p) = r1 # r2 # rs"
    and "\<not> is_error (res_ec r1)" and "\<not> is_error (res_ec r2)"
    and "is_word method" and "is_word uri" and "is_word version" and "\<forall>nv \<in> set hs. clean_request_header nv"
    and "res_data r1 = request_line method uri version @ CRLF @ a" and "a @ res_data r2 = header_block hs @ CRLF"
    and "sane_env (res_env r1)" and "sane_env (res_env r2)"
  shows "written (on_conn n (pp_log p)) = reply_bytes (http_reply (env_fs (res_env r2)) method uri version)"
  using http_pool_replies [OF assms(1-3)] service_replies [OF assms(5-14), of rs] assms(4) by auto

text \<open>C16: No service is lost: in every schedule of the threads of either server each service that was created has been deleted, or waits for
  its operation, or is in a handler that is running.\<close>

theorem pool_accounts_for_services:
  "(\<forall>p. http_pool thread_pool_size p \<and> pp_main p \<noteq> Process_Gone \<longrightarrow> pp_created p = pp_deleted p + length (connections p)) \<and>
   (\<forall>p. echo_pool thread_pool_size p \<and> pp_main p \<noteq> Process_Gone \<longrightarrow> pp_created p = pp_deleted p + length (connections p))"
proof (intro conjI allI impI; elim conjE)
  fix p assume "http_pool thread_pool_size p" and gone: "pp_main p \<noteq> Process_Gone"
  then have "pool_reachable (start_handling new_service) service_step thread_pool_size p" by (simp add: http_pool_def)
  from pool_observed [OF this gone] show "pp_created p = pp_deleted p + length (connections p)"
    using http_conn.every_service_accounted unfolding http_conn.balanced_def by metis
next
  fix p assume "echo_pool thread_pool_size p" and gone: "pp_main p \<noteq> Process_Gone"
  then have "pool_reachable (StartHandling new_echo_service) echo_step thread_pool_size p" by (simp add: echo_pool_def)
  from pool_observed [OF this gone] show "pp_created p = pp_deleted p + length (connections p)"
    using echo_conn.every_service_accounted unfolding echo_conn.balanced_def by metis
qed

text \<open>C17: The \<^verbatim>\<open>io_context\<close> outlives its users: in every schedule, as long as a thread of the pool has not ended, be it in \<^verbatim>\<open>run\<close> or
  in a handler, the server object with its \<^verbatim>\<open>io_context\<close> is there; there are never more threads than were asked for,
  and at most one of them is accepting a connection, and none while an accept waits.\<close>

theorem pool_threads_use_live_context:
  assumes "pool_reachable start handler thread_pool_size p" and "pp_main p \<noteq> Process_Gone"
    and "q \<in> set (pp_threads p)" and "q \<noteq> Thread_Ended"
  shows "pp_alive p \<and> length (pp_threads p) \<le> thread_pool_size \<and>
    length (filter in_accept (pp_threads p)) + (if pp_accepting p then 1 else 0) \<le> 1"
  using thread_is_alive(1) [OF pool_life_reachable [OF assms(1)] assms(2-4)] threads_bounded [OF assms(1)]
    pool_life_reachable [OF assms(1)]
  by (simp add: pool_life_def accepts_def)

subsection \<open>Witnesses\<close>

lemma serving_pool_sel:
  "pp_main (serving_pool ws rs tr) = Sleeps" "pp_threads (serving_pool ws rs tr) = [In_Run]" "pp_created (serving_pool ws rs tr) = 1"
  "on_conn 0 (pp_inputs (serving_pool ws rs tr)) = rs" "on_conn 0 (pp_log (serving_pool ws rs tr)) = tr"
  by (simp_all add: serving_pool_def idle_pool_def)

lemma http_pool_one_connection:
  assumes "service_run (map (Completes 0) rs) = (k # ks, s, tr)"
  shows "http_pool 1 (serving_pool [(k, s)] rs tr)"
  using one_connection_runs [OF svc.async_chain_axioms, of "start_handling new_service" rs k ks s tr] assms
  by (simp add: http_pool_def service_run_def start_handling_def next_or_end_def deletions_def)

lemma echo_pool_one_connection:
  assumes "echo_run (map (Completes 0) rs) = (k # ks, s, tr)"
  shows "echo_pool 1 (serving_pool [(k, s)] rs tr)"
  using one_connection_runs [OF echo.async_chain_axioms echo_start_shape, of rs k ks s tr] assms
  by (simp add: echo_pool_def echo_run_def)

lemma http_pool_get:
  "\<exists>p. http_pool 1 p \<and> pp_main p \<noteq> Process_Gone \<and> pp_created p = 1 \<and> In_Run \<in> set (pp_threads p) \<and>
     on_conn 0 (pp_inputs p) = [sane_result (''GET /a HTTP/1.1'' @ CRLF), sane_result (''Host: h'' @ CRLF @ CRLF)]"
proof -
  let ?r1 = "sane_result (''GET /a HTTP/1.1'' @ CRLF)" and ?r2 = "sane_result (''Host: h'' @ CRLF @ CRLF)"
  obtain s tr where "service_run (map (Completes 0) [?r1, ?r2]) = ([On_Response_Sent], s, tr)"
    using accepted_run [of ?r1 ?r2 "''/a''" "[(''Host'', '' h'')]" "[]"] one_file_env_sane
    by (auto simp: is_word_def is_space_def clean_request_header_def request_line_def header_line_def)
  from http_pool_one_connection [OF this] show ?thesis
    by (intro exI [of _ "serving_pool [(On_Response_Sent, s)] [?r1, ?r2] tr"]) (simp add: serving_pool_sel)
qed

theorem pool_answers_every_connection_witness:
  "\<exists>p. http_pool 1 p \<and> written (on_conn 0 (pp_log p)) = reply_bytes (File_Reply ''hi'')"
proof -
  let ?r1 = "sane_result (''GET /a HTTP/1.1'' @ CRLF)" and ?r2 = "sane_result (''Host: h'' @ CRLF @ CRLF)"
  from http_pool_get obtain p where p: "http_pool 1 p" "pp_main p \<noteq> Process_Gone" and "pp_created p = 1"
    and inputs: "on_conn 0 (pp_inputs p) = ?r1 # ?r2 # []" by blast
  then have n: "0 < pp_created p" by simp
  have "is_word ''GET''" "is_word ''/a''" "is_word ''HTTP/1.1''" by (simp_all add: is_word_def is_space_def)
  moreover have "res_data ?r1 = request_line ''GET'' ''/a'' ''HTTP/1.1'' @ CRLF @ []"
    "[] @ res_data ?r2 = header_block [(''Host'', '' h'')] @ CRLF" "\<forall>nv \<in> set [(''Host'', '' h'')]. clean_request_header nv"
    by (simp_all add: request_line_def header_line_def clean_request_header_def)
  ultimately have "written (on_conn 0 (pp_log p)) = reply_bytes (http_reply (env_fs (res_env ?r2)) ''GET'' ''/a'' ''HTTP/1.1'')"
    using pool_answers_every_connection [OF p n inputs, of "''GET''" "''/a''" "''HTTP/1.1''" "[(''Host'', '' h'')]" "[]"]
      one_file_env_sane by simp
  with p(1) show ?thesis by (auto simp: http_reply_def one_file_env_def)
qed

theorem pool_accounts_for_services_witness:
  "\<exists>p. http_pool 1 p \<and> pp_created p = 1 \<and> pp_created p = pp_deleted p + length (connections p)"
proof -
  from http_pool_get obtain p where p: "http_pool 1 p" "pp_main p \<noteq> Process_Gone" "pp_created p = 1" by blast
  with pool_accounts_for_services [of 1] have "pp_created p = pp_deleted p + length (connections p)" by blast
  with p show ?thesis by blast
qed

theorem pool_threads_use_live_context_witness:
  "\<exists>p. http_pool 1 p \<and> pp_created p = 1 \<and> pp_alive p \<and> length (pp_threads p) \<le> 1"
proof -
  from http_pool_get obtain p where p: "http_pool 1 p" "pp_main p \<noteq> Process_Gone" "pp_created p = 1" "In_Run \<in> set (pp_threads p)"
    by blast
  from pool_threads_use_live_context [OF p(1) [unfolded http_pool_def] p(2,4)] p(1,3) show ?thesis by auto
qed

end
