(* ===== verification/Server_Exchanges.thy ===== *)
theory Server_Exchanges
  imports Async_Server_Pools Http_Exchange Calculation_Exchanges
begin

section \<open>Clients against the running servers\<close>

text \<open>
  A client and one connection of a server with its threads: the bytes that the client writes are what the two reads of that
  connection bring, and the bytes that the server's pool writes on the connection are what the client's reads bring. The
  other connections, the acceptor, the other threads and \<^verbatim>\<open>Stop\<close> go on beside them in every schedule.
\<close>

lemma pool_sends_file:
  assumes "http_pool thread_pool_size p" and "pp_main p \<noteq> Process_Gone" and "n < pp_created p"
    and inputs: "on_conn n (pp_inputs p) = q1 # q2 # qs"
    and "\<not> is_error (res_ec q1)" and "\<not> is_error (res_ec q2)" and "is_word uri" and "\<forall>nv \<in> set hs. clean_request_header nv"
    and "res_data q1 = request_line ''GET'' uri ''HTTP/1.1'' @ CRLF @ a" and "a @ res_data q2 = header_block hs @ CRLF"
    and "\<not> is_error (env_shutdown (res_env q2))"
    and "env_fs (res_env q2) (''http_root'' @ uri) = Fs_Opened (int (length body)) body"
    and "length body < 2 ^ 64" and "env_alloc (res_env q2) (word_of_nat (length body))"
  shows "written (on_conn n (pp_log p)) = file_response body"
proof -
  from file_response_run [OF assms(5-14)] obtain s tr where sent: "service_run [Completes 0 q1, Completes 0 q2] = ([On_Response_Sent], s, tr)"
    and tr: "written tr = file_response body" by (auto simp: file_response_def)
  from nothing_after_response [of qs s tr] obtain p' s' fin where
    "chain_run service_step no_external (map (Completes 0) qs) ([On_Response_Sent], s, tr) = (p', s', tr @ fin)" and "written fin = []"
    by blast
  moreover obtain ks t where "service_run (map (Completes 0) (q1 # q2 # qs)) = (ks, t, on_conn n (pp_log p))"
    using http_pool_replies [OF assms(1-3)] inputs by metis
  ultimately have log: "on_conn n (pp_log p) = tr @ fin" using sent by (simp add: service_run_def)
  show ?thesis unfolding log using tr \<open>written fin = []\<close> by simp
qed

text \<open>C2: A GET from \<^verbatim>\<open>execute\<close> to the callback against the running server: if the library carries the client's bytes to the two
  reads of a connection of the server, whatever else its threads do, and what the server has written on
  that connection to the client's three reads, cut anywhere that the delimiters allow, and then ends the connection, the
  client's run ends with exactly one call of the callback, without an error, with status code 200 and with the contents
  of the file that the server has under the client's URI.\<close>

theorem http_get_through_pool:
  assumes rq: "m_port rq > 0" "is_word (m_uri rq)" "m_host rq \<noteq> []" "CR \<notin> set (m_host rq)" "m_callback rq = Some cb"
      "\<not> m_was_cancelled rq" "m_request_buf rq = []" "m_response rq = new_response"
    and sent: "\<not> is_error (rr_ec c1)" "\<not> is_error (rr_ec c2)" "\<not> is_error (rr_ec c3)" "\<not> is_error (rr_shutdown c3)"
      "rr_data c1 = []" "rr_data c2 = []" "rr_data c3 = []"
    and run: "request_run [Completes 0 c1, Completes 0 c2, Completes 0 c3] rq = (p1, rq1, log1)"
    and pool: "http_pool thread_pool_size p" "pp_main p \<noteq> Process_Gone" "n < pp_created p" "on_conn n (pp_inputs p) = q1 # q2 # qs"
    and received: "\<not> is_error (res_ec q1)" "\<not> is_error (res_ec q2)" "res_data q1 @ res_data q2 = written log1"
      "res_data q1 = request_line ''GET'' (m_uri rq) ''HTTP/1.1'' @ CRLF @ a"
    and served: "\<not> is_error (env_shutdown (res_env q2))" "length body < 2 ^ 64"
      "env_fs (res_env q2) (''http_root'' @ m_uri rq) = Fs_Opened (int (length body)) body"
      "env_alloc (res_env q2) (word_of_nat (length body))"
    and answered: "\<not> is_error (rr_ec r1)" "\<not> is_error (rr_ec r2)" "rr_ec r3 = asio_eof"
      "rr_data r1 @ rr_data r2 @ rr_data r3 = written (on_conn n (pp_log p))" "rr_data r1 = ''HTTP/1.1 200 OK'' @ CRLF @ x"
      "x @ rr_data r2 = ''content-length: '' @ to_dec (length body) @ CRLF @ CRLF @ y"
  shows "\<exists>rq' log. request_run (map (Completes 0) [c1, c2, c3, r1, r2, r3]) rq = ([], rq', log) \<and>
    callback_count log = 1 \<and> last log = Callback (cb, rq', no_error) \<and>
    m_status_code (m_response rq') = Some 200 \<and> m_response_buf (m_response rq') = body"
proof -
  note request = client_request_received [OF rq(1-7) sent run received(3,4)]
  from pool_sends_file [OF pool received(1,2) rq(2) request(2) received(4) request(1) served(1,3,2,4)] answered(4)
  have "rr_data r1 @ rr_data r2 @ rr_data r3 = file_response body" by simp
  from client_gets_file [OF rq(1-3,5-8) sent answered(1-3) this answered(5,6)] show ?thesis .
qed

text \<open>C32: A client session against the running echo server: whatever the server's other connections and threads do, once a
  connection has read the client's line and the session reads what the server has written on that connection, the server has got
  exactly the client's request, and the session's callback gets no error and the response line.\<close>

theorem pool_client_gets_response:
  assumes client: "s = new_session ip port (calc_request d) i (Some cb)"
      "session_run [Completes 0 (session_answer no_error []), Completes 0 (session_answer no_error [])] (s, t) = (p1, st1, log1)"
    and pool: "echo_pool thread_pool_size p" "pp_main p \<noteq> Process_Gone" "n < pp_created p" "on_conn n (pp_inputs p) = e # es"
    and received: "\<not> is_error (er_ec e)" "er_data e = written log1"
    and answered: "session_run [Completes 0 (session_answer no_error []), Completes 0 (session_answer no_error []),
       Completes 0 (session_answer no_error (written (on_conn n (pp_log p))))] (s, t) = (p2, st, log)"
  shows "p2 = [] \<and> er_data e = calc_request d \<and> last log = Callback (cb, i, ''Response'', no_error)"
proof -
  have "written log1 = calc_request d"
    using client by (auto simp: session_run_def chain_begin_def chain_step_def session_step_def on_connected_def on_written_def
        new_session_def)
  moreover have reply: "written (on_conn n (pp_log p)) = ''Response'' @ LF # []"
    using echo_pool_replies [OF pool(1-3)] echo_completes [of e es] pool(4) received(1) by fastforce
  moreover obtain s' t' where st: "st = (s', t')" by (cases st)
  ultimately show ?thesis
    using session_reports_first_line [of "''Response''" s cb "[]" t p2 s' t' log] answered client(1) received(2)
    by (simp add: new_session_def)
qed

subsection \<open>Witnesses\<close>

theorem http_get_through_pool_witness:
  "\<exists>p rq' log. http_pool 1 p \<and>
     request_run (map (Completes 0) [ok_result [], ok_result [], ok_result [], ok_result (''HTTP/1.1 200 OK'' @ CRLF),
       ok_result (''content-length: 2'' @ CRLF @ CRLF), \<lparr>rr_ec = asio_eof, rr_data = ''hi'', rr_shutdown = no_error\<rparr>]) demo_request
      = ([], rq', log) \<and>
     callback_count log = 1 \<and> last log = Callback (7, rq', no_error) \<and>
     m_status_code (m_response rq') = Some 200 \<and> m_response_buf (m_response rq') = ''hi''"
proof -
  let ?q1 = "sane_result (''GET /a HTTP/1.1'' @ CRLF)" and ?q2 = "sane_result (''Host: h'' @ CRLF @ CRLF)"
  have rq: "m_port demo_request > 0" "is_word (m_uri demo_request)" "m_host demo_request \<noteq> []" "CR \<notin> set (m_host demo_request)"
    "m_callback demo_request = Some 7" "\<not> m_was_cancelled demo_request" "m_request_buf demo_request = []"
    "m_response demo_request = new_response" "m_uri demo_request = ''/a''" "m_host demo_request = ''h''"
    by (simp_all add: demo_request_def create_request_def set_callback_def set_uri_def set_host_def DEFAULT_PORT_def
        is_word_def is_space_def)
  obtain p1 rq1 log1 where sent: "request_run [Completes 0 (ok_result []), Completes 0 (ok_result []), Completes 0 (ok_result [])]
      demo_request = (p1, rq1, log1)" by (metis prod.exhaust)
  then have log1: "written log1 = request_bytes ''/a'' ''h''"
    using client_sends_request [of demo_request 7 "ok_result []" "ok_result []" "ok_result []" "[]"] rq by auto
  have received: "res_data ?q1 @ res_data ?q2 = written log1"
    "res_data ?q1 = request_line ''GET'' (m_uri demo_request) ''HTTP/1.1'' @ CRLF @ []"
    unfolding log1 by (simp_all add: request_bytes_def request_line_def header_line_def rq)
  have served: "env_fs (res_env ?q2) (''http_root'' @ m_uri demo_request) = Fs_Opened (int (length ''hi'')) ''hi''"
    "env_alloc (res_env ?q2) (word_of_nat (length ''hi''))" "\<not> is_error (env_shutdown (res_env ?q2))"
    by (simp_all add: one_file_env_def rq)
  from http_pool_get obtain p where p: "http_pool 1 p" "pp_main p \<noteq> Process_Gone" and "pp_created p = 1"
    and inputs: "on_conn 0 (pp_inputs p) = ?q1 # ?q2 # []" by blast
  then have n: "0 < pp_created p" by simp
  have tr: "written (on_conn 0 (pp_log p)) = file_response ''hi''"
    using pool_sends_file [OF p n inputs _ _ rq(2) _ received(2) _ served(3,1) _ served(2), of "[(''Host'', '' h'')]"]
    by (simp add: clean_request_header_def header_line_def)
  have d2: "to_dec (Suc (Suc 0)) = ''2''" using to_dec_demo by (simp add: numeral_2_eq_2 [symmetric])
  have "\<exists>rq' log. request_run (map (Completes 0) [ok_result [], ok_result [], ok_result [], ok_result (''HTTP/1.1 200 OK'' @ CRLF),
       ok_result (''content-length: 2'' @ CRLF @ CRLF), \<lparr>rr_ec = asio_eof, rr_data = ''hi'', rr_shutdown = no_error\<rparr>]) demo_request
      = ([], rq', log) \<and>
     callback_count log = 1 \<and> last log = Callback (7, rq', no_error) \<and>
     m_status_code (m_response rq') = Some 200 \<and> m_response_buf (m_response rq') = ''hi''"
    by (rule http_get_through_pool [OF rq(1-8) _ _ _ _ _ _ _ sent p n inputs _ _ received served(3) _ served(1,2), where x = "[]" and y = "[]"])
       (simp_all add: tr d2 file_response_def)
  with p(1) show ?thesis by blast
qed

theorem pool_client_gets_response_witness:
  "\<exists>p st log. echo_pool 1 p \<and>
     session_run [Completes 0 (session_answer no_error []), Completes 0 (session_answer no_error []),
       Completes 0 (session_answer no_error (written (on_conn 0 (pp_log p))))] (demo_session, Map.empty) = ([], st, log) \<and>
     last log = Callback (7, 1, ''Response'', no_error)"
proof -
  let ?ok = "Completes 0 (session_answer no_error []) :: (session_result, session_call) event"
  let ?e = "echo_read (calc_request 10)"
  obtain p1 st1 log1 where client: "session_run [?ok, ?ok] (demo_session, Map.empty) = (p1, st1, log1)" by (metis prod.exhaust)
  then have log1: "er_data ?e = written log1"
    by (auto simp: session_run_def chain_begin_def chain_step_def session_step_def on_connected_def on_written_def
        demo_session_def new_session_def echo_read_def)
  obtain ks s tr where run: "echo_run (map (Completes 0) [?e]) = (ks, s, tr)" by (metis prod.exhaust)
  then have "ks \<noteq> []" using echo_completes [of ?e "[]"] by (auto simp: echo_read_def)
  then obtain k ks' where "ks = k # ks'" by (cases ks) auto
  with run echo_pool_one_connection [of "[?e]" k ks' s tr] have reach: "echo_pool 1 (serving_pool [(k, s)] [?e] tr)" by simp
  define p where "p = (serving_pool [(k, s)] [?e] tr :: (echo_handler, echo_service, echo_result, unit) pool_process)"
  have p: "echo_pool 1 p" "pp_main p \<noteq> Process_Gone" and "pp_created p = 1" and inputs: "on_conn 0 (pp_inputs p) = ?e # []"
    using reach by (simp_all add: p_def serving_pool_sel)
  then have n: "0 < pp_created p" by simp
  have ok: "\<not> is_error (er_ec ?e)" by (simp add: echo_read_def)
  obtain p2 st log where ended: "session_run [?ok, ?ok, Completes 0 (session_answer no_error (written (on_conn 0 (pp_log p))))]
      (demo_session, Map.empty) = (p2, st, log)" by (metis prod.exhaust)
  from pool_client_gets_response [OF demo_session_def [unfolded] client p n inputs ok log1 ended] ended p(1) show ?thesis by auto
qed

end
