(* ===== verification/Spec2Isabelle.thy ===== *)
theory Spec2Isabelle
  imports Http_Spec Http_Exchange Async_Tcp_Properties Async_Tcp_Lock_Properties
    Async_Server_Properties Console_Handlers Http_Client_Object Async_Tcp_Mains Sync_Clients Sync_Servers Socket_Async Socket_Examples
    Http_Client_Lock_Properties Http_Header_Parsers Http_State_Types Async_Tcp_Accounting Calculation_Exchanges Async_Server_Mains
    Server_Connections Async_Tcp_Mt_Refinement Sync_Server_Threads Http_Client_Getters Server_Exchanges
begin

text \<open>
  This library models the programs that accompany a book on Boost.Asio: an HTTP client and an HTTP server
  (\<^verbatim>\<open>chapter5\<close>), a TCP client with cancellation in a single- and a multi-threaded version
  (\<^verbatim>\<open>chapter3\<close>), three echo servers (\<^verbatim>\<open>chapter4\<close>), the synchronous clients and the TLS pair
  (\<^verbatim>\<open>chapter3\<close>, \<^verbatim>\<open>chapter5\<close>), and the small examples of \<^verbatim>\<open>chapter1\<close> and \<^verbatim>\<open>chapter2\<close>. They are separate
  programs. Their cores are state machines made of completion handlers, which is where the errors are.

  \<^bold>\<open>How the code is represented.\<close> Boost.Asio is not part of the repository and nothing here says what it does.
  In the asynchronous programs a handler is a function from the error code, the received bytes and the other
  answers of the library to the new state of its object and the list of calls it makes (\<open>Asio.action\<close>); a run
  is a list of events, each the completion of any waiting operation with any result, or a call from
  another thread (\<open>Async_Chain\<close>). In the synchronous programs a program is a function of an environment that
  answers each call, given all calls made before it (\<open>Sync_Io\<close>). So every theorem holds for every behaviour of
  the network, of the file system and of the scheduler, except where a hypothesis names what the library
  documents. Classes are records, member functions are definitions of the same name, an exception to the
  caller is \<open>Raise\<close>, an exception that leaves a handler (and terminates the program) is \<open>Throw\<close>, undefined
  behaviour is \<open>Undefined\<close>. Integers have the width of the Linux x86-64 build: \<^verbatim>\<open>unsigned int\<close> is 32 bits wide,
  \<^verbatim>\<open>size_t\<close> 64, \<^verbatim>\<open>unsigned char\<close> 8. A loop that may not end is a partial function whose value \<open>None\<close> is not
  returning; no fuel is used anywhere.

  \<^bold>\<open>The theories.\<close>
  \<open>Prelude\<close>: types, control characters, decimal numbers, list lemmas. \<open>Cpp_Stream\<close>: \<^verbatim>\<open>std::istream\<close> over a
  \<^verbatim>\<open>streambuf\<close>: \<^verbatim>\<open>getline\<close>, \<^verbatim>\<open>get\<close>, \<^verbatim>\<open>>>\<close>, \<^verbatim>\<open>stoul\<close>, with the state bits; locale \<open>delimited_reader\<close>.
  \<open>Asio\<close>: error codes, operations, actions, faults.
  \<open>Async_Chain\<close>: locales \<open>async_chain\<close> (exactly one waiting operation or one end, invariants of runs) and
  \<open>ranked_chain\<close> (bounded length, operations started in order), interpreted by every class with handlers.
  \<open>Mutexes\<close>: locale \<open>mutex_discipline\<close> (mutual exclusion), interpreted by the three models at the level of the mutexes.

  \<open>Http_Message\<close>: well-formed request lines and header fields. \<open>Http_Service\<close>: \<^verbatim>\<open>chapter5/HTTPServer/service.cpp\<close>, all
  member functions. \<open>Http_Service_Properties\<close>: life cycle, error responses, path handling. \<open>Http_Spec\<close>: the
  contract of the server as a function from request line and file system to a reply, and the proof that
  the service refines it. \<open>Http_Errors\<close>, \<open>Http_Client\<close>: \<^verbatim>\<open>chapter5/HTTPClient\<close>, with \<^verbatim>\<open>cancel\<close> as an external
  call. \<open>Http_Client_Properties\<close>: the callback protocol, cancellation, parsing of status line and header
  fields, and exactly when the header loop stops. \<open>Http_Client_Getters\<close>: the getters, and that in a callback
  they return what the setters were given. \<open>Http_Client_Object\<close>: the client object with its requests, \<^verbatim>\<open>close\<close> and the script of
  \<^verbatim>\<open>main\<close>. \<open>Http_Exchange\<close>: client and server against each other, up to a whole GET. \<open>Http_Header_Parsers\<close>: the two
  loops over header fields, where they agree and where not. \<open>Http_State_Types\<close>: what the members of a waiting
  service and of a waiting request hold, as typings that the handlers preserve. \<open>Http_Client_Locks\<close>: the members of
  \<^verbatim>\<open>HTTPRequest\<close> as moves between the operations on \<^verbatim>\<open>m_cancel_mux\<close>, interleaved with any number of calls of
  \<^verbatim>\<open>cancel\<close>; \<open>Http_Client_Lock_Properties\<close>: these schedules refine the model of \<open>Http_Client\<close>, no operation
  is started after the flag has been set, and the one use of the socket that the mutex does not cover.

  \<open>Async_Tcp_Client\<close>: \<^verbatim>\<open>chapter3/asyncTCPClient\<close>: sessions, the table of active sessions (locale \<open>session_registry\<close>),
  submission, completion, \<^verbatim>\<open>cancelRequest\<close>. \<open>Async_Tcp_Properties\<close>: callback, cancellation, exactness of the
  table, reuse of ids. \<open>Async_Tcp_Spec\<close>: the contract of the client, a registry of requests, and the proof that every step
  refines it; \<open>Async_Tcp_Accounting\<close>: over whole runs every accepted request is reported once. \<open>Async_Tcp_Mains\<close>: the scripts of both \<^verbatim>\<open>main\<close> functions. \<open>Async_Tcp_Locks\<close>: the same code, and that of \<^verbatim>\<open>chapter3/asyncTCPClientMT\<close>, at the level of its
  mutexes, as an inductive step relation over the places in the code; \<open>Async_Tcp_Lock_Properties\<close>: mutual
  exclusion, freedom from races on the cancellation flag, the deadlock of two cancellations and its
  absence with one, finiteness of all schedules. \<open>Async_Tcp_Mt\<close>: \<^verbatim>\<open>chapter3/asyncTCPClientMT\<close> with mutexes and data,
  any number of user threads and handlers inside the client at once (so the size of the pool does not matter), and the parts of
  the composed operations in the library;
  \<open>Async_Tcp_Mt_Properties\<close>: its invariant, in which each session is driven by at most one thread or operation;
  \<open>Async_Tcp_Mt_Refinement\<close>: each move of each thread is a step of the registry of \<open>Async_Tcp_Spec\<close> or none, every request
  is reported once, and which uses of a socket can meet.

  \<open>Thread_Pools\<close>: the loops that start threads. \<open>Async_Server\<close>: acceptor, \<^verbatim>\<open>Server\<close> and a running server of
  \<^verbatim>\<open>chapter5/HTTPServer\<close> and \<^verbatim>\<open>chapter4/asyncParallel\<close>, for any service class; locale \<open>connection_service\<close>. \<open>Echo_Service\<close>:
  the service of \<^verbatim>\<open>chapter4/asyncParallel\<close>. \<open>Async_Server_Properties\<close>: both servers with their real service
  classes. \<open>Server_Connections\<close>: a running server taken apart into its connections, each of which is a run of its
  service alone, so that the contract of the service holds of every connection of the server. \<open>Async_Server_Threads\<close>: \<^verbatim>\<open>main\<close>, the
  acceptor and any number of threads of the pool side by side, statement by statement; every schedule is a list of completions of the
  model with atomic handlers, and \<^verbatim>\<open>Stop\<close> returns. \<open>Async_Server_Pools\<close>: the two servers with their threads: every connection
  answered, every service accounted for, the \<^verbatim>\<open>io_context\<close> alive while it is used. \<open>Async_Server_Mains\<close>: their \<^verbatim>\<open>main\<close>. \<open>Console_Handlers\<close>: the three functions \<^verbatim>\<open>handler\<close> that print results, with the failure state of
  \<^verbatim>\<open>std::cout\<close>.

  \<open>Sync_Io\<close>: calls, exceptions and their order; locales \<open>exception_monad\<close> and \<open>sequential_program\<close>. \<open>Sync_Clients\<close>:
  \<^verbatim>\<open>chapter3/syncTCPClient\<close>, \<^verbatim>\<open>chapter3/syncUDPClient\<close>, \<^verbatim>\<open>chapter5/syncSSLClient\<close> with their \<^verbatim>\<open>main\<close>. \<open>Sync_Servers\<close>:
  \<^verbatim>\<open>chapter4/syncIterative\<close>, \<^verbatim>\<open>chapter4/syncParallel\<close>, \<^verbatim>\<open>chapter5/syncSSLServer\<close>. \<open>Sync_Server_Threads\<close>: all threads of these servers side by side, with the life of the
  \<^verbatim>\<open>Server\<close> object and its \<^verbatim>\<open>io_context\<close>. \<open>Socket_Loops\<close>: the blocking reading
  and writing examples of \<^verbatim>\<open>chapter2\<close> and the shutdown pair. \<open>Socket_Async\<close>: the asynchronous ones with their
  \<^verbatim>\<open>main\<close>, the equivalence of the two readers, and the cancellation example. \<open>Socket_Examples\<close>: the programs of
  \<^verbatim>\<open>chapter1\<close> and the buffer examples of \<^verbatim>\<open>chapter2\<close>. \<open>Calculation_Exchanges\<close>: the clients of \<^verbatim>\<open>chapter3\<close> and
  \<^verbatim>\<open>chapter5\<close> against the servers of \<^verbatim>\<open>chapter4\<close> and \<^verbatim>\<open>chapter5\<close>. \<open>Server_Exchanges\<close>: the asynchronous clients against
  one connection of a running server with all its threads.

  \<^bold>\<open>What is atomic.\<close> A handler, a call of \<^verbatim>\<open>cancel\<close> or \<^verbatim>\<open>cancelRequest\<close> and a submission are single steps, except in
  \<open>Async_Tcp_Locks\<close>, \<open>Async_Tcp_Mt\<close> and \<open>Http_Client_Locks\<close>, where each acquisition of a mutex and each access to the shared data under
  it is a step. For the HTTP client the two levels are related by a simulation in
  \<open>Http_Client_Lock_Properties\<close> that compares everything but the order of the calls \<^verbatim>\<open>shutdown\<close> and \<^verbatim>\<open>cancel\<close>; the multi-threaded TCP
  client refines the registry directly. For the two asynchronous servers \<open>Async_Server_Threads\<close> relates the levels: the statements
  of \<^verbatim>\<open>onAccept\<close>, of \<^verbatim>\<open>Stop\<close> and the handlers of different connections interleave, and only the statements of one
  handler of a service down to the one that starts its next operation, deletes it or throws are one move, since no other
  handler has its members.

  \<^bold>\<open>Bounds.\<close> A request makes at most six completions, a session and a service three, an echo service two;
  the schedules of the locks have at most fifteen moves per activity, and a server with \<open>n\<close> threads makes at most \<open>5 n + 2\<close> moves after \<^verbatim>\<open>m_ios.stop()\<close>; these bounds are proved from ranks
  and measures. The read and write loops make at most as many calls as there are bytes, given that a successful
  partial operation transfers at least one byte and no more than it was offered, as the library documents.

  \<^bold>\<open>What is not modelled.\<close> The text of error messages (an argument of the printing functions), the sleeps, the options of the TLS context, allocation failure outside the one array of the HTTP service, the failure to create the I/O threads of the
  clients, the data race on \<^verbatim>\<open>std::cout\<close>, and the build files.
\<close>

end
